(* ===== verification/CMem.thy ===== *)
theory CMem
  imports Main "HOL-Library.Word" "HOL-Library.Monad_Syntax"
begin

text \<open>
  The prelude of the development: the memory of a C++ process as the sources use it.
  A \<^verbatim>\<open>char\<close> is an 8-bit word, a \<^verbatim>\<open>char buf[N]\<close> is a list of
  \<open>N\<close> bytes, and every access outside of the array is the value \<open>None\<close> (undefined
  behaviour), so that a theorem with the conclusion \<open>Some\<close> is also a memory-safety
  theorem. Integers are stored the way the x86 targets of the Makefiles store them,
  least significant byte first, and \<^verbatim>\<open>char\<close> is signed.
\<close>

unbundle bit_operations_syntax

type_synonym byte = "8 word"
type_synonym u16 = "16 word"
type_synonym u32 = "32 word"
type_synonym u64 = "64 word"
type_synonym cbuf = "byte list"

text \<open>What a call comes to that may end the process with an exit code.\<close>

datatype 'a outcome = Exits int | Returns 'a

named_theorems buf_simps "reads and writes of a buffer split into parts"

section \<open>Buffers\<close>

definition zeros :: "nat \<Rightarrow> cbuf" where
  "zeros n = replicate n 0"

definition rd_byte :: "cbuf \<Rightarrow> nat \<Rightarrow> byte option" where
  "rd_byte b i = (if i < length b then Some (b ! i) else None)"

definition wr_byte :: "cbuf \<Rightarrow> nat \<Rightarrow> byte \<Rightarrow> cbuf option" where
  "wr_byte b i x = (if i < length b then Some (b[i := x]) else None)"

definition rd_bytes :: "cbuf \<Rightarrow> nat \<Rightarrow> nat \<Rightarrow> byte list option" where
  "rd_bytes b i n = (if i + n \<le> length b then Some (take n (drop i b)) else None)"

definition wr_bytes :: "cbuf \<Rightarrow> nat \<Rightarrow> byte list \<Rightarrow> cbuf option" where
  "wr_bytes b i xs =
     (if i + length xs \<le> length b
      then Some (take i b @ xs @ drop (i + length xs) b) else None)"

lemma length_zeros [simp]: "length (zeros n) = n"
  by (simp add: zeros_def)

lemma take_zeros [simp]: "take n (zeros m) = zeros (min n m)"
  by (simp add: zeros_def)

lemma drop_zeros [simp]: "drop n (zeros m) = zeros (m - n)"
  by (simp add: zeros_def)

lemma zeros_add: "zeros (m + n) = zeros m @ zeros n"
  by (simp add: zeros_def replicate_add)

lemma zeros_split: "m \<le> n \<Longrightarrow> zeros n = zeros m @ zeros (n - m)"
  by (simp flip: zeros_add)

lemma zeros_0 [simp]: "zeros 0 = []"
  by (simp add: zeros_def)

lemma zeros_Suc: "zeros (Suc n) = 0 # zeros n"
  by (simp add: zeros_def)

lemma rd_byte_less: "rd_byte b i = Some x \<Longrightarrow> i < length b"
  by (simp add: rd_byte_def split: if_splits)

lemma rd_byte_None: "rd_byte b i = None \<longleftrightarrow> length b \<le> i"
  by (auto simp: rd_byte_def)

lemma wr_byte_length: "wr_byte b i x = Some b' \<Longrightarrow> length b' = length b"
  by (auto simp: wr_byte_def split: if_splits)

lemma wr_bytes_length: "wr_bytes b i xs = Some b' \<Longrightarrow> length b' = length b"
  by (auto simp: wr_bytes_def split: if_splits)

lemma wr_bytes_None: "wr_bytes b i xs = None \<longleftrightarrow> length b < i + length xs"
  by (auto simp: wr_bytes_def)

lemma rd_byte_app [buf_simps]: "i = length a \<Longrightarrow> rd_byte (a @ x # c) i = Some x"
  by (simp add: rd_byte_def)

lemma wr_byte_app [buf_simps]: "i = length a \<Longrightarrow> wr_byte (a @ x # c) i y = Some (a @ y # c)"
  by (simp add: wr_byte_def list_update_append)

lemma wr_bytes_app [buf_simps]:
  "i = length a \<Longrightarrow> length y = length x \<Longrightarrow> wr_bytes (a @ x @ c) i y = Some (a @ y @ c)"
  by (simp add: wr_bytes_def)

lemma wr_bytes_app0 [buf_simps]:
  "length y = length x \<Longrightarrow> wr_bytes (x @ c) 0 y = Some (y @ c)"
  by (simp add: wr_bytes_def)

lemma rd_bytes_app [buf_simps]:
  "i = length a \<Longrightarrow> n = length x \<Longrightarrow> rd_bytes (a @ x @ c) i n = Some x"
  by (simp add: rd_bytes_def)

lemma rd_bytes_app0 [buf_simps]: "n = length x \<Longrightarrow> rd_bytes (x @ c) 0 n = Some x"
  by (simp add: rd_bytes_def)

lemma rd_bytes_wr_bytes_same:
  "wr_bytes b i xs = Some b' \<Longrightarrow> rd_bytes b' i (length xs) = Some xs"
  by (auto simp: wr_bytes_def rd_bytes_def split: if_splits)

lemma rd_bytes_wr_bytes_other:
  assumes w: "wr_bytes b i xs = Some b'" and sep: "j + n \<le> i \<or> i + length xs \<le> j"
  shows "rd_bytes b' j n = rd_bytes b j n"
proof -
  from w have le: "i + length xs \<le> length b"
    and b': "b' = take i b @ xs @ drop (i + length xs) b"
    by (auto simp: wr_bytes_def split: if_splits)
  have len: "length b' = length b" using le b' by simp
  have "take n (drop j b') = take n (drop j b)"
  proof (rule nth_equalityI)
    show "length (take n (drop j b')) = length (take n (drop j b))" using len by simp
  next
    fix k assume "k < length (take n (drop j b'))"
    then have k: "k < n" "j + k < length b" using len by auto
    have "b' ! (j + k) = b ! (j + k)"
      using sep k le unfolding b' by (auto simp: nth_append)
    then show "take n (drop j b') ! k = take n (drop j b) ! k" using k len by simp
  qed
  then show ?thesis by (simp add: rd_bytes_def len)
qed

section \<open>C strings\<close>

text \<open>
  \<open>c_str b i\<close> is the string that starts at \<open>b + i\<close>: the bytes before the first NUL.
  It is \<open>None\<close> when no NUL follows inside of the array (\<^verbatim>\<open>strlen\<close> would read on).
\<close>

definition c_str :: "cbuf \<Rightarrow> nat \<Rightarrow> byte list option" where
  "c_str b i =
     (if 0 \<in> set (drop i b) then Some (takeWhile (\<lambda>x. x \<noteq> 0) (drop i b)) else None)"

text \<open>Text of the sources: a literal \<open>''abc''\<close> as bytes.\<close>

definition ascii :: "string \<Rightarrow> byte list" where
  "ascii s = map of_char s"

lemma length_ascii [simp]: "length (ascii s) = length s"
  by (simp add: ascii_def)

lemma ascii_append: "ascii (s @ t) = ascii s @ ascii t"
  by (simp add: ascii_def)

lemma takeWhile_not_nul: "0 \<notin> set s \<Longrightarrow> takeWhile (\<lambda>x. x \<noteq> 0) (s @ 0 # c) = (s :: byte list)"
  by (induction s) auto

lemma c_str_app [buf_simps]:
  "i = length a \<Longrightarrow> 0 \<notin> set s \<Longrightarrow> c_str (a @ s @ 0 # c) i = Some s"
  by (simp add: c_str_def takeWhile_not_nul)

lemma c_str_app0 [buf_simps]: "0 \<notin> set s \<Longrightarrow> c_str (s @ 0 # c) 0 = Some s"
  by (simp add: c_str_def takeWhile_not_nul)

lemma c_str_no_nul: "c_str b i = Some s \<Longrightarrow> 0 \<notin> set s"
  by (auto simp: c_str_def split: if_splits dest: set_takeWhileD)

lemma c_str_length: "c_str b i = Some s \<Longrightarrow> length s < length b - i"
proof -
  assume s: "c_str b i = Some s"
  then have "0 \<in> set (drop i b)" and s_def: "s = takeWhile (\<lambda>x. x \<noteq> 0) (drop i b)"
    by (auto simp: c_str_def split: if_splits)
  then have "takeWhile (\<lambda>x. x \<noteq> 0) (drop i b) \<noteq> drop i b"
    by (metis (mono_tags) set_takeWhileD)
  then have "length s \<noteq> length (drop i b)"
    unfolding s_def by (metis takeWhile_eq_take take_all order_refl)
  moreover have "length s \<le> length (drop i b)"
    unfolding s_def by (rule length_takeWhile_le)
  ultimately show ?thesis by simp
qed

end
