(* ===== verification/Endian.thy ===== *)
theory Endian
  imports CMem
begin

text \<open>
  Integers in memory and on the wire. The host stores an integer least significant byte
  first (\<open>le16\<close>, \<open>le32\<close>, \<open>le64\<close>); \<open>htons\<close> and \<open>htonl\<close> are the C library's byte
  swaps; \<open>htobe64\<close> and \<open>be64toh\<close> are the 64-bit swaps that
  \<^verbatim>\<open>transfer_export/include/transfer.h\<close> builds from \<open>htonl\<close>. The locale
  \<open>byte_codec\<close> is the contract of a fixed-width field of a message.
\<close>

section \<open>Memory order\<close>

fun le_bytes :: "nat \<Rightarrow> 'a::len word \<Rightarrow> byte list" where
  "le_bytes 0 w = []"
| "le_bytes (Suc n) w = ucast w # le_bytes n (drop_bit 8 w)"

fun of_le :: "byte list \<Rightarrow> 'a::len word" where
  "of_le [] = 0"
| "of_le (b # bs) = ucast b OR push_bit 8 (of_le bs)"

definition le16 :: "u16 \<Rightarrow> byte list" where
  "le16 w = le_bytes 2 w"

definition le32 :: "u32 \<Rightarrow> byte list" where
  "le32 w = le_bytes 4 w"

definition le64 :: "u64 \<Rightarrow> byte list" where
  "le64 w = le_bytes 8 w"

lemma length_le_bytes [simp]: "length (le_bytes n w) = n"
  by (induction n arbitrary: w) auto

lemma length_le [simp]:
  "length (le16 a) = 2" "length (le32 b) = 4" "length (le64 c) = 8"
  by (simp_all add: le16_def le32_def le64_def)

lemma le16_bytes: "le16 w = [ucast w, ucast (drop_bit 8 w)]"
proof -
  have "le_bytes (Suc (Suc 0)) w = [ucast w, ucast (drop_bit 8 w)]" by simp
  then show ?thesis by (simp only: le16_def numeral_2_eq_2)
qed

lemma nth_le_bytes: "k < n \<Longrightarrow> le_bytes n w ! k = ucast (drop_bit (8 * k) w)"
  by (induction n arbitrary: w k) (auto simp: nth_Cons add.commute split: nat.split)

lemma le_bytes_add: "le_bytes (m + n) w = le_bytes m w @ le_bytes n (drop_bit (8 * m) w)"
  by (induction m arbitrary: w) (auto simp: ac_simps)

lemma bit_of_le:
  "bit (of_le bs :: 'a::len word) n \<longleftrightarrow>
     n < LENGTH('a) \<and> n div 8 < length bs \<and> bit (bs ! (n div 8)) (n mod 8)"
proof (induction bs arbitrary: n)
  case Nil
  then show ?case by simp
next
  case (Cons b bs)
  show ?case
  proof (cases "n < 8")
    case True
    then show ?thesis by (auto simp: bit_simps)
  next
    case False
    then have "n div 8 = Suc ((n - 8) div 8)" and "n mod 8 = (n - 8) mod 8"
      by (auto simp: le_div_geq le_mod_geq)
    moreover have "\<not> bit b n" using False by (auto dest: bit_imp_le_length)
    ultimately show ?thesis using False Cons.IH [of "n - 8"] by (auto simp: bit_simps)
  qed
qed

lemma of_le_le_bytes:
  assumes "LENGTH('a) \<le> 8 * n"
  shows "of_le (le_bytes n w) = (w :: 'a::len word)"
proof (rule bit_word_eqI)
  fix k assume k: "k < LENGTH('a)"
  then have "k div 8 < n" using assms by (simp add: div_less_iff_less_mult)
  then show "bit (of_le (le_bytes n w) :: 'a word) k = bit w k"
    using k by (simp add: bit_of_le nth_le_bytes bit_simps)
qed

lemma le_bytes_of_le:
  assumes "8 * n \<le> LENGTH('a)" and "length bs = n"
  shows "le_bytes n (of_le bs :: 'a::len word) = bs"
proof (rule nth_equalityI)
  fix k assume k: "k < length (le_bytes n (of_le bs :: 'a word))"
  show "le_bytes n (of_le bs :: 'a word) ! k = bs ! k"
  proof (rule bit_word_eqI)
    fix m :: nat assume m: "m < LENGTH(8)"
    have "(8 * k + m) div 8 = k" and "(8 * k + m) mod 8 = m" using m by auto
    then show "bit (le_bytes n (of_le bs :: 'a word) ! k) m = bit (bs ! k) m"
      using k m assms by (simp add: nth_le_bytes bit_simps bit_of_le)
  qed
qed (simp add: assms)

lemma of_le_le [simp]:
  "of_le (le16 a) = a" "of_le (le32 b) = b" "of_le (le64 c) = c"
  by (simp_all add: le16_def le32_def le64_def of_le_le_bytes)

lemma le_of_le:
  "length bs = 2 \<Longrightarrow> le16 (of_le bs) = bs" "length bs = 4 \<Longrightarrow> le32 (of_le bs) = bs"
  "length bs = 8 \<Longrightarrow> le64 (of_le bs) = bs"
  by (simp_all add: le16_def le32_def le64_def le_bytes_of_le)

declare of_le.simps [simp del]

section \<open>Network order\<close>

text \<open>\<^verbatim>\<open>htons\<close> and \<^verbatim>\<open>htonl\<close> of the C library reverse the bytes on these hosts.\<close>

definition htons :: "u16 \<Rightarrow> u16" where
  "htons w = of_le (rev (le16 w))"

definition htonl :: "u32 \<Rightarrow> u32" where
  "htonl w = of_le (rev (le32 w))"

definition ntohs :: "u16 \<Rightarrow> u16" where
  "ntohs w = of_le (rev (le16 w))"

definition ntohl :: "u32 \<Rightarrow> u32" where
  "ntohl w = of_le (rev (le32 w))"

text \<open>The 64-bit swaps are the project's own.\<close>

definition htobe64 :: "u64 \<Rightarrow> u64" where
  "htobe64 host =
     ucast (htonl (ucast (drop_bit 32 host)))
     OR push_bit 32 (ucast (htonl (ucast (host AND 0xffffffff))))"

definition be64toh :: "u64 \<Rightarrow> u64" where
  "be64toh net =
     ucast (ntohl (ucast (drop_bit 32 net)))
     OR push_bit 32 (ucast (ntohl (ucast (net AND 0xffffffff))))"

definition be16 :: "u16 \<Rightarrow> byte list" where
  "be16 w = rev (le16 w)"

definition be32 :: "u32 \<Rightarrow> byte list" where
  "be32 w = rev (le32 w)"

definition be64 :: "u64 \<Rightarrow> byte list" where
  "be64 w = rev (le64 w)"

lemma length_be [simp]: "length (be16 a) = 2" "length (be32 b) = 4" "length (be64 c) = 8"
  by (simp_all add: be16_def be32_def be64_def)

lemma le16_htons: "le16 (htons w) = be16 w"
  by (simp add: htons_def be16_def le_of_le)

lemma le32_htonl: "le32 (htonl w) = be32 w"
  by (simp add: htonl_def be32_def le_of_le)

lemma htons_involutive [simp]: "ntohs (htons w) = w"
  by (simp add: ntohs_def le16_htons be16_def)

lemma htonl_involutive [simp]: "ntohl (htonl w) = w"
  by (simp add: ntohl_def le32_htonl be32_def)

lemma ucast_low_half: "ucast (w AND 0xffffffff :: u64) = (ucast w :: u32)"
proof -
  have m: "(0xffffffff :: u64) = mask 32" by (simp add: mask_eq_exp_minus_1)
  show ?thesis unfolding m by (rule bit_word_eqI) (auto simp: bit_simps)
qed

lemma le64_halves: "le64 w = le32 (ucast w) @ le32 (ucast (drop_bit 32 w))"
proof -
  have "le_bytes 4 (ucast x :: u32) = le_bytes 4 x" for x :: u64
    by (rule nth_equalityI) (auto simp: nth_le_bytes bit_simps intro!: bit_word_eqI)
  then show ?thesis
    unfolding le64_def le32_def using le_bytes_add [of 4 4 w] by simp
qed

lemma le64_htobe64: "le64 (htobe64 w) = be64 w"
proof -
  have lo: "ucast (ucast a OR push_bit 32 (ucast b) :: u64) = a"
    and hi: "ucast (drop_bit 32 (ucast a OR push_bit 32 (ucast b) :: u64)) = b"
    for a b :: u32
    by (rule bit_word_eqI; auto simp: bit_simps dest: bit_imp_le_length)+
  show ?thesis
    unfolding le64_halves [of "htobe64 w"]
    by (simp only: htobe64_def lo hi ucast_low_half le32_htonl)
      (simp add: be64_def be32_def le64_halves [of w])
qed

lemma be64toh_eq: "be64toh w = htobe64 w"
  by (simp add: be64toh_def htobe64_def ntohl_def htonl_def)

lemma be64toh_htobe64: "be64toh (htobe64 w) = w"
  unfolding be64toh_eq by (metis be64_def le64_htobe64 of_le_le(3) rev_rev_ident)

lemma ntohs_of_be16 [simp]: "ntohs (of_le (be16 w)) = w"
  by (simp add: ntohs_def be16_def le_of_le)

lemma be64toh_of_be64 [simp]: "be64toh (of_le (be64 w)) = w"
  by (simp add: be64toh_htobe64 flip: le64_htobe64)

section \<open>Fixed-width fields\<close>

locale byte_codec =
  fixes enc :: "'a \<Rightarrow> byte list"
    and dec :: "byte list \<Rightarrow> 'a"
    and width :: nat
  assumes enc_length: "length (enc x) = width"
    and dec_enc: "dec (enc x) = x"
begin

lemma enc_inj: "enc x = enc y \<Longrightarrow> x = y"
  by (metis dec_enc)

lemma field_written:
  assumes "wr_bytes b i (enc x) = Some b'"
  shows "map_option dec (rd_bytes b' i width) = Some x"
  using rd_bytes_wr_bytes_same [OF assms] by (simp add: enc_length dec_enc)

lemma field_kept:
  assumes "wr_bytes b i (enc x) = Some b'" and "j + n \<le> i \<or> i + width \<le> j"
  shows "rd_bytes b' j n = rd_bytes b j n"
  using rd_bytes_wr_bytes_other [OF assms(1)] assms(2) by (simp add: enc_length)

lemma field_of_message: "dec (take width (enc x @ rest)) = x"
  by (simp add: enc_length dec_enc)

lemma rest_of_message: "drop width (enc x @ rest) = rest"
  by (simp add: enc_length)

end

interpretation net16: byte_codec "\<lambda>w. le16 (htons w)" "\<lambda>bs. ntohs (of_le bs)" 2
  by unfold_locales simp_all

interpretation net64: byte_codec "\<lambda>w. le64 (htobe64 w)" "\<lambda>bs. be64toh (of_le bs)" 8
  by unfold_locales (simp_all add: be64toh_htobe64)

end
