(* ===== verification/CText.thy ===== *)
theory CText
  imports CMem
begin

text \<open>
  Text input and output as the sources use them: \<^verbatim>\<open>%d\<close> and \<^verbatim>\<open>operator<<\<close> of an
  int, \<^verbatim>\<open>atoi\<close>, and the extractions \<^verbatim>\<open>fin >> string\<close>, \<^verbatim>\<open>fin >> int\<close> on an
  input stream, which is the list of bytes not read yet. An extraction that sets the fail
  bit is \<open>None\<close>.
\<close>

section \<open>Decimal numbers\<close>

definition is_space :: "byte \<Rightarrow> bool" where
  "is_space b \<longleftrightarrow> b = 0x20 \<or> (9 \<le> b \<and> b \<le> 13)"

definition is_digit :: "byte \<Rightarrow> bool" where
  "is_digit b \<longleftrightarrow> 0x30 \<le> b \<and> b \<le> 0x39"

fun dec_nat :: "nat \<Rightarrow> byte list" where
  "dec_nat n =
     (if n < 10 then [0x30 + of_nat n] else dec_nat (n div 10) @ [0x30 + of_nat (n mod 10)])"

declare dec_nat.simps [simp del]

definition dec_int :: "int \<Rightarrow> byte list" where
  "dec_int i = (if i < 0 then 0x2d # dec_nat (nat (- i)) else dec_nat (nat i))"

definition digits_val :: "nat \<Rightarrow> byte list \<Rightarrow> nat" where
  "digits_val a ds = foldl (\<lambda>v d. 10 * v + unat (d - 0x30)) a ds"

lemma less_10_cases: "n < 10 \<Longrightarrow> n \<in> {0, 1, 2, 3, 4, 5, 6, 7, 8, 9 :: nat}"
  by auto

lemma digit_char:
  assumes "n < 10"
  shows "is_digit (0x30 + of_nat n)" and "unat (of_nat n :: byte) = n"
  using less_10_cases [OF assms] by (auto simp: is_digit_def)

lemma digit_not_space: "is_digit b \<Longrightarrow> \<not> is_space b"
  unfolding is_digit_def is_space_def by unat_arith

lemma digit_not_sign: "is_digit b \<Longrightarrow> b \<noteq> 0x2d \<and> b \<noteq> 0x2b \<and> b \<noteq> 0x2e \<and> b \<noteq> 0"
  unfolding is_digit_def by auto

lemma dec_nat_digits: "\<forall>b \<in> set (dec_nat n). is_digit b"
proof (induction n rule: dec_nat.induct)
  case (1 n)
  then show ?case
    by (subst dec_nat.simps) (auto simp: digit_char)
qed

lemma dec_nat_nonempty [simp]: "dec_nat n \<noteq> []"
  by (subst dec_nat.simps) simp

lemma digits_val_append: "digits_val a (xs @ ys) = digits_val (digits_val a xs) ys"
  by (simp add: digits_val_def)

lemma digits_val_dec_nat: "digits_val 0 (dec_nat n) = n"
proof (induction n rule: dec_nat.induct)
  case (1 n)
  show ?case
  proof (cases "n < 10")
    case True
    then show ?thesis
      by (subst dec_nat.simps) (simp add: digits_val_def digit_char)
  next
    case False
    then have "digits_val 0 (dec_nat (n div 10)) = n div 10" by (rule 1)
    then show ?thesis
      by (subst dec_nat.simps)
        (simp add: False digits_val_append, simp add: digits_val_def digit_char)
  qed
qed

lemma dec_nat_length: "n < 10 ^ k \<Longrightarrow> 0 < k \<Longrightarrow> length (dec_nat n) \<le> k"
proof (induction k arbitrary: n)
  case (Suc k)
  show ?case
  proof (cases "n < 10")
    case True
    then show ?thesis by (subst dec_nat.simps) simp
  next
    case False
    then have k: "0 < k" using Suc.prems by (cases k) auto
    have "n div 10 < 10 ^ k" using Suc.prems by (simp add: less_mult_imp_div_less)
    then have "length (dec_nat (n div 10)) \<le> k" using Suc.IH k by blast
    then show ?thesis using False by (subst dec_nat.simps) simp
  qed
qed simp

lemma dec_int_length:
  assumes "\<bar>i\<bar> < 10 ^ 10"
  shows "length (dec_int i) \<le> 11"
proof (cases "i < 0")
  case True
  then have "nat (- i) < 10 ^ 10" using assms by simp
  then have "length (dec_nat (nat (- i))) \<le> 10" using dec_nat_length [of _ 10] by simp
  then show ?thesis using True by (simp add: dec_int_def)
next
  case False
  then have "nat i < 10 ^ 10" using assms by simp
  then have "length (dec_nat (nat i)) \<le> 10" using dec_nat_length [of _ 10] by simp
  then show ?thesis using False by (simp add: dec_int_def)
qed

lemma dec_nat_no_nul: "0 \<notin> set (dec_nat n)"
  using dec_nat_digits [of n] by (auto dest: digit_not_sign)

lemma dec_nat_hd: "\<exists>d ds. dec_nat n = d # ds \<and> is_digit d"
  using dec_nat_digits [of n] by (cases "dec_nat n") auto

section \<open>Stream extraction\<close>

definition skip_ws :: "byte list \<Rightarrow> byte list" where
  "skip_ws s = dropWhile is_space s"

definition get_token :: "byte list \<Rightarrow> (byte list \<times> byte list) option" where
  "get_token s =
     (let t = skip_ws s in
      if t = [] then None
      else Some (takeWhile (\<lambda>b. \<not> is_space b) t, dropWhile (\<lambda>b. \<not> is_space b) t))"

definition int_range :: "int \<Rightarrow> bool" where
  "int_range i \<longleftrightarrow> - (2 ^ 31) \<le> i \<and> i < 2 ^ 31"

definition sign_split :: "byte list \<Rightarrow> bool \<times> byte list" where
  "sign_split s =
     (case s of [] \<Rightarrow> (False, [])
      | c # r \<Rightarrow> if c = 0x2d then (True, r) else if c = 0x2b then (False, r) else (False, s))"

definition get_int :: "byte list \<Rightarrow> (int \<times> byte list) option" where
  "get_int s =
     (let (neg, t) = sign_split (skip_ws s);
          ds = takeWhile is_digit t;
          v = int (digits_val 0 ds);
          i = (if neg then - v else v)
      in if ds = [] \<or> \<not> int_range i then None else Some (i, dropWhile is_digit t))"

definition atoi :: "byte list \<Rightarrow> int" where
  "atoi s =
     (let (neg, t) = sign_split (skip_ws s);
          v = int (digits_val 0 (takeWhile is_digit t))
      in if neg then - v else v)"

lemma skip_ws_length: "length (skip_ws s) \<le> length s"
  by (simp add: skip_ws_def length_dropWhile_le)

lemma get_token_length: "get_token s = Some (t, r) \<Longrightarrow> length r < length s"
proof -
  assume g: "get_token s = Some (t, r)"
  then have ne: "skip_ws s \<noteq> []" and r: "r = dropWhile (\<lambda>b. \<not> is_space b) (skip_ws s)"
    by (auto simp: get_token_def Let_def split: if_splits)
  obtain x xs where x: "skip_ws s = x # xs" using ne by (cases "skip_ws s") auto
  then have "\<not> is_space x"
    using hd_dropWhile [of is_space s] ne by (simp add: skip_ws_def)
  then have "length r \<le> length xs" by (simp add: r x length_dropWhile_le)
  then show ?thesis using skip_ws_length [of s] x by simp
qed

lemma get_int_length: "get_int s = Some (i, r) \<Longrightarrow> length r \<le> length s"
proof -
  assume g: "get_int s = Some (i, r)"
  then have "r = dropWhile is_digit (snd (sign_split (skip_ws s)))"
    by (auto simp: get_int_def Let_def split: prod.splits if_splits)
  moreover have "length (snd (sign_split t)) \<le> length t" for t
    by (auto simp: sign_split_def split: list.splits)
  ultimately show ?thesis
    using skip_ws_length [of s] length_dropWhile_le order_trans by metis
qed

definition is_word :: "byte list \<Rightarrow> bool" where
  "is_word w \<longleftrightarrow> w \<noteq> [] \<and> (\<forall>b \<in> set w. \<not> is_space b)"

lemma get_token_word:
  assumes w: "is_word w" and sp: "is_space b"
  shows "get_token (w @ b # r) = Some (w, b # r)"
proof -
  obtain x xs where "w = x # xs" using w by (cases w) (auto simp: is_word_def)
  then have "skip_ws (w @ b # r) = w @ b # r"
    using w by (simp add: skip_ws_def is_word_def)
  moreover have "takeWhile (\<lambda>b. \<not> is_space b) (w @ b # r) = w"
    and "dropWhile (\<lambda>b. \<not> is_space b) (w @ b # r) = b # r"
    using w sp by (auto simp: is_word_def takeWhile_append2 dropWhile_append2)
  ultimately show ?thesis by (simp add: get_token_def)
qed

lemma get_token_skip: "is_space b \<Longrightarrow> get_token (b # r) = get_token r"
  by (simp add: get_token_def skip_ws_def)

lemma get_int_skip: "is_space b \<Longrightarrow> get_int (b # r) = get_int r"
  by (simp add: get_int_def skip_ws_def)

lemma get_token_empty [simp]: "get_token [] = None"
  by (simp add: get_token_def skip_ws_def)

lemma takeWhile_digits:
  assumes "\<forall>b \<in> set ds. is_digit b" and "r = [] \<or> \<not> is_digit (hd r)"
  shows "takeWhile is_digit (ds @ r) = ds" and "dropWhile is_digit (ds @ r) = r"
  using assms by (cases r; simp add: takeWhile_append2 dropWhile_append2)+

lemma dec_int_split:
  assumes "r = [] \<or> \<not> is_digit (hd r)"
  shows "sign_split (skip_ws (dec_int i @ r)) =
    (i < 0, dec_nat (nat \<bar>i\<bar>) @ r)"
proof -
  obtain d ds where d: "dec_nat (nat \<bar>i\<bar>) = d # ds" "is_digit d"
    using dec_nat_hd by blast
  then show ?thesis
    using digit_not_space [OF d(2)] digit_not_sign [OF d(2)]
    by (auto simp: dec_int_def sign_split_def skip_ws_def is_space_def)
qed

text \<open>Printing an int and reading it back.\<close>

lemma get_int_dec_int:
  assumes "int_range i" and r: "r = [] \<or> \<not> is_digit (hd r)"
  shows "get_int (dec_int i @ r) = Some (i, r)"
  using assms(1) takeWhile_digits [OF dec_nat_digits r]
  by (simp add: get_int_def Let_def dec_int_split [OF r] digits_val_dec_nat)

lemma atoi_dec_int:
  assumes r: "r = [] \<or> \<not> is_digit (hd r)"
  shows "atoi (dec_int i @ r) = i"
  using takeWhile_digits [OF dec_nat_digits r]
  by (simp add: atoi_def Let_def dec_int_split [OF r] digits_val_dec_nat)

lemma dec_int_no_nul: "0 \<notin> set (dec_int i)"
  using dec_nat_no_nul by (simp add: dec_int_def)

section \<open>Configuration files\<close>

text \<open>
  The loop \<^verbatim>\<open>while (fin >> name >> var)\<close> over a file of names and numbers yields the
  pairs it sees, in order.
\<close>

function kv_pairs :: "byte list \<Rightarrow> (byte list \<times> int) list" where
  "kv_pairs s =
     (case get_token s of
        None \<Rightarrow> []
      | Some (name, r) \<Rightarrow>
          (case get_int r of None \<Rightarrow> [] | Some (v, r') \<Rightarrow> (name, v) # kv_pairs r'))"
  by pat_completeness auto
termination
  by (relation "measure length")
    (auto dest!: get_token_length get_int_length)

declare kv_pairs.simps [simp del]

text \<open>\<^verbatim>\<open>while (fin >> a >> b)\<close> over a file of pairs of words.\<close>

function word_pairs :: "byte list \<Rightarrow> (byte list \<times> byte list) list" where
  "word_pairs s =
     (case get_token s of
        None \<Rightarrow> []
      | Some (a, r) \<Rightarrow>
          (case get_token r of None \<Rightarrow> [] | Some (b, r') \<Rightarrow> (a, b) # word_pairs r'))"
  by pat_completeness auto
termination
  by (relation "measure length")
    (auto dest!: get_token_length)

declare word_pairs.simps [simp del]

definition newline :: byte where
  "newline = 0x0a"

definition space :: byte where
  "space = 0x20"

lemma space_newline [simp]: "is_space newline" "is_space space" "\<not> is_digit newline"
  by (simp_all add: is_space_def is_digit_def newline_def space_def)

lemma kv_pairs_line:
  assumes "is_word name" and "int_range v"
  shows "kv_pairs (name @ space # dec_int v @ newline # r) = (name, v) # kv_pairs (newline # r)"
  using get_int_dec_int [OF assms(2), of "newline # r"]
  by (subst kv_pairs.simps) (simp add: get_token_word [OF assms(1)] get_int_skip)

lemma kv_pairs_newline [simp]: "kv_pairs (newline # r) = kv_pairs r"
  by (subst (1 2) kv_pairs.simps) (simp add: get_token_skip)

lemma kv_pairs_Nil [simp]: "kv_pairs [] = []"
  by (subst kv_pairs.simps) simp

end
