(* ===== verification/DnsName.thy ===== *)
theory DnsName
  imports CMem
begin

text \<open>
  Domain names on the wire. \<open>label_loop\<close> is the in-place loop that both
  \<^verbatim>\<open>W_DnsServer::MakeDomain\<close> and \<^verbatim>\<open>W_DnsClient::Lookup\<close> run: the dotted
  text sits at \<open>buf + 1\<close> and every dot is overwritten by the length of the label after it.
  \<open>dom_loop\<close> is the loop of \<^verbatim>\<open>W_DnsServer::GetRes\<close> (and of its backup
  \<^verbatim>\<open>GetA\<close>) that turns the labels of a request back into dotted text. The reference
  definitions are \<open>labels\<close> and \<open>wire\<close>; the lemmas show that the first loop computes
  \<open>wire\<close>, that the second inverts it, and what the second does on a length byte that a
  signed \<^verbatim>\<open>char\<close> reads as negative.
\<close>

section \<open>The loops of the code\<close>

definition dot :: byte where
  "dot = 0x2e"

text \<open>\<open>p\<close> and \<open>e\<close> are offsets into \<open>buf\<close>, \<open>i\<close> is the length of the label so far.\<close>

function label_loop :: "cbuf \<Rightarrow> nat \<Rightarrow> nat \<Rightarrow> nat \<Rightarrow> cbuf option" where
  "label_loop buf e p i =
     (if p < e then
        (case rd_byte buf p of
           None \<Rightarrow> None
         | Some x \<Rightarrow>
             if x = dot then
               (case wr_byte buf (p - i - 1) (of_nat i) of
                  None \<Rightarrow> None
                | Some buf' \<Rightarrow> label_loop buf' e (p + 1) 0)
             else label_loop buf e (p + 1) (i + 1))
      else wr_byte buf (p - i - 1) (of_nat i))"
  by pat_completeness auto
termination
  by (relation "measure (\<lambda>(buf, e, p, i). e - p)") auto

declare label_loop.simps [simp del]

text \<open>
  \<open>n\<close> is the int \<^verbatim>\<open>dom_len\<close>, \<open>p\<close> the offset of \<^verbatim>\<open>domptr\<close> in the request, \<open>j\<close> the
  write index of \<^verbatim>\<open>query_dom\<close>. Every turn reads one more byte of the request, so the
  loop stops or leaves the buffer.
\<close>

function dom_loop :: "cbuf \<Rightarrow> nat \<Rightarrow> int \<Rightarrow> cbuf \<Rightarrow> nat \<Rightarrow> cbuf option" where
  "dom_loop req p n qd j =
     (if n = 0 then Some qd
      else
        (case rd_byte req p of
           None \<Rightarrow> None
         | Some x \<Rightarrow>
             (case wr_byte qd j x of
                None \<Rightarrow> None
              | Some qd1 \<Rightarrow>
                  if n - 1 = 0 then
                    (case rd_byte req (p + 1) of
                       None \<Rightarrow> None
                     | Some y \<Rightarrow>
                         if y = 0 then Some qd1
                         else
                           (case wr_byte qd1 (j + 1) dot of
                              None \<Rightarrow> None
                            | Some qd2 \<Rightarrow> dom_loop req (p + 2) (sint y) qd2 (j + 2)))
                  else dom_loop req (p + 1) (n - 1) qd1 (j + 1))))"
  by pat_completeness auto
termination
  by (relation "measure (\<lambda>(req, p, n, qd, j). length req - p)")
    (auto dest!: rd_byte_less)

declare dom_loop.simps [simp del]

section \<open>Labels and the wire format\<close>

fun labels_from :: "byte list \<Rightarrow> byte list \<Rightarrow> byte list list" where
  "labels_from cur [] = [cur]"
| "labels_from cur (x # xs) =
     (if x = dot then cur # labels_from [] xs else labels_from (cur @ [x]) xs)"

definition labels :: "byte list \<Rightarrow> byte list list" where
  "labels name = labels_from [] name"

fun join_labels :: "byte list list \<Rightarrow> byte list" where
  "join_labels [] = []"
| "join_labels [l] = l"
| "join_labels (l # ls) = l @ dot # join_labels ls"

definition label_wire :: "byte list \<Rightarrow> byte list" where
  "label_wire l = of_nat (length l) # l"

definition wire :: "byte list \<Rightarrow> byte list" where
  "wire name = concat (map label_wire (labels name))"

definition ok_label :: "byte list \<Rightarrow> bool" where
  "ok_label l \<longleftrightarrow> l \<noteq> [] \<and> length l < 128"

text \<open>A host name: no NUL, and labels of one to 127 bytes (RFC 1035 allows 63).\<close>

definition ok_name :: "byte list \<Rightarrow> bool" where
  "ok_name name \<longleftrightarrow> 0 \<notin> set name \<and> list_all ok_label (labels name)"

lemma labels_from_nonempty [simp]: "labels_from cur name \<noteq> []"
  by (induction cur name rule: labels_from.induct) auto

lemma join_labels_Cons: "ls \<noteq> [] \<Longrightarrow> join_labels (l # ls) = l @ dot # join_labels ls"
  by (cases ls) auto

lemma join_labels_from: "join_labels (labels_from cur name) = cur @ name"
  by (induction cur name rule: labels_from.induct) (auto simp: join_labels_Cons)

lemma join_labels [simp]: "join_labels (labels name) = name"
  by (simp add: labels_def join_labels_from)

lemma length_wire_from:
  "length (concat (map label_wire (labels_from cur name))) = length cur + length name + 1"
  by (induction cur name rule: labels_from.induct) (auto simp: label_wire_def)

lemma length_wire [simp]: "length (wire name) = length name + 1"
  by (simp add: wire_def labels_def length_wire_from)

lemma ok_name_nonempty: "ok_name name \<Longrightarrow> name \<noteq> []"
  by (auto simp: ok_name_def labels_def ok_label_def)

lemma wire_Cons: "\<exists>l ls. labels name = l # ls \<and> wire name = of_nat (length l) # l @ concat (map label_wire ls)"
  by (cases "labels name") (simp_all add: labels_def wire_def label_wire_def)

section \<open>The encoder computes the wire format\<close>

lemma label_loop_from:
  "label_loop (pre @ s # cur @ todo @ rest)
     (length pre + 1 + length cur + length todo) (length pre + 1 + length cur) (length cur)
   = Some (pre @ concat (map label_wire (labels_from cur todo)) @ rest)"
proof (induction cur todo arbitrary: pre s rule: labels_from.induct)
  case (1 cur)
  show ?case
    by (subst label_loop.simps) (simp add: wr_byte_app label_wire_def)
next
  case (2 cur x xs)
  have rd: "rd_byte (pre @ s # cur @ x # xs @ rest) (Suc (length pre + length cur)) = Some x"
    using rd_byte_app [of _ "pre @ s # cur" x "xs @ rest"] by simp
  show ?case
  proof (cases "x = dot")
    case True
    have "wr_byte (pre @ s # cur @ dot # xs @ rest) (length pre) (of_nat (length cur))
      = Some ((pre @ label_wire cur) @ dot # [] @ xs @ rest)"
      by (simp add: wr_byte_app label_wire_def)
    then show ?thesis
      using "2.IH"(1) [OF True, of "pre @ label_wire cur" dot] True rd
      by (subst label_loop.simps) (simp add: label_wire_def [of cur] ac_simps)
  next
    case False
    then show ?thesis
      using "2.IH"(2) [OF False, of pre s] rd
      by (subst label_loop.simps) simp
  qed
qed

lemma label_loop_wire:
  "label_loop (pre @ s # name @ rest) (length pre + 1 + length name) (length pre + 1) 0
   = Some (pre @ wire name @ rest)"
  using label_loop_from [of pre s "[]" name rest] by (simp add: wire_def labels_def)

section \<open>The decoder inverts it\<close>

lemma sint_length: "n < 128 \<Longrightarrow> sint (of_nat n :: byte) = int n"
  by (simp add: signed_of_nat signed_take_bit_int_eq_self)

lemma of_nat_byte_zero: "n < 128 \<Longrightarrow> (of_nat n :: byte) = 0 \<longleftrightarrow> n = 0"
  by (auto simp: word_of_nat_eq_0_iff dest: dvd_imp_le)

lemma wr_zeros:
  "0 < m \<Longrightarrow> wr_byte (done @ zeros m) (length done) x = Some ((done @ [x]) @ zeros (m - 1))"
  using wr_byte_app [of "length done" "done" 0 "zeros (m - 1)" x]
  by (cases m) (simp_all add: zeros_Suc)

lemma dom_loop_labels:
  assumes "l \<noteq> []" and "list_all ok_label ls"
    and "length (join_labels (l # ls)) \<le> m"
  shows "dom_loop (pre @ l @ concat (map label_wire ls) @ 0 # rest) (length pre) (int (length l))
      (done @ zeros m) (length done)
    = Some (done @ join_labels (l # ls) @ zeros (m - length (join_labels (l # ls))))"
  using assms
proof (induction ls arbitrary: l pre "done" m)
  case Nil
  then show ?case
  proof (induction l arbitrary: pre "done" m)
    case (Cons x xs)
    then have m: "0 < m" by simp
    have rd: "rd_byte (pre @ x # xs @ 0 # rest) (length pre) = Some x"
      by (simp add: rd_byte_app)
    show ?case
    proof (cases "xs = []")
      case True
      have "rd_byte (pre @ x # 0 # rest) (Suc (length pre)) = Some 0"
        using rd_byte_app [of _ "pre @ [x]"] by simp
      then show ?thesis
        using True rd by (subst dom_loop.simps) (simp add: wr_zeros [OF m])
    next
      case False
      then show ?thesis
        using Cons.IH [of "m - 1" "pre @ [x]" "done @ [x]"] Cons.prems rd
        by (subst dom_loop.simps) (simp add: wr_zeros [OF m])
    qed
  qed simp
next
  case (Cons k ks)
  note outer = Cons.IH and k = Cons.prems(2)
  from Cons.prems show ?case
  proof (induction l arbitrary: pre "done" m)
    case (Cons x xs)
    then have m: "0 < m" by simp
    let ?tail = "concat (map label_wire (k # ks)) @ 0 # rest"
    have rd: "rd_byte (pre @ x # xs @ ?tail) (length pre) = Some x"
      by (simp add: rd_byte_app)
    show ?case
    proof (cases "xs = []")
      case True
      have "ok_label k" and ks: "list_all ok_label ks" using k by simp_all
      then have kl: "k \<noteq> []" "length k < 128" by (simp_all add: ok_label_def)
      have m2: "0 < m - 1" and m3: "length (join_labels (k # ks)) \<le> m - 2"
        using Cons.prems True by auto
      have "rd_byte (pre @ x # ?tail) (Suc (length pre)) = Some (of_nat (length k))"
        using rd_byte_app [of _ "pre @ [x]" "of_nat (length k)"
            "k @ concat (map label_wire ks) @ 0 # rest"]
        by (simp add: label_wire_def [of k])
      moreover have "(of_nat (length k) :: byte) \<noteq> 0"
        using kl of_nat_byte_zero by simp
      ultimately show ?thesis
        using outer [OF kl(1) ks m3, of "pre @ [x, of_nat (length k)]" "done @ [x, dot]"]
          True rd wr_zeros [OF m2, of "done @ [x]" dot]
        by (subst dom_loop.simps)
          (simp add: wr_zeros [OF m] sint_length [OF kl(2)] label_wire_def [of k]
            numeral_2_eq_2)
    next
      case False
      then show ?thesis
        using Cons.IH [of "m - 1" "pre @ [x]" "done @ [x]"] Cons.prems rd
        by (subst dom_loop.simps) (simp add: wr_zeros [OF m])
    qed
  qed simp
qed

lemma dom_loop_wire:
  assumes "ok_name name" and "length name \<le> m"
    and req: "req = pre @ wire name @ 0 # rest"
  shows "\<exists>l. rd_byte req (length pre) = Some l
    \<and> dom_loop req (length pre + 1) (sint l) (zeros m) 0 = Some (name @ zeros (m - length name))"
proof -
  obtain l ls where ls: "labels name = l # ls"
    and w: "wire name = of_nat (length l) # l @ concat (map label_wire ls)"
    using wire_Cons by blast
  have l: "l \<noteq> []" "length l < 128" and ok: "list_all ok_label ls"
    using assms(1) ls by (auto simp: ok_name_def ok_label_def)
  have name: "join_labels (l # ls) = name" by (metis join_labels ls)
  have "rd_byte req (length pre) = Some (of_nat (length l))"
    by (simp add: req w rd_byte_app)
  moreover have "dom_loop req (length pre + 1) (sint (of_nat (length l) :: byte)) (zeros m) 0
      = Some (name @ zeros (m - length name))"
    using dom_loop_labels [OF l(1) ok, of m "pre @ [of_nat (length l)]" rest "[]"] assms(2)
    by (simp add: name req w sint_length [OF l(2)])
  ultimately show ?thesis by blast
qed

section \<open>Length bytes that read as negative\<close>

lemma dom_loop_negative: "n < 0 \<Longrightarrow> dom_loop req p n qd j = None"
proof (induction req p n qd j rule: dom_loop.induct)
  case (1 req p n qd j)
  then show ?case
    by (subst dom_loop.simps) (auto split: option.splits)
qed

end
