(* ===== verification/DnsServer.thy ===== *)
theory DnsServer
  imports Endian CText DnsName
begin

text \<open>
  The DNS server of \<^verbatim>\<open>dns_server/w_dnsserver.cpp\<close>: its two configuration maps, the
  conversion of a dotted address (\<open>GetIp\<close>), the PTR names (\<open>MakeDomain\<close>), the answer
  records and the response packet (\<open>GetRes\<close>, and the backup \<open>GetA\<close>). The state is the
  object \<^verbatim>\<open>W_DnsServer\<close>; \<open>None\<close> is undefined behaviour of the C++ code.
\<close>

section \<open>State and start-up\<close>

definition buf_size :: nat where
  "buf_size = 1024"

record dns_server =
  ip :: cbuf
  ipMap :: "byte list \<rightharpoonup> byte list"
  ptrMap :: "byte list \<rightharpoonup> byte list"

text \<open>\<^verbatim>\<open>std::map::operator[]\<close>: a missing key is inserted with the empty string.\<close>

definition map_get :: "(byte list \<rightharpoonup> byte list) \<Rightarrow> byte list \<Rightarrow> byte list" where
  "map_get m k = (case m k of None \<Rightarrow> [] | Some v \<Rightarrow> v)"

definition map_touch :: "(byte list \<rightharpoonup> byte list) \<Rightarrow> byte list \<Rightarrow> (byte list \<rightharpoonup> byte list)" where
  "map_touch m k = m(k \<mapsto> map_get m k)"

definition InitIpMap :: "byte list option \<Rightarrow> dns_server \<Rightarrow> bool \<times> dns_server" where
  "InitIpMap file s =
     (case file of
        None \<Rightarrow> (False, s)
      | Some txt \<Rightarrow>
          (True, s\<lparr>ipMap := fold (\<lambda>(dom, ipt) m. m(dom \<mapsto> ipt)) (word_pairs txt) (ipMap s)\<rparr>))"

definition arpa :: "byte list" where
  "arpa = ascii ''.in-addr.arpa''"

text \<open>The key built by \<^verbatim>\<open>sprintf\<close> must fit the 1024 bytes of \<^verbatim>\<open>tmp\<close>.\<close>

fun add_ptrs :: "(byte list \<times> byte list) list \<Rightarrow> (byte list \<rightharpoonup> byte list) \<Rightarrow>
    (byte list \<rightharpoonup> byte list) option" where
  "add_ptrs [] m = Some m"
| "add_ptrs ((addr, name) # ps) m =
     (if length (addr @ arpa) < buf_size
      then add_ptrs ps (m(addr \<mapsto> name, addr @ arpa \<mapsto> name)) else None)"

definition InitPtrMap :: "byte list option \<Rightarrow> dns_server \<Rightarrow> (bool \<times> dns_server) option" where
  "InitPtrMap file s =
     (case file of
        None \<Rightarrow> Some (False, s)
      | Some txt \<Rightarrow>
          map_option (\<lambda>m. (True, s\<lparr>ptrMap := m\<rparr>)) (add_ptrs (word_pairs txt) (ptrMap s)))"

datatype startup = Exit int | Started dns_server

definition W_DnsServer :: "byte list option \<Rightarrow> byte list option \<Rightarrow> startup option" where
  "W_DnsServer a_record ptr_record =
     (let (ok, s1) = InitIpMap a_record
            \<lparr>ip = zeros 4, ipMap = Map.empty, ptrMap = Map.empty\<rparr> in
      if \<not> ok then Some (Exit 1)
      else
        (case InitPtrMap ptr_record s1 of
           None \<Rightarrow> None
         | Some (ok2, s2) \<Rightarrow> if \<not> ok2 then Some (Exit 1) else Some (Started s2)))"

section \<open>Addresses\<close>

text \<open>The loop of \<open>GetIp\<close>: \<open>c\<close> is the char accumulator, \<open>j\<close> the index into \<^verbatim>\<open>ip[4]\<close>.\<close>

fun ip_loop :: "byte list \<Rightarrow> byte \<Rightarrow> nat \<Rightarrow> cbuf \<Rightarrow> (byte \<times> nat \<times> cbuf) option" where
  "ip_loop [] c j b = Some (c, j, b)"
| "ip_loop (x # xs) c j b =
     (if x = dot then
        (case wr_byte b j c of None \<Rightarrow> None | Some b' \<Rightarrow> ip_loop xs 0 (j + 1) b')
      else ip_loop xs (c * 10 + x - 0x30) j b)"

text \<open>\<^verbatim>\<open>(ip[0] << 24) + (ip[1] << 16) + (ip[2] << 8) + ip[3]\<close> on signed chars.\<close>

definition ip_word :: "cbuf \<Rightarrow> u32" where
  "ip_word b = push_bit 24 (scast (b ! 0)) + push_bit 16 (scast (b ! 1))
     + push_bit 8 (scast (b ! 2)) + scast (b ! 3)"

definition GetIp :: "dns_server \<Rightarrow> byte list \<Rightarrow> (u32 \<times> dns_server) option" where
  "GetIp s domain =
     (let ipRes = map_get (ipMap s) domain in
      do {
        (c, j, b) \<leftarrow> ip_loop ipRes 0 0 (zeros 4);
        b' \<leftarrow> wr_byte b j c;
        Some (ip_word b', s\<lparr>ip := b', ipMap := map_touch (ipMap s) domain\<rparr>)
      })"

section \<open>Answer records\<close>

definition MakeDomain :: "dns_server \<Rightarrow> cbuf \<Rightarrow> byte list \<Rightarrow> (u16 \<times> cbuf \<times> dns_server) option" where
  "MakeDomain s buf ipname =
     (let tmp = takeWhile (\<lambda>x. x \<noteq> 0) (map_get (ptrMap s) ipname) in
      do {
        b1 \<leftarrow> wr_bytes buf 1 tmp;
        b2 \<leftarrow> label_loop b1 (1 + length tmp) 1 0;
        str \<leftarrow> c_str b2 0;
        Some (of_nat (length str) + 1, b2, s\<lparr>ptrMap := map_touch (ptrMap s) ipname\<rparr>)
      })"

text \<open>\<open>p\<close> is the offset of \<^verbatim>\<open>res_buf_p\<close> in the response buffer.\<close>

definition MakeARecord :: "dns_server \<Rightarrow> cbuf \<Rightarrow> nat \<Rightarrow> cbuf \<Rightarrow> (nat \<times> cbuf \<times> dns_server) option" where
  "MakeARecord s res p query_dom =
     do {
       dom \<leftarrow> c_str query_dom 0;
       r1 \<leftarrow> wr_bytes res p (le16 (htons 0xc00c));
       r2 \<leftarrow> wr_bytes r1 (p + 2) (le16 (htons 1));
       r3 \<leftarrow> wr_bytes r2 (p + 4) (le16 (htons 1));
       r4 \<leftarrow> wr_bytes r3 (p + 6) (le32 (ucast (htons 0)));
       r5 \<leftarrow> wr_bytes r4 (p + 10) (le16 (htons 0x0004));
       (addr, s') \<leftarrow> GetIp s dom;
       r6 \<leftarrow> wr_bytes r5 (p + 12) (le32 (htonl addr));
       Some (16, r6, s')
     }"

definition MakePTRRecord :: "dns_server \<Rightarrow> cbuf \<Rightarrow> nat \<Rightarrow> cbuf \<Rightarrow> (nat \<times> cbuf \<times> dns_server) option" where
  "MakePTRRecord s res p query_dom =
     do {
       dom \<leftarrow> c_str query_dom 0;
       r1 \<leftarrow> wr_bytes res p (le16 (htons 0xc00c));
       r2 \<leftarrow> wr_bytes r1 (p + 2) (le16 (htons 12));
       r3 \<leftarrow> wr_bytes r2 (p + 4) (le16 (htons 1));
       r4 \<leftarrow> wr_bytes r3 (p + 6) (le32 (ucast (htons 1111)));
       (len, tmp, s') \<leftarrow> MakeDomain s (zeros 256) dom;
       r5 \<leftarrow> wr_bytes r4 (p + 10) (le16 (htons len));
       name \<leftarrow> rd_bytes tmp 0 (unat len);
       r6 \<leftarrow> wr_bytes r5 (p + 12) name;
       Some (12 + unat len, r6, s')
     }"

section \<open>The response\<close>

text \<open>Steps [1] and [2] of \<open>GetRes\<close> and \<open>GetA\<close>: copy the request, set QR and ANCOUNT.\<close>

definition response_start :: "nat \<Rightarrow> cbuf \<Rightarrow> cbuf option" where
  "response_start n req_buf =
     do {
       req \<leftarrow> rd_bytes req_buf 0 n;
       r1 \<leftarrow> wr_bytes (zeros buf_size) 0 req;
       flags \<leftarrow> rd_bytes r1 2 2;
       r2 \<leftarrow> wr_bytes r1 2 (le16 (of_le flags OR htons 0x8000));
       wr_bytes r2 6 (le16 (htons 1))
     }"

text \<open>Step [3]: the dotted name of the question, in \<^verbatim>\<open>query_dom[1024]\<close>.\<close>

definition get_query_dom :: "cbuf \<Rightarrow> cbuf option" where
  "get_query_dom req_buf =
     do {
       dom_len \<leftarrow> rd_byte req_buf 12;
       dom_loop req_buf 13 (sint dom_len) (zeros buf_size) 0
     }"

definition GetRes :: "dns_server \<Rightarrow> int \<Rightarrow> cbuf \<Rightarrow> (int \<times> cbuf \<times> dns_server) option" where
  "GetRes s req_size req_buf =
     (if req_size < 0 then None
      else let n = nat req_size in
      do {
        res \<leftarrow> response_start n req_buf;
        query_dom \<leftarrow> get_query_dom req_buf;
        query_type \<leftarrow> (if n < 4 then None else rd_bytes req_buf (n - 4) 2);
        (len, res', s') \<leftarrow>
          (if ntohs (of_le query_type) = 1 then MakeARecord s res n query_dom
           else if ntohs (of_le query_type) = 12 then MakePTRRecord s res n query_dom
           else Some (0, res, s));
        Some (req_size + int len, res', s')
      })"

definition GetA :: "dns_server \<Rightarrow> int \<Rightarrow> cbuf \<Rightarrow> (int \<times> cbuf \<times> dns_server) option" where
  "GetA s req_size req_buf =
     (if req_size < 0 then None
      else let n = nat req_size in
      do {
        res \<leftarrow> response_start n req_buf;
        query_dom \<leftarrow> get_query_dom req_buf;
        dom \<leftarrow> c_str query_dom 0;
        r1 \<leftarrow> wr_bytes res n (le16 (htons 0xc00c));
        r2 \<leftarrow> wr_bytes r1 (n + 2) (le16 (htons 1));
        r3 \<leftarrow> wr_bytes r2 (n + 4) (le16 (htons 1));
        r4 \<leftarrow> wr_bytes r3 (n + 6) (le32 (ucast (htons 1111)));
        r5 \<leftarrow> wr_bytes r4 (n + 10) (le16 (htons 0x0004));
        (addr, s') \<leftarrow> GetIp s dom;
        r6 \<leftarrow> wr_bytes r5 (n + 12) (le32 (htonl addr));
        Some (req_size + 16, r6, s')
      })"

end
