(* ===== verification/DnsResponse.thy ===== *)
theory DnsResponse
  imports DnsServerFacts
begin

text \<open>
  The bytes the DNS server sends. \<open>mark_response\<close> is what it makes of the request's header,
  \<open>a_answer\<close> and \<open>ptr_answer\<close> are the answer records it appends; \<open>dns_query\<close> is a
  well-formed question. The lemmas follow \<open>GetRes\<close> step by step; the last section shows that
  serving requests never changes an answer.
\<close>

section \<open>Reference formats\<close>

definition mark_response :: "byte list \<Rightarrow> byte list" where
  "mark_response h = [h ! 0, h ! 1, h ! 2 OR 0x80, h ! 3, h ! 4, h ! 5, 0, 1] @ drop 8 h"

definition a_answer :: "u32 \<Rightarrow> byte list" where
  "a_answer addr = be16 0xc00c @ be16 1 @ be16 1 @ be32 0 @ be16 4 @ be32 addr"

text \<open>
  The TTL field of a PTR record and of the backup \<open>GetA\<close> holds \<^verbatim>\<open>htons(1111)\<close>, a
  16-bit swap stored in 32 bits: on the wire it is \<open>1111 * 2 ^ 16\<close>.
\<close>

definition ttl_1111 :: "byte list" where
  "ttl_1111 = be32 (1111 * 2 ^ 16)"

definition ptr_answer :: "byte list \<Rightarrow> byte list" where
  "ptr_answer rdata =
     be16 0xc00c @ be16 12 @ be16 1 @ ttl_1111 @ be16 (of_nat (length rdata)) @ rdata"

definition question :: "byte list \<Rightarrow> u16 \<Rightarrow> byte list" where
  "question name qtype = wire name @ 0 # be16 qtype @ be16 1"

text \<open>A request of \<open>size\<close> bytes in the 1024-byte receive buffer, zero behind it.\<close>

definition in_buffer :: "byte list \<Rightarrow> cbuf" where
  "in_buffer req = req @ zeros (buf_size - length req)"

lemma length_question [simp]: "length (question name t) = length name + 6"
  by (simp add: question_def)

lemma length_a_answer [simp]: "length (a_answer addr) = 16"
  by (simp add: a_answer_def)

lemma length_ptr_answer [simp]: "length (ptr_answer rdata) = 12 + length rdata"
  by (simp add: ptr_answer_def ttl_1111_def)

section \<open>Header and question\<close>

lemma wr_bytes_zeros:
  "i = length a \<Longrightarrow> length x \<le> m \<Longrightarrow>
     wr_bytes (a @ zeros m) i x = Some ((a @ x) @ zeros (m - length x))"
  by (simp add: wr_bytes_def)

lemma list_12: "length h = 12 \<Longrightarrow>
  \<exists>a b c d e f g i j k l m. h = [a, b, c, d, e, f, g, i, j, k, l, m]"
  by (simp add: numeral_eq_Suc length_Suc_conv) blast

lemma set_qr: "le16 (of_le [a, b] OR htons 0x8000) = [a OR 0x80, b]"
proof -
  have "of_le [a, b] OR of_le [c, d] = (of_le [a OR c, b OR d] :: u16)" for c d
    by (rule bit_word_eqI) (auto simp: bit_simps of_le.simps)
  from this [of "0x80" "0"] have "of_le [a, b] OR of_le [0x80, 0] = (of_le [a OR 0x80, b] :: u16)"
    by simp
  moreover have "htons 0x8000 = of_le [0x80, 0]"
  proof -
    have lo: "ucast (0x8000 :: u16) = (0 :: byte)" by simp
    have hi: "ucast (drop_bit 8 (0x8000 :: u16)) = (0x80 :: byte)" by simp
    show ?thesis by (simp only: htons_def le16_bytes lo hi rev.simps append.simps)
  qed
  ultimately show ?thesis by (simp add: le_of_le)
qed

lemma le16_htons_1: "le16 (htons 1) = [0, 1]"
proof -
  have "be16 1 = [0, 1]" by (simp add: be16_def le16_bytes)
  then show ?thesis by (simp only: le16_htons)
qed

lemma response_start_bytes:
  assumes h: "length h = 12" and n: "12 + length body \<le> buf_size"
  shows "response_start (12 + length body) (in_buffer (h @ body))
    = Some (mark_response h @ body @ zeros (buf_size - (12 + length body)))"
proof -
  let ?z = "zeros (buf_size - (12 + length body))"
  obtain a b c d e f g i j k l m where hd: "h = [a, b, c, d, e, f, g, i, j, k, l, m]"
    using list_12 [OF h] by blast
  have "rd_bytes (in_buffer (h @ body)) 0 (12 + length body) = Some (h @ body)"
    using h by (simp add: in_buffer_def rd_bytes_def)
  moreover have "wr_bytes (zeros buf_size) 0 (h @ body) = Some (h @ body @ ?z)"
    using wr_bytes_zeros [of 0 "[]" "h @ body" buf_size] n h by simp
  moreover have "rd_bytes (h @ body @ ?z) 2 2 = Some [c, d]"
    using rd_bytes_app [of 2 "[a, b]" 2 "[c, d]"] by (simp add: hd)
  moreover have "wr_bytes (h @ body @ ?z) 2 (le16 (of_le [c, d] OR htons 0x8000))
      = Some ([a, b, c OR 0x80, d, e, f, g, i, j, k, l, m] @ body @ ?z)"
    using wr_bytes_app [of 2 "[a, b]" "[c OR 0x80, d]" "[c, d]"] by (simp add: hd set_qr)
  moreover have "wr_bytes ([a, b, c OR 0x80, d, e, f, g, i, j, k, l, m] @ body @ ?z) 6
      (le16 (htons 1)) = Some ([a, b, c OR 0x80, d, e, f, 0, 1, j, k, l, m] @ body @ ?z)"
    using wr_bytes_app [of 6 "[a, b, c OR 0x80, d, e, f]" "[0, 1]" "[g, i]"]
    by (simp add: le16_htons_1)
  ultimately show ?thesis
    by (simp add: response_start_def hd mark_response_def)
qed

lemma get_query_dom_question:
  assumes h: "length h = 12" and ok: "ok_name name" and len: "length name < buf_size"
  shows "get_query_dom (in_buffer (h @ question name t))
    = Some (name @ zeros (buf_size - length name))"
proof -
  let ?rest = "be16 t @ be16 1 @ zeros (buf_size - length (h @ question name t))"
  have req: "in_buffer (h @ question name t) = h @ wire name @ 0 # ?rest"
    by (simp add: in_buffer_def question_def)
  obtain l where "rd_byte (in_buffer (h @ question name t)) 12 = Some l"
    and "dom_loop (in_buffer (h @ question name t)) 13 (sint l) (zeros buf_size) 0
      = Some (name @ zeros (buf_size - length name))"
    using dom_loop_wire [OF ok less_imp_le [OF len] req] h by auto
  then show ?thesis by (simp add: get_query_dom_def)
qed

lemma c_str_query_dom:
  assumes "ok_name name" and "length name < buf_size"
  shows "c_str (name @ zeros (buf_size - length name)) 0 = Some name"
proof -
  have "zeros (buf_size - length name) = 0 # zeros (buf_size - length name - 1)"
    using assms(2) by (metis Suc_diff_1 zero_less_diff zeros_Suc)
  then show ?thesis using assms(1) by (simp add: c_str_app0 ok_name_def)
qed

lemma query_type_question:
  assumes "length h = 12" and "length (h @ question name t) \<le> buf_size"
  shows "rd_bytes (in_buffer (h @ question name t)) (length (h @ question name t) - 4) 2
    = Some (be16 t)"
  using rd_bytes_app [of _ "h @ wire name @ [0]" 2 "be16 t"
      "be16 1 @ zeros (buf_size - length (h @ question name t))"] assms
  by (simp add: in_buffer_def question_def)

section \<open>Answer records\<close>

lemma le32_ucast_htons: "le32 (ucast (htons w)) = be32 (push_bit 16 (ucast w))"
proof -
  have split: "le32 x = le16 (ucast x) @ le16 (ucast (drop_bit 16 x))" for x :: u32
  proof -
    have "le_bytes 2 (ucast y :: u16) = le_bytes 2 y" for y :: u32
      by (rule nth_equalityI) (auto simp: nth_le_bytes bit_simps intro!: bit_word_eqI)
    then show ?thesis
      unfolding le32_def le16_def using le_bytes_add [of 2 2 x] by simp
  qed
  have z: "ucast (drop_bit 16 (ucast v :: u32)) = (0 :: u16)" for v :: u16
    by (rule bit_word_eqI) (auto simp: bit_simps dest: bit_imp_le_length)
  have z2: "ucast (push_bit 16 (ucast v :: u32)) = (0 :: u16)" for v :: u16
    by (rule bit_word_eqI) (auto simp: bit_simps)
  have i: "ucast (drop_bit 16 (push_bit 16 (ucast v :: u32))) = (v :: u16)" for v
    by (rule bit_word_eqI) (auto simp: bit_simps)
  have u: "ucast (ucast v :: u32) = (v :: u16)" for v
    by (rule bit_word_eqI) (auto simp: bit_simps)
  have le0: "le16 0 = [0, 0]" by (simp add: le16_bytes)
  show ?thesis
    by (simp add: be32_def split z z2 i u le0 le16_htons be16_def)
qed

lemma le32_ttl: "le32 (ucast (htons 0)) = be32 0" "le32 (ucast (htons 1111)) = ttl_1111"
  by (simp_all add: le32_ucast_htons ttl_1111_def push_bit_eq_mult)

lemma MakeARecord_bytes:
  assumes "c_str qd 0 = Some name" and "GetIp s name = Some (addr, s')" and "16 \<le> m"
    and "p = length a"
  shows "MakeARecord s (a @ zeros m) p qd = Some (16, a @ a_answer addr @ zeros (m - 16), s')"
  using assms
  by (simp add: MakeARecord_def wr_bytes_zeros le16_htons le32_htonl le32_ttl a_answer_def
      del: append_assoc)

lemma MakePTRRecord_bytes:
  assumes "c_str qd 0 = Some name"
    and "MakeDomain s (zeros 256) name = Some (of_nat (length rdata), rdata @ rest, s')"
    and "length rdata \<le> 256" and "12 + length rdata \<le> m" and "p = length a"
  shows "MakePTRRecord s (a @ zeros m) p qd
    = Some (12 + length rdata, a @ ptr_answer rdata @ zeros (m - (12 + length rdata)), s')"
proof -
  have u: "unat (of_nat (length rdata) :: u16) = length rdata"
    using assms(3) by (simp add: unat_of_nat)
  show ?thesis
    using assms
    by (simp add: MakePTRRecord_def wr_bytes_zeros le16_htons le32_ttl u rd_bytes_app0
        ptr_answer_def ttl_1111_def del: append_assoc)
qed

lemma wire_no_nul: "ok_name t \<Longrightarrow> 0 \<notin> set (wire t)"
proof -
  assume ok: "ok_name t"
  have "0 \<notin> set (label_wire l)" if "l \<in> set (labels t)" for l
  proof -
    have l: "ok_label l" using ok that by (simp add: ok_name_def list_all_iff)
    have "set l \<subseteq> set (join_labels ls)" if "l \<in> set ls" for ls
      using that by (induction ls rule: join_labels.induct) auto
    then have "set l \<subseteq> set t" using that by (metis join_labels)
    then show ?thesis
      using l ok of_nat_byte_zero [of "length l"]
      by (auto simp: label_wire_def ok_label_def ok_name_def)
  qed
  then show ?thesis by (simp add: wire_def)
qed

lemma MakeDomain_name:
  assumes t: "map_get (ptrMap s) name = t" and ok: "ok_name t" and len: "length t \<le> 254"
  shows "MakeDomain s (zeros 256) name =
    Some (of_nat (length (wire t @ [0])), (wire t @ [0]) @ zeros (254 - length t),
      s\<lparr>ptrMap := map_touch (ptrMap s) name\<rparr>)"
proof -
  have z: "zeros (255 - length t) = 0 # zeros (254 - length t)"
    using len zeros_Suc [of "254 - length t"] by (simp add: Suc_diff_le [symmetric])
  have nul: "takeWhile (\<lambda>x. x \<noteq> 0) t = t"
    using ok by (auto simp: ok_name_def takeWhile_eq_all_conv)
  have "zeros 256 = [0] @ zeros 255"
    using zeros_Suc [of 255] by simp
  then have "wr_bytes (zeros 256) 1 t = Some (0 # t @ zeros (255 - length t))"
    using wr_bytes_zeros [of 1 "[0]" t 255] len by simp
  moreover have "label_loop (0 # t @ zeros (255 - length t)) (1 + length t) 1 0
      = Some (wire t @ zeros (255 - length t))"
    using label_loop_wire [of "[]" 0 t] by simp
  moreover have "c_str (wire t @ zeros (255 - length t)) 0 = Some (wire t)"
    using c_str_app0 [OF wire_no_nul [OF ok]] by (simp add: z)
  ultimately show ?thesis
    using t by (simp add: MakeDomain_def nul z)
qed

lemma MakeDomain_unknown:
  assumes "map_get (ptrMap s) name = []"
  shows "MakeDomain s (zeros 256) name =
    Some (1, [0] @ zeros 255, s\<lparr>ptrMap := map_touch (ptrMap s) name\<rparr>)"
proof -
  have z: "zeros 256 = 0 # zeros 255" using zeros_Suc [of 255] by simp
  have "wr_bytes (zeros 256) 1 [] = Some (zeros 256)"
    by (simp add: wr_bytes_def flip: zeros_add)
  moreover have "label_loop (zeros 256) 1 1 0 = Some (0 # zeros 255)"
    by (subst label_loop.simps) (simp add: wr_byte_def z)
  moreover have "c_str (0 # zeros 255) 0 = Some []"
    using c_str_app0 [of "[]"] by simp
  ultimately show ?thesis using assms by (simp add: MakeDomain_def)
qed

section \<open>The response to a question\<close>

lemma GetRes_A:
  assumes h: "length h = 12" and ok: "ok_name name"
    and room: "length (h @ question name 1) + 16 \<le> buf_size"
    and addr: "GetIp s name = Some (addr, s')"
  shows "GetRes s (int (length (h @ question name 1))) (in_buffer (h @ question name 1)) =
    Some (int (length (h @ question name 1)) + 16,
      mark_response h @ question name 1 @ a_answer addr
        @ zeros (buf_size - (length (h @ question name 1) + 16)), s')"
proof -
  let ?q = "question name 1"
  let ?n = "12 + length ?q"
  have n: "?n \<le> buf_size" and name: "length name < buf_size"
    using room h by (auto simp: buf_size_def)
  have "MakeARecord s ((mark_response h @ ?q) @ zeros (buf_size - ?n)) ?n
      (name @ zeros (buf_size - length name)) =
    Some (16, (mark_response h @ ?q) @ a_answer addr @ zeros (buf_size - ?n - 16), s')"
    using room h
    by (intro MakeARecord_bytes [OF c_str_query_dom [OF ok name] addr])
      (auto simp: mark_response_def)
  then show ?thesis
    using response_start_bytes [OF h n] get_query_dom_question [OF h ok name, of 1]
      query_type_question [OF h, of name 1] n h
    by (simp add: GetRes_def Let_def nat_add_distrib)
qed

lemma GetRes_PTR:
  assumes h: "length h = 12" and ok: "ok_name name"
    and dom: "MakeDomain s (zeros 256) name
      = Some (of_nat (length rdata), rdata @ rest, s')" and rdata: "length rdata \<le> 256"
    and room: "length (h @ question name 12) + (12 + length rdata) \<le> buf_size"
  shows "GetRes s (int (length (h @ question name 12))) (in_buffer (h @ question name 12)) =
    Some (int (length (h @ question name 12)) + int (12 + length rdata),
      mark_response h @ question name 12 @ ptr_answer rdata
        @ zeros (buf_size - (length (h @ question name 12) + (12 + length rdata))), s')"
proof -
  let ?q = "question name 12"
  let ?n = "12 + length ?q"
  have n: "?n \<le> buf_size" and name: "length name < buf_size"
    using room h by (auto simp: buf_size_def)
  have "MakePTRRecord s ((mark_response h @ ?q) @ zeros (buf_size - ?n)) ?n
      (name @ zeros (buf_size - length name)) =
    Some (12 + length rdata, (mark_response h @ ?q) @ ptr_answer rdata
      @ zeros (buf_size - ?n - (12 + length rdata)), s')"
    using room h
    by (intro MakePTRRecord_bytes [OF c_str_query_dom [OF ok name] dom rdata])
      (auto simp: mark_response_def)
  then show ?thesis
    using response_start_bytes [OF h n] get_query_dom_question [OF h ok name, of 12]
      query_type_question [OF h, of name 12] n h
    by (simp add: GetRes_def Let_def nat_add_distrib)
qed

lemma GetRes_other:
  assumes h: "length h = 12" and ok: "ok_name name" and t: "t \<noteq> 1" "t \<noteq> 12"
    and room: "length (h @ question name t) \<le> buf_size"
  shows "GetRes s (int (length (h @ question name t))) (in_buffer (h @ question name t)) =
    Some (int (length (h @ question name t)),
      mark_response h @ question name t @ zeros (buf_size - length (h @ question name t)), s)"
proof -
  let ?n = "12 + length (question name t)"
  have n: "?n \<le> buf_size" and name: "length name < buf_size"
    using room h by (auto simp: buf_size_def)
  show ?thesis
    using response_start_bytes [OF h n] get_query_dom_question [OF h ok name, of t]
      query_type_question [OF h, of name t] n h t
    by (simp add: GetRes_def Let_def nat_add_distrib)
qed

lemma GetA_A:
  assumes h: "length h = 12" and ok: "ok_name name"
    and room: "length (h @ question name t) + 16 \<le> buf_size"
    and addr: "GetIp s name = Some (addr, s')"
  shows "GetA s (int (length (h @ question name t))) (in_buffer (h @ question name t)) =
    Some (int (length (h @ question name t)) + 16,
      mark_response h @ question name t
        @ (be16 0xc00c @ be16 1 @ be16 1 @ ttl_1111 @ be16 4 @ be32 addr)
        @ zeros (buf_size - (length (h @ question name t) + 16)), s')"
proof -
  let ?n = "12 + length (question name t)"
  have n: "?n \<le> buf_size" and name: "length name < buf_size"
    using room h by (auto simp: buf_size_def)
  have l: "length (mark_response h @ question name t) = ?n"
    using h by (simp add: mark_response_def)
  have m: "16 \<le> buf_size - ?n" using room h by simp
  have start: "response_start ?n (in_buffer (h @ question name t))
      = Some ((mark_response h @ question name t) @ zeros (buf_size - ?n))"
    using response_start_bytes [OF h n] by simp
  show ?thesis
    using start get_query_dom_question [OF h ok name, of t]
      c_str_query_dom [OF ok name] addr m h l
    by (simp add: GetA_def Let_def nat_add_distrib wr_bytes_zeros le16_htons le32_ttl le32_htonl
        ttl_1111_def del: append_assoc)
qed

section \<open>Two lifetimes\<close>

lemma wr_bytes_replace:
  assumes "length t = 4" "length t' = 4" "length l = 2" "length a = 4"
  shows "Option.bind (wr_bytes r i t') (\<lambda>r1. Option.bind (wr_bytes r1 (i + 4) l) (\<lambda>r2. wr_bytes r2 (i + 6) a))
    = Option.bind (wr_bytes r i t) (\<lambda>r1. Option.bind (wr_bytes r1 (i + 4) l) (\<lambda>r2.
        Option.bind (wr_bytes r2 (i + 6) a) (\<lambda>r3. wr_bytes r3 i t')))"
proof (cases "i + 10 \<le> length r")
  case True
  have sp: "drop j r = take m (drop j r) @ drop (j + m) r" for j m
    using append_take_drop_id [of m "drop j r"] by (simp add: add.commute)
  define A T L B C where d: "A = take i r" "T = take 4 (drop i r)" "L = take 2 (drop (i + 4) r)"
    "B = take 4 (drop (i + 6) r)" "C = drop (i + 10) r"
  have "i + 4 + 2 = i + 6" "i + 6 + 4 = i + 10" by simp_all
  with sp [of i 4] sp [of "i + 4" 2] sp [of "i + 6" 4]
  have "drop i r = T @ drop (i + 4) r" "drop (i + 4) r = L @ drop (i + 6) r" "drop (i + 6) r = B @ C"
    unfolding d by (simp_all only:)
  moreover have "r = A @ drop i r" unfolding d by simp
  ultimately have "r = A @ T @ L @ B @ C" by simp
  moreover have "length A = i" "length T = 4" "length L = 2" "length B = 4" using True by (simp_all add: d)
  ultimately show ?thesis using assms by (simp add: wr_bytes_def)
next
  case False
  then have n: "wr_bytes b (i + 6) a = None" if "length b = length r" for b
    using that assms(4) by (simp add: wr_bytes_None)
  have "Option.bind (wr_bytes r i x) (\<lambda>r1. Option.bind (wr_bytes r1 (i + 4) l) (\<lambda>r2.
      Option.bind (wr_bytes r2 (i + 6) a) f)) = None" for x and f :: "cbuf \<Rightarrow> cbuf option"
  proof -
    have "Option.bind (wr_bytes r1 (i + 4) l) (\<lambda>r2. Option.bind (wr_bytes r2 (i + 6) a) f) = None"
      if "length r1 = length r" for r1
      using n that wr_bytes_length [of r1 "i + 4" l] by (cases "wr_bytes r1 (i + 4) l") simp_all
    then show ?thesis using wr_bytes_length [of r i x] by (cases "wr_bytes r i x") simp_all
  qed
  from this [of _ Some] this show ?thesis by simp
qed

lemma MakeARecord_ttl:
  "(do {
      dom \<leftarrow> c_str qd 0;
      r1 \<leftarrow> wr_bytes res p (le16 (htons 0xc00c));
      r2 \<leftarrow> wr_bytes r1 (p + 2) (le16 (htons 1));
      r3 \<leftarrow> wr_bytes r2 (p + 4) (le16 (htons 1));
      r4 \<leftarrow> wr_bytes r3 (p + 6) (le32 (ucast (htons 1111)));
      r5 \<leftarrow> wr_bytes r4 (p + 10) (le16 (htons 0x0004));
      (addr, s') \<leftarrow> GetIp s dom;
      r6 \<leftarrow> wr_bytes r5 (p + 12) (le32 (htonl addr));
      Some (int p + 16, r6, s')
    })
    = (case MakeARecord s res p qd of
         None \<Rightarrow> None
       | Some (m, out, s') \<Rightarrow> map_option (\<lambda>out'. (int p + int m, out', s')) (wr_bytes out (p + 6) (le32 (ucast (htons 1111)))))"
proof (cases "c_str qd 0")
  case None
  then show ?thesis by (simp add: MakeARecord_def)
next
  case (Some dom)
  note dom = this
  let ?r = "do { r1 \<leftarrow> wr_bytes res p (le16 (htons 0xc00c)); r2 \<leftarrow> wr_bytes r1 (p + 2) (le16 (htons 1));
    wr_bytes r2 (p + 4) (le16 (htons 1)) }"
  show ?thesis
  proof (cases "GetIp s dom")
    case None
    then show ?thesis using dom by (auto simp: MakeARecord_def split: Option.bind_split option.split)
  next
    case (Some y)
    obtain addr s' where y: "y = (addr, s')" by (cases y)
    show ?thesis
    proof (cases ?r)
      case None
      then show ?thesis using dom by (auto simp: MakeARecord_def split: Option.bind_splits option.split)
    next
      case (Some r3)
      have "length (le32 (ucast (htons 1111))) = 4" by simp
      from wr_bytes_replace [of "le32 (ucast (htons 0))" "le32 (ucast (htons 1111))" "le16 (htons 4)"
          "le32 (htonl addr)" r3 "p + 6"]
      show ?thesis
        using Some dom y \<open>GetIp s dom = Some y\<close>
        by (auto simp: MakeARecord_def add.assoc split: Option.bind_splits option.splits)
          (metis option.simps(9))
    qed
  qed
qed

section \<open>Length bytes with the top bit set\<close>

lemma get_query_dom_pointer:
  assumes "rd_byte req_buf 12 = Some l" and "bit l 7"
  shows "get_query_dom req_buf = None"
proof -
  have "sint l < 0" using assms(2) bit_last_iff [of l] by simp
  then show ?thesis by (simp add: get_query_dom_def assms(1) dom_loop_negative)
qed

lemma GetRes_pointer:
  assumes "rd_byte req_buf 12 = Some l" and "bit l 7"
  shows "GetRes s n req_buf = None"
  using get_query_dom_pointer [OF assms] by (simp add: GetRes_def Let_def split: Option.bind_split)

section \<open>Serving requests keeps the answers\<close>

lemma map_get_touch [simp]: "map_get (map_touch m k) = map_get m"
  by (rule ext) (simp add: map_get_def map_touch_def split: option.split)

lemma dom_map_touch [simp]: "dom (map_touch m k) = insert k (dom m)"
  by (simp add: map_touch_def)

definition same_answers :: "dns_server \<Rightarrow> dns_server \<Rightarrow> bool" where
  "same_answers s s' \<longleftrightarrow>
     map_get (ipMap s') = map_get (ipMap s) \<and> map_get (ptrMap s') = map_get (ptrMap s)
     \<and> dom (ipMap s) \<subseteq> dom (ipMap s') \<and> dom (ptrMap s) \<subseteq> dom (ptrMap s')"

lemma same_answers_refl [simp]: "same_answers s s"
  by (simp add: same_answers_def)

lemma same_answers_trans: "same_answers r s \<Longrightarrow> same_answers s t \<Longrightarrow> same_answers r t"
  unfolding same_answers_def
  by (elim conjE, intro conjI) (simp, simp, erule (1) subset_trans, erule (1) subset_trans)

lemma same_answers_touch:
  "same_answers s (s\<lparr>ip := b, ipMap := map_touch (ipMap s) d\<rparr>)"
  "same_answers s (s\<lparr>ptrMap := map_touch (ptrMap s) d\<rparr>)"
  by (simp_all add: same_answers_def subset_insertI)

lemma GetIp_same: "GetIp s d = Some (a, s') \<Longrightarrow> same_answers s s'"
  by (auto simp: GetIp_def Let_def same_answers_touch split: Option.bind_splits)

lemma MakeDomain_same: "MakeDomain s b d = Some (n, b', s') \<Longrightarrow> same_answers s s'"
  by (auto simp: MakeDomain_def Let_def same_answers_touch split: Option.bind_splits)

lemma MakeARecord_same: "MakeARecord s r p q = Some (n, r', s') \<Longrightarrow> same_answers s s'"
  by (auto simp: MakeARecord_def dest!: GetIp_same split: Option.bind_splits)

lemma MakePTRRecord_same: "MakePTRRecord s r p q = Some (n, r', s') \<Longrightarrow> same_answers s s'"
  by (auto simp: MakePTRRecord_def dest!: MakeDomain_same split: Option.bind_splits)

lemma GetRes_same: "GetRes s n req = Some (len, r, s') \<Longrightarrow> same_answers s s'"
  by (auto simp: GetRes_def Let_def dest!: MakeARecord_same MakePTRRecord_same
      split: Option.bind_splits if_splits)

end
