(* ===== verification/DnsRun.thy ===== *)
theory DnsRun
  imports DnsResponse
begin

text \<open>
  The event loop of \<^verbatim>\<open>W_DnsServer::Run\<close>: one non-blocking UDP socket, armed for reading or
  for writing, one receive and one response buffer, and the address of the last client. What
  \<^verbatim>\<open>recvfrom\<close> returns is an argument of the step. A step relation over events gives the
  runs of the loop; the lemmas show that requests and replies alternate, that every reply goes
  to the client whose request was read last and carries its ID, and which inputs end the loop.
\<close>

section \<open>State and steps\<close>

type_synonym peer = "u32 \<times> u16"

datatype interest = Readable | Writable | Closed

datatype received = Datagram "byte list" peer | RecvFailed bool \<comment> \<open>True: ECONNRESET\<close>

record dns_loop =
  server :: dns_server
  req_buf :: cbuf
  res_buf :: cbuf
  n_read :: int
  res_size :: int
  client :: peer
  armed :: interest

text \<open>
  The EPOLLIN branch: the return value of \<^verbatim>\<open>recvfrom\<close>, the buffer, the address, and whether
  the branch closes the socket. Both error branches fall through to \<open>GetRes\<close>.
\<close>

definition receive :: "dns_loop \<Rightarrow> received \<Rightarrow> int \<times> cbuf \<times> peer \<times> bool" where
  "receive l r =
     (case r of
        Datagram d p \<Rightarrow>
          let d' = take buf_size d in (int (length d'), in_buffer d', p, d' = [])
      | RecvFailed reset \<Rightarrow> (-1, zeros buf_size, client l, reset))"

definition on_readable :: "dns_loop \<Rightarrow> received \<Rightarrow> dns_loop option" where
  "on_readable l r =
     (let (n, buf, p, closed) = receive l r in
      case GetRes (server l) n buf of
        None \<Rightarrow> None
      | Some (sz, res, srv) \<Rightarrow>
          Some (l\<lparr>server := srv, req_buf := buf, res_buf := res, n_read := n, res_size := sz,
            client := p, armed := (if closed then Closed else Writable)\<rparr>))"

text \<open>The EPOLLOUT branch: \<^verbatim>\<open>sendto\<close> of \<open>res_size\<close> bytes to the stored address.\<close>

definition on_writable :: "dns_loop \<Rightarrow> ((byte list \<times> peer) \<times> dns_loop) option" where
  "on_writable l =
     (case rd_bytes (res_buf l) 0 (nat (res_size l)) of
        None \<Rightarrow> None
      | Some out \<Rightarrow> Some ((out, client l), l\<lparr>armed := Readable\<rparr>))"

datatype dns_event = Got received | Sent "byte list \<times> peer"

inductive dns_step :: "dns_loop \<Rightarrow> dns_event \<Rightarrow> dns_loop \<Rightarrow> bool" where
  readable: "armed l = Readable \<Longrightarrow> on_readable l r = Some l' \<Longrightarrow> dns_step l (Got r) l'"
| writable: "armed l = Writable \<Longrightarrow> on_writable l = Some (out, l') \<Longrightarrow> dns_step l (Sent out) l'"

inductive_simps dns_step_Got: "dns_step l (Got r) l'"
inductive_simps dns_step_Sent: "dns_step l (Sent out) l'"

inductive dns_run :: "dns_loop \<Rightarrow> dns_event list \<Rightarrow> dns_loop \<Rightarrow> bool" where
  stop: "dns_run l [] l"
| more: "dns_step l e l1 \<Longrightarrow> dns_run l1 es l2 \<Longrightarrow> dns_run l (e # es) l2"

inductive_cases dns_run_NilE: "dns_run l [] l'"
inductive_cases dns_run_ConsE: "dns_run l (e # es) l'"

section \<open>Errors of recvfrom\<close>

lemma response_start_size: "response_start n b = Some r \<Longrightarrow> n \<le> length b \<and> length r = buf_size"
  by (auto simp: response_start_def rd_bytes_def dest!: wr_bytes_length
      split: Option.bind_splits if_splits)

lemma GetRes_short: "m < 4 \<Longrightarrow> GetRes s m b = None"
  by (auto simp: GetRes_def Let_def split: Option.bind_split)

lemma on_readable_RecvFailed: "on_readable l (RecvFailed e) = None"
  by (simp add: on_readable_def receive_def GetRes_short)

lemma on_readable_empty: "on_readable l (Datagram [] p) = None"
  by (simp add: on_readable_def receive_def GetRes_short)

section \<open>Replies carry the ID of their request\<close>

lemma wr_bytes_frame:
  "wr_bytes b i xs = Some b' \<Longrightarrow> length b' = length b \<and> (\<forall>k \<le> i. take k b' = take k b)"
  by (auto simp: wr_bytes_def min_def split: if_splits)

lemma MakeARecord_frame:
  "MakeARecord s r p q = Some (len, r', s') \<Longrightarrow>
     length r' = length r \<and> (\<forall>k \<le> p. take k r' = take k r)"
  by (auto simp: MakeARecord_def dest!: wr_bytes_frame split: Option.bind_splits)

lemma MakePTRRecord_frame:
  "MakePTRRecord s r p q = Some (len, r', s') \<Longrightarrow>
     length r' = length r \<and> (\<forall>k \<le> p. take k r' = take k r)"
  by (auto simp: MakePTRRecord_def dest!: wr_bytes_frame split: Option.bind_splits)

lemma response_start_prefix:
  assumes "response_start n b = Some r" and "2 \<le> n"
  shows "take 2 r = take 2 b"
proof -
  from assms(1) obtain r1 r2 where req: "n \<le> length b"
    and r1: "wr_bytes (zeros buf_size) 0 (take n b) = Some r1"
    and r2: "wr_bytes r1 2 (le16 (of_le (take 2 (drop 2 r1)) OR htons 0x8000)) = Some r2"
    and r: "wr_bytes r2 6 (le16 (htons 1)) = Some r"
    by (auto simp: response_start_def rd_bytes_def split: Option.bind_splits if_splits)
  have "take 2 r = take 2 r1"
    using wr_bytes_frame [OF r] wr_bytes_frame [OF r2] by simp
  also have "\<dots> = take 2 b"
    using r1 req assms(2) by (auto simp: wr_bytes_def min_def split: if_splits)
  finally show ?thesis .
qed

lemma GetRes_prefix:
  assumes "GetRes s m b = Some (len, r, s')"
  shows "take 2 r = take 2 b \<and> m \<le> len \<and> 4 \<le> m \<and> length r = buf_size"
proof -
  obtain n where m: "m = int n" "4 \<le> n"
    using assms GetRes_short [of m s b] by (metis nat_int_comparison(3) not_less not_None_eq
        of_nat_numeral zero_le_numeral order_trans int_nat_eq nat_0_le of_nat_le_iff)
  then obtain r0 q l s1 where r0: "response_start n b = Some r0"
    and l: "(l, r, s1) = (0, r0, s) \<or> MakeARecord s r0 n q = Some (l, r, s1)
      \<or> MakePTRRecord s r0 n q = Some (l, r, s1)" and len: "len = m + int l"
    using assms by (auto simp: GetRes_def Let_def split: Option.bind_splits if_splits)
  have "take 2 r = take 2 r0 \<and> length r = length r0"
    using l m by (auto dest!: MakeARecord_frame MakePTRRecord_frame)
  then show ?thesis
    using response_start_prefix [OF r0] response_start_size [OF r0] m len by simp
qed

lemma on_readable_Datagram:
  assumes "on_readable l (Datagram d p) = Some l'"
  shows "client l' = p \<and> armed l' = Writable \<and> take 2 (res_buf l') = take 2 d
    \<and> 4 \<le> res_size l' \<and> same_answers (server l) (server l')"
proof -
  let ?d = "take buf_size d"
  obtain sz res srv where g: "GetRes (server l) (int (length ?d)) (in_buffer ?d) = Some (sz, res, srv)"
    and l': "l' = l\<lparr>server := srv, req_buf := in_buffer ?d, res_buf := res,
        n_read := int (length ?d), res_size := sz, client := p,
        armed := (if ?d = [] then Closed else Writable)\<rparr>"
    using assms by (auto simp: on_readable_def receive_def Let_def split: option.splits)
  note f = GetRes_prefix [OF g]
  then have four: "4 \<le> length ?d" by simp
  then have "take 2 (in_buffer ?d) = take 2 d"
    by (simp add: in_buffer_def min_def buf_size_def)
  then show ?thesis
    using f l' four GetRes_same [OF g] by auto
qed

lemma on_writable_Sent:
  assumes "on_writable l = Some ((out, q), l')" and "4 \<le> res_size l"
  shows "q = client l \<and> armed l' = Readable \<and> server l' = server l
    \<and> take 2 out = take 2 (res_buf l)"
  using assms by (auto simp: on_writable_def rd_bytes_def min_def split: option.splits if_splits)

fun matched :: "dns_event list \<Rightarrow> bool" where
  "matched [] = True"
| "matched [Got (Datagram d p)] = True"
| "matched (Got (Datagram d p) # Sent (out, q) # es) =
     (q = p \<and> take 2 out = take 2 d \<and> matched es)"
| "matched es = False"

definition reply_pending :: "dns_loop \<Rightarrow> dns_event list \<Rightarrow> bool" where
  "reply_pending l es \<longleftrightarrow>
     es = [] \<or> (\<exists>out es'. es = Sent (out, client l) # es' \<and> take 2 out = take 2 (res_buf l)
       \<and> matched es')"

lemma dns_run_matched_gen:
  "dns_run l es l' \<Longrightarrow>
     (armed l = Readable \<longrightarrow> matched es)
     \<and> (armed l = Writable \<longrightarrow> 4 \<le> res_size l \<longrightarrow> reply_pending l es)"
proof (induction rule: dns_run.induct)
  case (stop l)
  then show ?case by (simp add: reply_pending_def)
next
  case (more l e l1 es l2)
  from more.hyps(1) show ?case
  proof (cases rule: dns_step.cases)
    case (readable r)
    then obtain d p where r: "r = Datagram d p"
      by (cases r) (auto simp: on_readable_RecvFailed)
    have step: "client l1 = p" "armed l1 = Writable" "take 2 (res_buf l1) = take 2 d"
      "4 \<le> res_size l1"
      using on_readable_Datagram [of l d p l1] readable r by auto
    then show ?thesis
      using more.IH readable r by (auto simp: reply_pending_def)
  next
    case (writable out)
    obtain o' q where out: "out = (o', q)" by (cases out)
    show ?thesis
      using more.IH writable out on_writable_Sent [of l o' q l1]
      by (auto simp: reply_pending_def)
  qed
qed

lemma dns_run_same_answers: "dns_run l es l' \<Longrightarrow> same_answers (server l) (server l')"
proof (induction rule: dns_run.induct)
  case (more l e l1 es l2)
  have "same_answers (server l) (server l1)"
    using more.hyps(1)
  proof (cases rule: dns_step.cases)
    case (readable r)
    then show ?thesis
      using on_readable_Datagram
      by (cases r) (fastforce simp: on_readable_RecvFailed)+
  next
    case (writable out)
    then show ?thesis by (auto simp: on_writable_def split: option.splits)
  qed
  then show ?case using more.IH by (rule same_answers_trans)
qed simp

text \<open>A whole exchange: the datagram is read, the reply is sent.\<close>

lemma dns_exchange_run:
  assumes "armed l = Readable" and "d \<noteq> []" and "length d \<le> buf_size"
    and "GetRes (server l) (int (length d)) (in_buffer d) = Some (sz, res, srv)"
    and "0 \<le> sz" and "rd_bytes res 0 (nat sz) = Some out"
  shows "\<exists>l'. dns_run l [Got (Datagram d p), Sent (out, p)] l' \<and> armed l' = Readable
    \<and> server l' = srv"
proof -
  let ?l1 = "l\<lparr>server := srv, req_buf := in_buffer d, res_buf := res,
      n_read := int (length d), res_size := sz, client := p, armed := Writable\<rparr>"
  have "on_readable l (Datagram d p) = Some ?l1"
    using assms by (simp add: on_readable_def receive_def)
  then have "dns_step l (Got (Datagram d p)) ?l1"
    using assms(1) by (simp add: dns_step_Got)
  moreover have "dns_step ?l1 (Sent (out, p)) (?l1\<lparr>armed := Readable\<rparr>)"
    using assms(6) by (simp add: dns_step_Sent on_writable_def)
  ultimately have "dns_run l [Got (Datagram d p), Sent (out, p)] (?l1\<lparr>armed := Readable\<rparr>)"
    by (blast intro: dns_run.intros)
  then show ?thesis by force
qed

end
