(* ===== verification/DnsClient.thy ===== *)
theory DnsClient
  imports DnsRun
begin

text \<open>
  The DNS client (\<^verbatim>\<open>dns_server/w_dnsclient.cpp\<close>) and the configuration it shares with the
  server (\<^verbatim>\<open>dns_server/w_dns_conf.cpp\<close>). \<open>lookup_request\<close> is \<^verbatim>\<open>Lookup\<close> up to
  \<^verbatim>\<open>sendto\<close>, \<open>lookup_reply\<close> the part after \<^verbatim>\<open>recvfrom\<close>. The lemmas show that the
  request is a well-formed question, and the exchange with the server end to end.
\<close>

section \<open>Configuration\<close>

record dns_conf =
  conf_ip :: "byte list"
  port :: int
  isInit :: bool

definition init_conf :: dns_conf where
  "init_conf = \<lparr>conf_ip = [], port = 0, isInit = False\<rparr>"

text \<open>
  The value \<^verbatim>\<open>operator>>\<close> stores in an int when it fails: 0 without digits, the nearest
  limit out of range.
\<close>

definition failed_int :: "byte list \<Rightarrow> int \<Rightarrow> int" where
  "failed_int s old =
     (let (neg, t) = sign_split (skip_ws s) in
      if skip_ws s = [] then old
      else if takeWhile is_digit t = [] then 0
      else if neg then - (2 ^ 31) else 2 ^ 31 - 1)"

text \<open>\<^verbatim>\<open>while (fin >> name)\<close>; \<^verbatim>\<open>fin >> ip\<close> overflows \<^verbatim>\<open>char ip[256]\<close> on a longer word.\<close>

function conf_loop :: "byte list \<Rightarrow> dns_conf \<Rightarrow> dns_conf option" where
  "conf_loop s c =
     (case get_token s of
        None \<Rightarrow> Some c
      | Some (name, r) \<Rightarrow>
          if name = ascii ''ip'' then
            (case get_token r of
               None \<Rightarrow> Some c
             | Some (v, r') \<Rightarrow>
                 if length v < 256 then conf_loop r' (c\<lparr>conf_ip := v\<rparr>) else None)
          else if name = ascii ''port'' then
            (case get_int r of
               None \<Rightarrow> Some (c\<lparr>port := failed_int r (port c)\<rparr>)
             | Some (v, r') \<Rightarrow> conf_loop r' (c\<lparr>port := v\<rparr>))
          else conf_loop r c)"
  by pat_completeness auto
termination
  by (relation "measure (\<lambda>(s, c). length s)")
    (auto dest!: get_token_length get_int_length)

declare conf_loop.simps [simp del]

definition Init :: "byte list option \<Rightarrow> dns_conf \<Rightarrow> (bool \<times> dns_conf) option" where
  "Init file c =
     (case file of
        None \<Rightarrow> Some (False, c)
      | Some txt \<Rightarrow> map_option (\<lambda>c'. (True, c')) (conf_loop txt c))"

definition conf_ready :: "byte list option \<Rightarrow> dns_conf \<Rightarrow> dns_conf option" where
  "conf_ready file c =
     (if isInit c then Some c
      else map_option (\<lambda>(ok, c'). c'\<lparr>isInit := ok\<rparr>) (Init file c))"

definition GetConfIp :: "byte list option \<Rightarrow> dns_conf \<Rightarrow> (byte list \<times> dns_conf) option" where
  "GetConfIp file c = map_option (\<lambda>c'. (conf_ip c', c')) (conf_ready file c)"

definition GetPort :: "byte list option \<Rightarrow> dns_conf \<Rightarrow> (int \<times> dns_conf) option" where
  "GetPort file c = map_option (\<lambda>c'. (port c', c')) (conf_ready file c)"

section \<open>The request\<close>

definition lookup_request :: "byte list \<Rightarrow> (cbuf \<times> nat) option" where
  "lookup_request argv =
     do {
       b1 \<leftarrow> wr_bytes (zeros buf_size) 0 (le16 1);
       b2 \<leftarrow> wr_bytes b1 2 (le16 (htons 0x0100));
       b3 \<leftarrow> wr_bytes b2 4 (le16 (htons 1));
       b4 \<leftarrow> wr_bytes b3 6 (le16 (htons 0));
       b5 \<leftarrow> wr_bytes b4 8 (le16 (htons 0));
       b6 \<leftarrow> wr_bytes b5 10 (le16 (htons 0));
       b7 \<leftarrow> wr_bytes b6 13 (argv @ [0]);
       b8 \<leftarrow> label_loop b7 (13 + length argv) 13 0;
       b9 \<leftarrow> wr_bytes b8 (14 + length argv + 2) (le16 (htons 1));
       b10 \<leftarrow> wr_bytes b9 (14 + length argv) (le16 (htons 1));
       len \<leftarrow> Some (12 + 4 + length argv + 2);
       _ \<leftarrow> rd_bytes b10 0 len;
       Some (b10, len)
     }"

section \<open>The reply\<close>

datatype lookup = Failed | Printed "byte list"

text \<open>
  \<open>reply\<close> is \<open>None\<close> when \<^verbatim>\<open>recvfrom\<close> fails (the 5 second timeout); otherwise the
  datagram is copied over the front of \<^verbatim>\<open>buf\<close>. The client prints the last four bytes.
\<close>

definition lookup_reply :: "cbuf \<Rightarrow> byte list option \<Rightarrow> lookup option" where
  "lookup_reply buf reply =
     (case reply of
        None \<Rightarrow> Some Failed
      | Some d \<Rightarrow>
          let d' = take buf_size d; len = length d' in
          do {
            b \<leftarrow> wr_bytes buf 0 d';
            nanswer \<leftarrow> rd_bytes b 6 2;
            if of_le nanswer = (0 :: u16) then Some Failed
            else if len < 4 then None
            else do { addr \<leftarrow> rd_bytes b (len - 4) 4; Some (Printed addr) }
          })"

text \<open>
  \<^verbatim>\<open>Lookup\<close>: \<open>net\<close> stands for the network and the server behind it, which answer the
  datagram sent (\<open>None\<close>: \<^verbatim>\<open>socket\<close>, \<^verbatim>\<open>sendto\<close> or \<^verbatim>\<open>recvfrom\<close> failed).
\<close>

definition Lookup :: "(byte list \<Rightarrow> byte list option) \<Rightarrow> byte list \<Rightarrow> lookup option" where
  "Lookup net argv =
     do {
       (buf, len) \<leftarrow> lookup_request argv;
       lookup_reply buf (net (take len buf))
     }"

section \<open>The request is a question\<close>

definition client_header :: "byte list" where
  "client_header = [1, 0, 1, 0, 0, 1, 0, 0, 0, 0, 0, 0]"

lemma length_client_header [simp]: "length client_header = 12"
  by (simp add: client_header_def)

lemma le16_const:
  "le16 1 = [1, 0]" "le16 (htons 0x0100) = [1, 0]" "le16 (htons 0) = [0, 0]"
proof -
  show "le16 1 = [1, 0]" by (simp add: le16_bytes)
  have "be16 0x0100 = [1, 0]"
  proof -
    have lo: "ucast (0x0100 :: u16) = (0 :: byte)" by simp
    have hi: "ucast (drop_bit 8 (0x0100 :: u16)) = (1 :: byte)" by simp
    show ?thesis by (simp only: be16_def le16_bytes lo hi rev.simps append.simps)
  qed
  then show "le16 (htons 0x0100) = [1, 0]" by (simp only: le16_htons)
  have "be16 0 = [0, 0]" by (simp add: be16_def le16_bytes)
  then show "le16 (htons 0) = [0, 0]" by (simp only: le16_htons)
qed

lemma wr_in_buffer:
  "i = length a \<Longrightarrow> length (a @ x) \<le> buf_size \<Longrightarrow>
     wr_bytes (in_buffer a) i x = Some (in_buffer (a @ x))"
  by (simp add: in_buffer_def wr_bytes_zeros)

lemma lookup_request_bytes:
  assumes len: "length argv + 18 \<le> buf_size"
  shows "lookup_request argv = Some (in_buffer (client_header @ question argv 1), length argv + 18)"
proof -
  let ?k = "buf_size - (length argv + 14)"
  let ?w = "client_header @ wire argv @ [0]"
  define b6 where "b6 = in_buffer client_header"
  have z0: "zeros buf_size = in_buffer []" by (simp add: in_buffer_def)
  have hd: "do { b1 \<leftarrow> wr_bytes (zeros buf_size) 0 (le16 1);
      b2 \<leftarrow> wr_bytes b1 2 (le16 (htons 0x0100)); b3 \<leftarrow> wr_bytes b2 4 (le16 (htons 1));
      b4 \<leftarrow> wr_bytes b3 6 (le16 (htons 0)); b5 \<leftarrow> wr_bytes b4 8 (le16 (htons 0));
      b6 \<leftarrow> wr_bytes b5 10 (le16 (htons 0)); f b6 } = f b6" for f :: "cbuf \<Rightarrow> 'b option"
    using len by (simp add: z0 wr_in_buffer le16_const le16_htons_1 b6_def client_header_def)
  have b6: "b6 = (client_header @ [0]) @ zeros (buf_size - 13)"
    using zeros_Suc [of "buf_size - 13"] len by (simp add: b6_def in_buffer_def Suc_diff_le [symmetric])
  have r7: "wr_bytes b6 13 (argv @ [0]) = Some (client_header @ 0 # argv @ 0 # zeros ?k)"
    using wr_bytes_zeros [of 13 "client_header @ [0]" "argv @ [0]" "buf_size - 13"] len
    by (simp add: b6 add.commute)
  have r8: "label_loop (client_header @ 0 # argv @ 0 # zeros ?k) (13 + length argv) 13 0
      = Some (?w @ zeros ?k)"
    using label_loop_wire [of client_header 0 argv "0 # zeros ?k"] by simp
  have z: "zeros ?k = zeros 2 @ zeros (?k - 2)"
    using len by (intro zeros_split) simp
  have r9: "wr_bytes (?w @ zeros ?k) (14 + length argv + 2) (le16 (htons 1))
      = Some (?w @ zeros 2 @ [0, 1] @ zeros (?k - 4))"
    using wr_bytes_zeros [of _ "?w @ zeros 2" "[0, 1]" "?k - 2"] len
    by (subst z) (simp add: le16_htons_1)
  have r10: "wr_bytes (?w @ zeros 2 @ [0, 1] @ zeros (?k - 4)) (14 + length argv) (le16 (htons 1))
      = Some (?w @ [0, 1] @ [0, 1] @ zeros (?k - 4))"
    using wr_bytes_app [of "14 + length argv" ?w "[0, 1]" "zeros 2"]
    by (simp add: le16_htons_1)
  have be: "be16 1 = [0, 1]" using le16_htons_1 by (simp only: le16_htons)
  have fin: "?w @ [0, 1] @ [0, 1] @ zeros (?k - 4) = in_buffer (client_header @ question argv 1)"
    by (simp add: in_buffer_def question_def be)
  have rd: "rd_bytes (in_buffer (client_header @ question argv 1)) 0 (12 + 4 + length argv + 2)
      = Some (client_header @ question argv 1)"
    using rd_bytes_app0 [of "18 + length argv" "client_header @ question argv 1"]
    by (simp add: in_buffer_def)
  show ?thesis
    by (simp only: lookup_request_def hd r7 r8 r9 r10 fin rd bind.bind_lunit) simp
qed

section \<open>The exchange\<close>

lemma lookup_reply_last:
  assumes "length buf = buf_size" and "length d \<le> buf_size" and "12 \<le> length d"
    and "take 2 (drop 6 d) = [0, 1]"
  shows "lookup_reply buf (Some d) = Some (Printed (drop (length d - 4) d))"
proof -
  have "wr_bytes buf 0 d = Some (d @ drop (length d) buf)"
    using assms by (simp add: wr_bytes_def)
  moreover have "rd_bytes (d @ drop (length d) buf) 6 2 = Some [0, 1]"
    using assms by (simp add: rd_bytes_def)
  moreover have "rd_bytes (d @ drop (length d) buf) (length d - 4) 4
      = Some (drop (length d - 4) d)"
    using assms by (simp add: rd_bytes_def)
  moreover have "(of_le [0, 1] :: u16) \<noteq> 0" by (simp add: of_le.simps)
  ultimately show ?thesis
    using assms by (simp add: lookup_reply_def Let_def)
qed

lemma mark_response_client:
  "mark_response client_header = [1, 0, 0x81, 0, 0, 1, 0, 1, 0, 0, 0, 0]"
  by (simp add: mark_response_def client_header_def)

text \<open>The network of an exchange: one datagram to the server, its reply back.\<close>

definition via_server :: "dns_server \<Rightarrow> byte list \<Rightarrow> byte list option" where
  "via_server s d =
     (case GetRes s (int (length d)) (in_buffer d) of
        None \<Rightarrow> None
      | Some (sz, res, s') \<Rightarrow> rd_bytes res 0 (nat sz))"

lemma via_server_A:
  assumes ok: "ok_name name" and room: "length name + 34 \<le> buf_size"
    and addr: "GetIp s name = Some (addr, s')"
  shows "via_server s (client_header @ question name 1) =
    Some (mark_response client_header @ question name 1 @ a_answer addr)"
proof -
  have "length (client_header @ question name 1) + 16 \<le> buf_size" using room by simp
  note g = GetRes_A [OF length_client_header ok this addr]
  show ?thesis
    using rd_bytes_app0 [of "length name + 34"
        "mark_response client_header @ question name 1 @ a_answer addr"] room
    unfolding via_server_def g
    by (simp add: nat_add_distrib mark_response_client add.commute)
qed

lemma Lookup_via_server:
  assumes ok: "ok_name name" and room: "length name + 34 \<le> buf_size"
    and addr: "GetIp s name = Some (addr, s')"
  shows "Lookup (via_server s) name = Some (Printed (be32 addr))"
proof -
  let ?d = "mark_response client_header @ question name 1 @ a_answer addr"
  have "lookup_request name =
      Some (in_buffer (client_header @ question name 1), length name + 18)"
    using room by (intro lookup_request_bytes) simp
  moreover have "take (length name + 18) (in_buffer (client_header @ question name 1))
      = client_header @ question name 1"
    by (simp add: in_buffer_def)
  moreover have "lookup_reply (in_buffer (client_header @ question name 1)) (Some ?d)
      = Some (Printed (drop (length ?d - 4) ?d))"
    using room
    by (intro lookup_reply_last) (simp_all add: mark_response_client in_buffer_def)
  moreover have "drop (length ?d - 4) ?d = be32 addr"
  proof -
    have "?d = (mark_response client_header @ question name 1
        @ be16 0xc00c @ be16 1 @ be16 1 @ be32 0 @ be16 4) @ be32 addr"
      by (simp add: a_answer_def)
    then show ?thesis by (simp del: append_assoc)
  qed
  ultimately show ?thesis
    by (simp add: Lookup_def via_server_A [OF ok room addr])
qed

end
