(* ===== verification/DnsProps.thy ===== *)
theory DnsProps
  imports DnsClient
begin

text \<open>
  What the DNS service does, over \<open>GetRes\<close>, the event loop and the client: the answer to
  every kind of question, which addresses arrive unchanged, which inputs run into undefined
  behaviour, and what holds along every run of the loop.
\<close>

section \<open>Sample server\<close>

definition sample_server :: dns_server where
  "sample_server = \<lparr>ip = zeros 4, ipMap = [[0x61] \<mapsto> dotted [10, 0, 0, 200]],
     ptrMap = [[0x70] \<mapsto> [0x68]]\<rparr>"

lemma dotted_dots: "count_list (dotted [a, b, c, d]) dot = 3"
proof -
  have "count_list (dec_nat n) dot = 0" for n
    using dec_nat_digits [of n] by (auto simp: count_list_0_iff dot_def is_digit_def)
  then show ?thesis by (simp add: dotted_def)
qed

lemma ok_sample: "ok_name [0x61]" "ok_name [0x70]" "ok_name [0x7a]"
  by (simp_all add: ok_name_def labels_def ok_label_def dot_def)

lemma GetIp_unknown:
  assumes "ipMap s name = None"
  shows "GetIp s name = Some (0, s\<lparr>ip := zeros 4, ipMap := (ipMap s)(name \<mapsto> [])\<rparr>)"
  using assms
  by (simp add: GetIp_def map_get_def map_touch_def wr_byte_def zeros_def numeral_eq_Suc
      ip_word_def)

section \<open>Answers\<close>

text \<open>C2: A query for a configured host is answered with the request's own header marked as a
  response with one answer, the question echoed, and one A record that points back at the name
  and holds the address of \<open>GetIp\<close>; the rest of the 1024 bytes is zero and no other
  name's answer changes.\<close>

theorem a_query_answered:
  assumes "length h = 12" "ok_name name" "length name + 34 \<le> buf_size"
    and "map_get (ipMap s) name = dotted [a, b, c, d]"
  shows "\<exists>s'. GetRes s (int (length name + 18)) (in_buffer (h @ question name 1)) =
      Some (int (length name + 34),
        mark_response h @ question name 1 @ a_answer (ip_word (map of_nat [a, b, c, d]))
          @ zeros (buf_size - (length name + 34)), s')
    \<and> same_answers s s'"
proof -
  have "length (h @ question name 1) + 16 \<le> buf_size" using assms by simp
  note g = GetRes_A [OF assms(1,2) this, unfolded length_append length_question assms(1)]
  obtain s' where s': "GetIp s name = Some (ip_word (map of_nat [a, b, c, d]), s')"
    using GetIp_dotted [OF assms(4)] by (simp add: Let_def)
  then show ?thesis
    using g [OF s'] GetIp_same [OF s'] by (auto simp: algebra_simps)
qed

theorem a_query_answered_witness:
  "\<exists>s'. GetRes sample_server (int (length [0x61 :: byte] + 18))
      (in_buffer (client_header @ question [0x61] 1)) =
      Some (int (length [0x61 :: byte] + 34),
        mark_response client_header @ question [0x61] 1 @ a_answer (ip_word (map of_nat [10, 0, 0, 200]))
          @ zeros (buf_size - (length [0x61 :: byte] + 34)), s')
    \<and> same_answers sample_server s'"
  by (rule a_query_answered)
    (simp_all add: ok_sample buf_size_def sample_server_def map_get_def)

text \<open>C28: On every request of type A, well formed or not, the backup \<open>GetA\<close> does what \<open>GetRes\<close> does,
  undefined behaviour included, except that the lifetime field of the answer is \<^verbatim>\<open>htons(1111)\<close>
  instead of 0.\<close>

theorem getA_equals_getRes:
  assumes "4 \<le> n" "rd_bytes req (n - 4) 2 = Some (be16 1)"
  shows "GetA s (int n) req = (case GetRes s (int n) req of
      None \<Rightarrow> None
    | Some (m, out, s') \<Rightarrow> map_option (\<lambda>out'. (m, out', s')) (wr_bytes out (n + 6) (le32 (ucast (htons 1111)))))"
proof -
  have q: "ntohs (of_le (be16 1)) = (1 :: u16)" by simp
  show ?thesis
  proof (cases "response_start n req")
    case None
    then show ?thesis by (simp add: GetA_def GetRes_def Let_def)
  next
    case (Some res)
    note start = this
    show ?thesis
    proof (cases "get_query_dom req")
      case None
      then show ?thesis using start by (simp add: GetA_def GetRes_def Let_def)
    next
      case (Some qd)
      then show ?thesis
        using start assms q MakeARecord_ttl [of qd res n s]
        by (cases "MakeARecord s res n qd") (auto simp: GetA_def GetRes_def Let_def)
    qed
  qed
qed

theorem getA_equals_getRes_witness:
  "GetA sample_server (int (length [0x61 :: byte] + 18)) (in_buffer (client_header @ question [0x61] 1)) =
    (case GetRes sample_server (int (length [0x61 :: byte] + 18)) (in_buffer (client_header @ question [0x61] 1)) of
      None \<Rightarrow> None
    | Some (m, out, s') \<Rightarrow> map_option (\<lambda>out'. (m, out', s'))
        (wr_bytes out ((length [0x61 :: byte] + 18) + 6) (le32 (ucast (htons 1111)))))"
proof (rule getA_equals_getRes)
  show "4 \<le> length [0x61 :: byte] + 18" by simp
  have "length (client_header @ question [0x61] 1) \<le> buf_size" by (simp add: buf_size_def)
  from query_type_question [OF _ this]
  show "rd_bytes (in_buffer (client_header @ question [0x61] 1)) (length [0x61 :: byte] + 18 - 4) 2 = Some (be16 1)"
    by simp
qed

text \<open>C26: The address that the client prints for a configured host is the configured one exactly
  when its last three octets are below 128: \<^verbatim>\<open>ip[i]\<close> is a signed char, so a larger octet
  borrows from the one before it.\<close>

theorem lookup_address_exact:
  assumes "ok_name name" "length name + 34 \<le> buf_size"
    and "map_get (ipMap s) name = dotted [a, b, c, d]"
    and "a < 256" "b < 256" "c < 256" "d < 256"
  shows "Lookup (via_server s) name = Some (Printed (map of_nat [a, b, c, d]))
    \<longleftrightarrow> b < 128 \<and> c < 128 \<and> d < 128"
proof -
  obtain s' where s': "GetIp s name = Some (ip_word (map of_nat [a, b, c, d]), s')"
    using GetIp_dotted [OF assms(3)] by (simp add: Let_def)
  show ?thesis
    unfolding Lookup_via_server [OF assms(1,2) s'] option.inject lookup.inject
    by (rule ip_word_exact [OF assms(4-7)])
qed

theorem lookup_address_exact_witness:
  "Lookup (via_server sample_server) [0x61] \<noteq> Some (Printed (map of_nat [10, 0, 0, 200]))"
proof -
  have "Lookup (via_server sample_server) [0x61] = Some (Printed (map of_nat [10, 0, 0, 200]))
    \<longleftrightarrow> (0::nat) < 128 \<and> (0::nat) < 128 \<and> (200::nat) < 128"
    by (rule lookup_address_exact)
      (simp_all add: ok_sample buf_size_def sample_server_def map_get_def)
  then show ?thesis by simp
qed

text \<open>A query for a host that is not configured is not refused: the client prints 0.0.0.0, and
  the server keeps the name as a new entry of its map.\<close>

theorem unknown_host_answered:
  assumes "ok_name name" "length name + 34 \<le> buf_size" and "ipMap s name = None"
  shows "Lookup (via_server s) name = Some (Printed [0, 0, 0, 0])
    \<and> (\<exists>sz res s'. GetRes s (int (length name + 18))
          (in_buffer (client_header @ question name 1)) = Some (sz, res, s')
        \<and> dom (ipMap s') = insert name (dom (ipMap s)))"
proof -
  have room: "length (client_header @ question name 1) + 16 \<le> buf_size" using assms by simp
  have "be32 0 = [0, 0, 0, 0]" by (simp add: be32_bytes)
  then show ?thesis
    using Lookup_via_server [OF assms(1,2) GetIp_unknown [OF assms(3)]]
      GetRes_A [OF length_client_header assms(1) room GetIp_unknown [OF assms(3)]]
    by (simp add: algebra_simps)
qed

theorem unknown_host_answered_witness:
  "Lookup (via_server sample_server) [0x7a] = Some (Printed [0, 0, 0, 0])
    \<and> (\<exists>sz res s'. GetRes sample_server (int (length [0x7a :: byte] + 18))
          (in_buffer (client_header @ question [0x7a] 1)) = Some (sz, res, s')
        \<and> dom (ipMap s') = insert [0x7a] (dom (ipMap sample_server)))"
  by (rule unknown_host_answered)
    (simp_all add: ok_sample buf_size_def sample_server_def)

text \<open>C27: A PTR query for a configured key is answered with one PTR record whose data is the wire
  form of the host name, its length in the record's length field; the TTL field is 1111 times
  65536, because a 16-bit swap is stored in a 32-bit field.\<close>

theorem ptr_query_answered:
  assumes "length h = 12" "ok_name key" "ok_name host" "length host \<le> 254"
    and "map_get (ptrMap s) key = host"
    and "length key + length host + 32 \<le> buf_size"
  shows "\<exists>s'. GetRes s (int (length key + 18)) (in_buffer (h @ question key 12)) =
      Some (int (length key + length host + 32),
        mark_response h @ question key 12 @ ptr_answer (wire host @ [0])
          @ zeros (buf_size - (length key + length host + 32)), s')
    \<and> same_answers s s'"
proof -
  have room: "length (h @ question key 12) + (12 + length (wire host @ [0])) \<le> buf_size"
    and rdata: "length (wire host @ [0]) \<le> 256"
    using assms by simp_all
  note md = MakeDomain_name [OF assms(5,3,4)]
  show ?thesis
    using GetRes_PTR [OF assms(1,2) md rdata room] MakeDomain_same [OF md] assms(1)
    by (auto simp: algebra_simps)
qed

theorem ptr_query_answered_witness:
  "\<exists>s'. GetRes sample_server (int (length [0x70 :: byte] + 18))
      (in_buffer (client_header @ question [0x70] 12)) =
      Some (int (length [0x70 :: byte] + length [0x68 :: byte] + 32),
        mark_response client_header @ question [0x70] 12 @ ptr_answer (wire [0x68] @ [0])
          @ zeros (buf_size - (length [0x70 :: byte] + length [0x68 :: byte] + 32)), s')
    \<and> same_answers sample_server s'"
  by (rule ptr_query_answered)
    (simp_all add: ok_sample buf_size_def sample_server_def map_get_def ok_name_def
      labels_def ok_label_def dot_def)

text \<open>Any other query type gets the request back, marked as a response that announces one
  answer record although none follows.\<close>

theorem other_type_no_answer:
  assumes "length h = 12" "ok_name name" "t \<noteq> 1" "t \<noteq> 12" "length name + 18 \<le> buf_size"
  shows "GetRes s (int (length name + 18)) (in_buffer (h @ question name t)) =
      Some (int (length name + 18), in_buffer (mark_response h @ question name t), s)
    \<and> take 2 (drop 6 (mark_response h)) = [0, 1]"
proof -
  have l: "length (h @ question name t) = length name + 18" using assms(1) by simp
  have "length (mark_response h) = 12" using assms(1) by (simp add: mark_response_def)
  then have "in_buffer (mark_response h @ question name t) =
      mark_response h @ question name t @ zeros (buf_size - (length name + 18))"
    by (simp add: in_buffer_def add.commute)
  moreover have "take 2 (drop 6 (mark_response h)) = [0, 1]" by (simp add: mark_response_def)
  ultimately show ?thesis
    using GetRes_other [OF assms(1-4), unfolded l, OF assms(5)] by simp
qed

theorem other_type_no_answer_witness:
  "GetRes sample_server (int (length [0x61 :: byte] + 18))
      (in_buffer (client_header @ question [0x61] 28)) =
      Some (int (length [0x61 :: byte] + 18),
        in_buffer (mark_response client_header @ question [0x61] 28), sample_server)
    \<and> take 2 (drop 6 (mark_response client_header)) = [0, 1]"
  by (rule other_type_no_answer) (simp_all add: ok_sample buf_size_def)

section \<open>Inputs that reach undefined behaviour\<close>

text \<open>\<open>GetIp\<close> writes past \<^verbatim>\<open>ip[4]\<close> exactly when the configured address of the
  queried host has four dots or more, whatever else its text holds.\<close>

theorem GetIp_overflow_iff:
  "GetIp s domain = None \<longleftrightarrow> 4 \<le> count_list (map_get (ipMap s) domain) dot"
  by (rule GetIp_None_dots)

text \<open>A request whose first length byte has its top bit set (a compression pointer, which RFC
  1035 allows) reads as a negative count: \<open>GetRes\<close> runs off its buffers, for every type,
  size and server state.\<close>

theorem compression_pointer_overflow:
  assumes "rd_byte req 12 = Some l" "bit l 7"
  shows "GetRes s n req = None"
  by (rule GetRes_pointer [OF assms])

theorem compression_pointer_overflow_witness:
  "GetRes sample_server 18 (zeros 12 @ 0xc0 # 0x0c # zeros 1010) = None"
  by (rule compression_pointer_overflow [where l = "0xc0"]) (simp_all add: rd_byte_app)

text \<open>A failed \<^verbatim>\<open>recvfrom\<close>, reset or not, and an empty datagram have no further step:
  the error branch goes on into \<open>GetRes\<close> with a size of -1 or 0, a read outside of the request.\<close>

theorem recv_error_stuck:
  "\<not> dns_step l (Got (RecvFailed e)) l' \<and> \<not> dns_step l (Got (Datagram [] p)) l'"
  by (simp add: dns_step_Got on_readable_RecvFailed on_readable_empty)

section \<open>Runs of the loop\<close>

text \<open>C11: From a loop armed for reading, datagrams read and replies sent alternate; every reply goes
  to the address the last datagram came from and starts with that datagram's two ID bytes.\<close>

theorem replies_matched:
  assumes "dns_run l es l'" "armed l = Readable"
  shows "matched es"
  using dns_run_matched_gen [OF assms(1)] assms(2) by simp

definition sample_loop :: dns_loop where
  "sample_loop = \<lparr>server = sample_server, req_buf = zeros buf_size, res_buf = zeros buf_size,
     n_read = 0, res_size = 0, client = (0, 0), armed = Readable\<rparr>"

lemma sample_exchange:
  "\<exists>l'. dns_run sample_loop
     [Got (Datagram (client_header @ question [0x61] 28) (1, 2)),
      Sent (mark_response client_header @ question [0x61] 28, (1, 2))] l'"
proof -
  let ?d = "client_header @ question [0x61] 28"
  have l: "length ?d = 19" "length (mark_response client_header) = 12"
    by (simp_all add: mark_response_client)
  have "GetRes sample_server (int (length ?d)) (in_buffer ?d) =
      Some (int 19, in_buffer (mark_response client_header @ question [0x61] 28), sample_server)"
    using GetRes_other [OF length_client_header ok_sample(1), of 28 sample_server]
    by (simp add: in_buffer_def l buf_size_def)
  then show ?thesis
    using dns_exchange_run [of sample_loop ?d] l
    by (fastforce simp: sample_loop_def buf_size_def in_buffer_def rd_bytes_def
        client_header_def)
qed

theorem replies_matched_witness:
  "matched [Got (Datagram (client_header @ question [0x61] 28) (1, 2)),
      Sent (mark_response client_header @ question [0x61] 28, (1, 2))]"
proof -
  obtain l' where "dns_run sample_loop
     [Got (Datagram (client_header @ question [0x61] 28) (1, 2)),
      Sent (mark_response client_header @ question [0x61] 28, (1, 2))] l'"
    using sample_exchange by blast
  then show ?thesis by (rule replies_matched) (simp add: sample_loop_def)
qed

lemma GetIp_cong:
  "same_answers s t \<Longrightarrow> GetIp t d =
     map_option (\<lambda>(a, u). (a, t\<lparr>ip := ip u, ipMap := map_touch (ipMap t) d\<rparr>)) (GetIp s d)"
  by (auto simp: GetIp_def same_answers_def Let_def split: Option.bind_split)

lemma MakeDomain_cong:
  "same_answers s t \<Longrightarrow> MakeDomain t b d =
     map_option (\<lambda>(n, b, u). (n, b, t\<lparr>ptrMap := map_touch (ptrMap t) d\<rparr>)) (MakeDomain s b d)"
  by (auto simp: MakeDomain_def same_answers_def Let_def split: Option.bind_split)

definition sent_part :: "'a \<times> 'b \<times> 'c \<Rightarrow> 'a \<times> 'b" where
  "sent_part r = (fst r, fst (snd r))"

lemma MakeARecord_cong:
  "same_answers s t \<Longrightarrow>
     map_option sent_part (MakeARecord t r p q) = map_option sent_part (MakeARecord s r p q)"
  by (auto simp: MakeARecord_def GetIp_cong [of s t] sent_part_def split: Option.bind_split)

lemma MakePTRRecord_cong:
  "same_answers s t \<Longrightarrow>
     map_option sent_part (MakePTRRecord t r p q) = map_option sent_part (MakePTRRecord s r p q)"
  by (auto simp: MakePTRRecord_def MakeDomain_cong [of s t] sent_part_def
      split: Option.bind_split)

lemma bind_sent_part:
  assumes "map_option sent_part m = map_option sent_part m'"
  shows "map_option sent_part (Option.bind m (\<lambda>(len, b, u). Some (k + int len, b, u))) =
    map_option sent_part (Option.bind m' (\<lambda>(len, b, u). Some (k + int len, b, u)))"
  using assms by (cases m; cases m') (auto simp: sent_part_def)

lemma GetRes_cong:
  assumes "same_answers s t"
  shows "map_option sent_part (GetRes t n q) = map_option sent_part (GetRes s n q)"
proof -
  have "map_option sent_part (Option.bind a f) = map_option sent_part (Option.bind a g)"
    if "\<And>x. map_option sent_part (f x) = map_option sent_part (g x)"
    for a :: "'x option" and f g :: "'x \<Rightarrow> ('a \<times> 'b \<times> 'c) option"
    using that by (cases a) auto
  note * = this
  show ?thesis
    unfolding GetRes_def Let_def
    by (auto intro!: * bind_sent_part MakeARecord_cong [OF assms] MakePTRRecord_cong [OF assms])
      (simp add: sent_part_def)
qed

text \<open>C12: However many requests the loop serves, its reply to any datagram stays, byte for byte,
  what the configuration files made it at start-up; the two maps only gain keys.\<close>

theorem answers_stable:
  assumes "dns_run l es l'"
  shows "via_server (server l') d = via_server (server l) d
    \<and> dom (ipMap (server l)) \<subseteq> dom (ipMap (server l'))
    \<and> dom (ptrMap (server l)) \<subseteq> dom (ptrMap (server l'))"
proof -
  have same: "same_answers (server l) (server l')" by (rule dns_run_same_answers [OF assms])
  have "via_server (server l) d = via_server (server l') d"
    using GetRes_cong [OF same, of "int (length d)" "in_buffer d"]
    by (auto simp: via_server_def sent_part_def split: option.splits)
  then show ?thesis using same by (simp add: same_answers_def)
qed

theorem answers_stable_witness:
  "\<exists>l'. dns_run sample_loop
     [Got (Datagram (client_header @ question [0x61] 28) (1, 2)),
      Sent (mark_response client_header @ question [0x61] 28, (1, 2))] l'
    \<and> via_server (server l') [] = via_server sample_server []
    \<and> dom (ipMap sample_server) \<subseteq> dom (ipMap (server l'))
    \<and> dom (ptrMap sample_server) \<subseteq> dom (ptrMap (server l'))"
proof -
  obtain l' where r: "dns_run sample_loop
     [Got (Datagram (client_header @ question [0x61] 28) (1, 2)),
      Sent (mark_response client_header @ question [0x61] 28, (1, 2))] l'"
    using sample_exchange by blast
  have "server sample_loop = sample_server" by (simp add: sample_loop_def)
  with answers_stable [OF r, of "[]"] r show ?thesis by metis
qed

end
