(* ===== verification/DnsService.thy ===== *)
theory DnsService
  imports DnsProps
begin

text \<open>
  The DNS programs from their start (\<^verbatim>\<open>w_dnsserver.cpp\<close>, \<^verbatim>\<open>w_server.cpp\<close>, \<^verbatim>\<open>w_client.cpp\<close>): what
  \<^verbatim>\<open>Run\<close> sets up before its loop, with the kernel's answers as arguments, the client program, and
  a session of the two. \<open>None\<close> is undefined behaviour.
\<close>

section \<open>The server's start\<close>

definition SetNonBlocking :: "int \<Rightarrow> int \<Rightarrow> unit outcome" where
  "SetNonBlocking getfl setfl =
     (if getfl < 0 then Exits 1 else if setfl < 0 then Exits 1 else Returns ())"

text \<open>
  The answers to \<^verbatim>\<open>epoll_create\<close>, \<^verbatim>\<open>socket\<close>, the two \<^verbatim>\<open>fcntl\<close>, \<^verbatim>\<open>epoll_ctl\<close> and \<^verbatim>\<open>bind\<close>.
\<close>

record dns_env =
  epoll_fd :: int
  dns_socket :: int
  getfl_res :: int
  setfl_res :: int
  ctl_res :: int
  dns_bind :: int

text \<open>
  \<^verbatim>\<open>Run\<close> up to its loop, for a constructed server: the descriptor, the port it binds (a 16-bit
  number) and the first state of the loop. The socket itself is not checked. \<open>raw\<close> holds the
  variables that are not initialised.
\<close>

definition dns_setup :: "dns_env \<Rightarrow> byte list option \<Rightarrow> dns_conf \<Rightarrow> cbuf \<times> int \<times> int \<Rightarrow> dns_server \<Rightarrow>
    (int \<times> u16 \<times> dns_loop) outcome option" where
  "dns_setup e ip_port c raw s =
     (if epoll_fd e < 0 then Some (Exits 1)
      else (case SetNonBlocking (getfl_res e) (setfl_res e) of
        Exits x \<Rightarrow> Some (Exits x)
      | Returns _ \<Rightarrow>
          if ctl_res e < 0 then Some (Exits 1)
          else do {
            (p, c') \<leftarrow> GetPort ip_port c;
            if dns_bind e < 0 then Some (Exits 1)
            else Some (Returns (dns_socket e, word_of_int p,
              \<lparr>server = s, req_buf = zeros buf_size, res_buf = fst raw, n_read = fst (snd raw),
               res_size = snd (snd raw), client = (0, 0), armed = Readable\<rparr>))
          }))"

text \<open>\<^verbatim>\<open>main\<close> of the server: the constructor reads two files, then \<^verbatim>\<open>Run\<close> starts.\<close>

definition dns_server_main :: "dns_env \<Rightarrow> byte list option \<Rightarrow> byte list option \<Rightarrow> byte list option \<Rightarrow>
    cbuf \<times> int \<times> int \<Rightarrow> (int \<times> u16 \<times> dns_loop) outcome option" where
  "dns_server_main e a_record ptr_record ip_port raw =
     (case W_DnsServer a_record ptr_record of
        None \<Rightarrow> None
      | Some (Exit x) \<Rightarrow> Some (Exits x)
      | Some (Started s) \<Rightarrow> dns_setup e ip_port init_conf raw s)"

text \<open>\<^verbatim>\<open>WriteFile\<close>: switched off by the constant \<^verbatim>\<open>__write_to_file\<close>.\<close>

definition write_to_file :: bool where
  "write_to_file = False"

definition WriteFile :: "bool \<Rightarrow> byte list \<Rightarrow> bool \<times> byte list option" where
  "WriteFile opens buf =
     (if write_to_file then (if \<not> opens then (False, None) else (True, Some buf)) else (True, None))"

section \<open>The client program\<close>

definition default_name :: "byte list" where
  "default_name = ascii ''www.qq.com''"

definition Lookup_default :: "(byte list \<Rightarrow> byte list option) \<Rightarrow> lookup option" where
  "Lookup_default net = Lookup net default_name"

text \<open>\<open>host\<close> is the result of \<^verbatim>\<open>gethostbyname\<close>; without one the program ends with success.\<close>

definition GetHostByNameLookup :: "byte list option \<Rightarrow> bool outcome" where
  "GetHostByNameLookup host = (case host of None \<Rightarrow> Exits 0 | Some _ \<Rightarrow> Returns True)"

fun lookups :: "(byte list \<Rightarrow> byte list option) \<Rightarrow> byte list list \<Rightarrow> lookup list option" where
  "lookups net [] = Some []"
| "lookups net (a # as) =
     (case Lookup net a of None \<Rightarrow> None | Some r \<Rightarrow> map_option ((#) r) (lookups net as))"

text \<open>\<^verbatim>\<open>main\<close>: every argument is looked up, without arguments one fixed name; the result of
  \<open>Lookup\<close> is not looked at.\<close>

definition dns_client_main :: "(byte list \<Rightarrow> byte list option) \<Rightarrow> byte list list \<Rightarrow> (int \<times> lookup list) option" where
  "dns_client_main net argv =
     map_option (\<lambda>rs. (0, rs))
       (if length argv = 1 then map_option (\<lambda>r. [r]) (Lookup_default net) else lookups net (tl argv))"

section \<open>What the files say\<close>

definition file_map :: "byte list \<Rightarrow> byte list \<rightharpoonup> byte list" where
  "file_map txt = map_of (rev (word_pairs txt))"

lemma fold_upd: "fold (\<lambda>(k, v) m. m(k \<mapsto> v)) ps m = m ++ map_of (rev ps)"
  by (induction ps arbitrary: m) (auto simp: map_add_def fun_eq_iff split: option.split)

lemma server_main_loop:
  assumes "dns_server_main e a_record ptr_record ip_port raw = Some (Returns (fd, p, l))"
  shows "armed l = Readable \<and> (\<exists>txt. a_record = Some txt \<and> ipMap (server l) = file_map txt)"
proof -
  obtain s where s: "W_DnsServer a_record ptr_record = Some (Started s)"
    "dns_setup e ip_port init_conf raw s = Some (Returns (fd, p, l))"
    using assms by (auto simp: dns_server_main_def split: option.splits startup.splits)
  have "server l = s \<and> armed l = Readable"
    using s(2) by (auto simp: dns_setup_def split: if_splits outcome.splits Option.bind_splits)
  moreover obtain t where "a_record = Some t" "ipMap s = file_map t"
    using s(1) by (auto simp: W_DnsServer_def InitIpMap_def InitPtrMap_def fold_upd file_map_def
        split: option.splits if_splits)
  ultimately show ?thesis by blast
qed

section \<open>A session\<close>

lemma via_server_same: "same_answers s t \<Longrightarrow> via_server t d = via_server s d"
  using GetRes_cong [of s t "int (length d)" "in_buffer d"]
  by (auto simp: via_server_def sent_part_def split: option.splits)

lemma via_server_exchange:
  assumes "armed l = Readable" "d \<noteq> []" "length d \<le> buf_size" "via_server (server l) d = Some out"
  shows "\<exists>l'. dns_run l [Got (Datagram d p), Sent (out, p)] l' \<and> armed l' = Readable"
proof -
  obtain sz res srv where g: "GetRes (server l) (int (length d)) (in_buffer d) = Some (sz, res, srv)"
    "rd_bytes res 0 (nat sz) = Some out"
    using assms(4) by (auto simp: via_server_def split: option.splits)
  have "0 \<le> sz" using GetRes_prefix [OF g(1)] by linarith
  then show ?thesis using dns_exchange_run [OF assms(1-3) g(1) _ g(2)] by blast
qed

lemma dns_run_append: "dns_run l es l1 \<Longrightarrow> dns_run l1 es' l2 \<Longrightarrow> dns_run l (es @ es') l2"
  by (induction rule: dns_run.induct) (auto intro: dns_run.more)

text \<open>The events of the loop when a client at \<open>p\<close> asks for some names.\<close>

fun session :: "(byte list \<Rightarrow> byte list option) \<Rightarrow> peer \<Rightarrow> byte list list \<Rightarrow> dns_event list" where
  "session net p [] = []"
| "session net p (n # ns) =
     (let q = client_header @ question n 1
      in Got (Datagram q p) # Sent (the (net q), p) # session net p ns)"

definition good_name :: "dns_server \<Rightarrow> byte list \<Rightarrow> bool" where
  "good_name s n \<longleftrightarrow> ok_name n \<and> length n + 34 \<le> buf_size
     \<and> (\<exists>a b c d. map_get (ipMap s) n = dotted [a, b, c, d] \<and> a < 256 \<and> b < 128 \<and> c < 128 \<and> d < 128)"

lemma configured_lookup:
  assumes "ok_name n" "length n + 34 \<le> buf_size" "map_get (ipMap s) n = dotted [a, b, c, d]"
    and "a < 256" "b < 128" "c < 128" "d < 128"
  shows "Lookup (via_server s) n = Some (Printed (map of_nat [a, b, c, d]))
    \<and> via_server s (client_header @ question n 1) \<noteq> None"
proof -
  obtain s' where s': "GetIp s n = Some (ip_word (map of_nat [a, b, c, d]), s')"
    using GetIp_dotted [OF assms(3)] by (simp add: Let_def)
  have "be32 (ip_word (map of_nat [a, b, c, d])) = map of_nat [a, b, c, d]"
    using ip_word_exact [of a b c d] assms(4-7) by simp
  then show ?thesis
    using Lookup_via_server [OF assms(1,2) s'] via_server_A [OF assms(1,2) s'] by simp
qed

lemma session_run:
  assumes "\<forall>n \<in> set ns. good_name (server l) n" "armed l = Readable"
  shows "\<exists>l'. dns_run l (session (via_server (server l)) p ns) l' \<and> armed l' = Readable"
  using assms
proof (induction ns arbitrary: l)
  case Nil
  then show ?case by (auto intro: dns_run.stop)
next
  case (Cons n ns)
  let ?q = "client_header @ question n 1"
  have g: "good_name (server l) n" using Cons.prems(1) by simp
  then obtain a b c d where "ok_name n" "length n + 34 \<le> buf_size"
    "map_get (ipMap (server l)) n = dotted [a, b, c, d]" "a < 256" "b < 128" "c < 128" "d < 128"
    by (auto simp: good_name_def)
  then obtain out where out: "via_server (server l) ?q = Some out"
    using configured_lookup [of n "server l" a b c d] by blast
  have "length ?q \<le> buf_size" using g by (simp add: good_name_def)
  moreover have "?q \<noteq> []" by (simp add: client_header_def)
  ultimately obtain l1 where l1: "dns_run l [Got (Datagram ?q p), Sent (out, p)] l1" "armed l1 = Readable"
    using via_server_exchange [OF Cons.prems(2) _ _ out] by blast
  have same: "same_answers (server l) (server l1)" by (rule dns_run_same_answers [OF l1(1)])
  have "via_server (server l1) = via_server (server l)" using via_server_same [OF same] by blast
  moreover have "\<forall>m \<in> set ns. good_name (server l1) m"
    using Cons.prems(1) same by (simp add: good_name_def same_answers_def)
  ultimately obtain l' where "dns_run l1 (session (via_server (server l)) p ns) l'" "armed l' = Readable"
    using Cons.IH [OF _ l1(2)] by auto
  then show ?case using dns_run_append [OF l1(1)] out by (fastforce simp: Let_def)
qed

lemma lookups_all: "\<forall>n \<in> set ns. Lookup net n = Some (f n) \<Longrightarrow> lookups net ns = Some (map f ns)"
  by (induction ns) simp_all


definition example_file :: "byte list" where
  "example_file = ascii ''a 10.0.0.1'' @ [0x0a] @ ascii ''b 10.0.0.2'' @ [0x0a]"

definition example_env :: dns_env where
  "example_env = \<lparr>epoll_fd = 3, dns_socket = 4, getfl_res = 2, setfl_res = 0, ctl_res = 0, dns_bind = 0\<rparr>"

lemma example_pairs: "word_pairs example_file = [([0x61], ascii ''10.0.0.1''), ([0x62], ascii ''10.0.0.2'')]"
  by code_simp

lemma example_map: "file_map example_file = [[0x62] \<mapsto> ascii ''10.0.0.2'', [0x61] \<mapsto> ascii ''10.0.0.1'']"
  by (simp add: file_map_def example_pairs fun_upd_twist)

lemma example_dotted: "ascii ''10.0.0.1'' = dotted [10, 0, 0, 1]" "ascii ''10.0.0.2'' = dotted [10, 0, 0, 2]"
  by code_simp+

lemma example_main:
  "dns_server_main example_env (Some example_file) (Some []) None (zeros buf_size, 0, 0)
     = Some (Returns (4, 0, \<lparr>server = \<lparr>ip = zeros 4, ipMap = file_map example_file, ptrMap = Map.empty\<rparr>,
         req_buf = zeros buf_size, res_buf = zeros buf_size, n_read = 0, res_size = 0, client = (0, 0),
         armed = Readable\<rparr>))"
proof -
  have e: "word_pairs [] = []" by code_simp
  show ?thesis
    by (simp add: dns_server_main_def W_DnsServer_def InitIpMap_def InitPtrMap_def e fold_upd file_map_def
        dns_setup_def example_env_def SetNonBlocking_def GetPort_def conf_ready_def Init_def init_conf_def)
qed


end
