(* ===== verification/UdpEcho.thy ===== *)
theory UdpEcho
  imports CText
begin

text \<open>
  The UDP echo pair (\<^verbatim>\<open>dns_server/w_udpserver.cpp\<close>, \<^verbatim>\<open>w_udpclient.cpp\<close>). The server keeps one
  buffer of ten bytes, cleared only once, and the last sender. \<open>None\<close> is undefined behaviour.
\<close>

section \<open>The server's loop\<close>

definition udp_buf_size :: nat where
  "udp_buf_size = 10"

datatype udp_armed = ArmedIn | ArmedOut

record udp_loop =
  udp_line :: cbuf
  udp_client :: nat
  udp_armed :: udp_armed
  udp_open :: bool

definition udp_start :: udp_loop where
  "udp_start = \<lparr>udp_line = zeros udp_buf_size, udp_client = 0, udp_armed = ArmedIn, udp_open = True\<rparr>"

text \<open>What \<^verbatim>\<open>recvfrom\<close> returns; a datagram is cut to the buffer.\<close>

datatype udp_recv = Datagram nat "byte list" | RecvReset | RecvError

text \<open>
  A datagram of no bytes and a reset close the socket; in every case the loop goes on to print
  the buffer as a string and to wait for writing.
\<close>

definition udp_readable :: "udp_loop \<Rightarrow> udp_recv \<Rightarrow> udp_loop option" where
  "udp_readable l r =
     (let l1 = (case r of
          RecvReset \<Rightarrow> l\<lparr>udp_open := False\<rparr>
        | RecvError \<Rightarrow> l
        | Datagram who d \<Rightarrow>
            (let g = take udp_buf_size d in
             l\<lparr>udp_line := g @ drop (length g) (udp_line l), udp_client := who,
               udp_open := udp_open l \<and> g \<noteq> []\<rparr>))
      in map_option (\<lambda>s. l1\<lparr>udp_armed := ArmedOut\<rparr>) (c_str (udp_line l1) 0))"

text \<open>
  The reply is \<open>strlen(buf)\<close> bytes of \<^verbatim>\<open>line\<close>, where \<^verbatim>\<open>buf\<close> is \<^verbatim>\<open>"ACK:"\<close> and \<^verbatim>\<open>line\<close>. The
  \<^verbatim>\<open>write\<close> before it fails on an unconnected socket.
\<close>

definition udp_writable :: "udp_loop \<Rightarrow> (udp_loop \<times> nat \<times> byte list) option" where
  "udp_writable l =
     do {
       s \<leftarrow> c_str (udp_line l) 0;
       d \<leftarrow> rd_bytes (udp_line l) 0 (length (ascii ''ACK:'' @ s));
       Some (l\<lparr>udp_armed := ArmedIn\<rparr>, udp_client l, d)
     }"

datatype udp_event = UdpReadable udp_recv | UdpWritable

text \<open>A closed socket has no events.\<close>

definition udp_step :: "udp_loop \<Rightarrow> udp_event \<Rightarrow> (udp_loop \<times> (nat \<times> byte list) list) option" where
  "udp_step l e =
     (if \<not> udp_open l then Some (l, [])
      else
        (case e of
           UdpReadable r \<Rightarrow>
             if udp_armed l = ArmedIn then map_option (\<lambda>l'. (l', [])) (udp_readable l r) else Some (l, [])
         | UdpWritable \<Rightarrow>
             if udp_armed l = ArmedOut then map_option (\<lambda>(l', out). (l', [out])) (udp_writable l)
             else Some (l, [])))"

fun udp_run :: "udp_loop \<Rightarrow> udp_event list \<Rightarrow> (udp_loop \<times> (nat \<times> byte list) list) option" where
  "udp_run l [] = Some (l, [])"
| "udp_run l (e # es) =
     (case udp_step l e of
        None \<Rightarrow> None
      | Some (l1, out) \<Rightarrow>
          (case udp_run l1 es of None \<Rightarrow> None | Some (l2, outs) \<Rightarrow> Some (l2, out @ outs)))"

section \<open>The client\<close>

text \<open>A word from the keyboard is sent as it is; the last byte of the reply is overwritten.\<close>

definition udp_request :: "byte list \<Rightarrow> byte list option" where
  "udp_request word = (if length word < 1024 then Some word else None)"

definition udp_prints :: "byte list \<Rightarrow> byte list option" where
  "udp_prints reply =
     (let g = take 1024 reply in
      do {
        b \<leftarrow> (if g = [] then None else wr_byte (g @ zeros (1024 - length g)) (length g - 1) 0);
        c_str b 0
      })"

section \<open>Replies\<close>

definition udp_exchange :: "nat \<Rightarrow> byte list \<Rightarrow> udp_event list" where
  "udp_exchange who d = [UdpReadable (Datagram who d), UdpWritable]"

lemma udp_writable_eq:
  "udp_writable l = Option.bind (c_str (udp_line l) 0) (\<lambda>s. Option.bind (rd_bytes (udp_line l) 0 (4 + length s))
    (\<lambda>d. Some (l\<lparr>udp_armed := ArmedIn\<rparr>, udp_client l, d)))"
proof -
  have "length (ascii ''ACK:'' @ s) = 4 + length s" for s by simp
  then show ?thesis unfolding udp_writable_def by presburger
qed

lemma line_string:
  assumes "0 \<notin> set d" "length d + n = 10" "0 < n"
  shows "c_str (d @ zeros n) 0 = Some d"
proof -
  have "n = Suc (n - 1)" using assms(3) by simp
  then have "zeros n = 0 # zeros (n - 1)" by (metis zeros_Suc)
  then show ?thesis using c_str_app0 [OF assms(1)] by simp
qed

lemma udp_prints_reply:
  assumes "0 \<notin> set s" "s \<noteq> []" "length s \<le> 6"
  shows "udp_prints (s @ zeros 4) = Some s"
proof -
  have z: "zeros 4 = [0, 0, 0, 0]" by (simp add: zeros_def numeral_eq_Suc)
  have "wr_byte (s @ [0, 0, 0, 0] @ zeros (1020 - length s)) (Suc (Suc (Suc (length s)))) 0 =
      Some (s @ 0 # [0, 0, 0] @ zeros (1020 - length s))"
    by (simp add: wr_byte_def list_update_append numeral_eq_Suc)
  then show ?thesis using assms c_str_app0 [OF assms(1)] by (simp add: udp_prints_def z)
qed

text \<open>The first datagram, without zero bytes, is answered with itself and four zero bytes, of which
  the client prints the datagram, when it has at most six bytes; with seven or more the server
  reads past its ten-byte buffer.\<close>

theorem echo_first:
  assumes "0 \<notin> set d" "d \<noteq> []"
  shows "map_option snd (udp_run udp_start (udp_exchange who d)) =
      (if length d \<le> 6 then Some [(who, d @ zeros 4)] else None)
    \<and> (length d \<le> 6 \<longrightarrow> udp_request d = Some d \<and> udp_prints (d @ zeros 4) = Some d)"
proof (cases "length d < 10")
  case True
  have dr: "drop (length d) (zeros 10) = zeros (10 - length d)" by simp
  have s: "c_str (d @ zeros (10 - length d)) 0 = Some d"
    using True by (intro line_string assms) simp_all
  let ?l = "udp_start\<lparr>udp_line := d @ zeros (10 - length d), udp_client := who, udp_armed := ArmedOut\<rparr>"
  have r: "udp_step udp_start (UdpReadable (Datagram who d)) = Some (?l, [])"
    using True s assms(2) by (simp add: udp_step_def udp_start_def udp_readable_def udp_buf_size_def)
  have rd: "rd_bytes (d @ zeros (10 - length d)) 0 (4 + length d) =
      (if length d \<le> 6 then Some (d @ zeros 4) else None)"
  proof (cases "length d \<le> 6")
    case True
    then have "zeros (10 - length d) = zeros 4 @ zeros (6 - length d)"
      using zeros_split [of 4 "10 - length d"] by simp
    then show ?thesis using True by (simp add: rd_bytes_def)
  next
    case False
    then show ?thesis using \<open>length d < 10\<close> by (simp add: rd_bytes_def)
  qed
  have w: "map_option snd (udp_step ?l UdpWritable) =
      (if length d \<le> 6 then Some [(who, d @ zeros 4)] else None)"
    using s rd by (simp add: udp_step_def udp_start_def udp_writable_eq)
  note p = udp_prints_reply [OF assms]
  show ?thesis
    using r w p by (cases "length d \<le> 6") (auto simp: udp_exchange_def udp_request_def split: option.splits)
next
  case False
  then have t: "length (take 10 d) = 10" by simp
  have "0 \<notin> set (take 10 d)" using assms(1) by (meson in_set_takeD)
  then have "c_str (take 10 d) 0 = None" by (simp add: c_str_def)
  then have "udp_step udp_start (UdpReadable (Datagram who d)) = None"
    using t by (simp add: udp_step_def udp_start_def udp_readable_def udp_buf_size_def)
  then show ?thesis using False by (simp add: udp_exchange_def)
qed

theorem echo_first_witness:
  "map_option snd (udp_run udp_start (udp_exchange 7 [0x61, 0x62])) = Some [(7, [0x61, 0x62] @ zeros 4)]
    \<and> udp_request [0x61, 0x62] = Some [0x61, 0x62] \<and> udp_prints ([0x61, 0x62] @ zeros 4) = Some [0x61, 0x62]"
  using echo_first [of "[0x61, 0x62]" 7] by simp

section \<open>Several datagrams\<close>

text \<open>One exchange, when the buffer holds the string \<open>y\<close> once the datagram is in it.\<close>

lemma udp_exchange_step:
  assumes l: "udp_armed l = ArmedIn" "udp_open l" "x @ drop (length x) (udp_line l) = y @ zeros (10 - length y)"
    and x: "x \<noteq> []" "length x \<le> 6" and y: "0 \<notin> set y" "length y \<le> 6"
  shows "map_option snd (udp_run l (udp_exchange who x @ es)) =
      map_option (\<lambda>outs. (who, y @ zeros 4) # outs) (map_option snd (udp_run
        (l\<lparr>udp_line := y @ zeros (10 - length y), udp_client := who\<rparr>) es))"
proof -
  have s: "c_str (y @ zeros (10 - length y)) 0 = Some y"
    using y by (intro line_string) simp_all
  have z: "zeros (10 - length y) = zeros 4 @ zeros (6 - length y)"
    using zeros_split [of 4 "10 - length y"] y(2) by simp
  have rd: "rd_bytes (y @ zeros (10 - length y)) 0 (4 + length y) = Some (y @ zeros 4)"
    by (simp add: rd_bytes_def z)
  let ?l1 = "l\<lparr>udp_line := y @ zeros (10 - length y), udp_client := who, udp_armed := ArmedOut\<rparr>"
  have 1: "udp_step l (UdpReadable (Datagram who x)) = Some (?l1, [])"
    using l x s by (simp add: udp_step_def udp_readable_def udp_buf_size_def)
  have "?l1\<lparr>udp_armed := ArmedIn\<rparr> = l\<lparr>udp_line := y @ zeros (10 - length y), udp_client := who\<rparr>"
    using l(1) by simp
  then have 2: "udp_step ?l1 UdpWritable =
      Some (l\<lparr>udp_line := y @ zeros (10 - length y), udp_client := who\<rparr>, [(who, y @ zeros 4)])"
    using l(2) s rd by (simp add: udp_step_def udp_writable_eq)
  show ?thesis by (simp add: udp_exchange_def 1 2 option.map_comp o_def split: option.split)
qed

text \<open>What the buffer shows after each datagram: a short one leaves the end of the last.\<close>

fun shown :: "byte list \<Rightarrow> byte list list \<Rightarrow> byte list list" where
  "shown line [] = []"
| "shown line (d # ds) = (d @ drop (length d) line) # shown (d @ drop (length d) line) ds"

lemma length_shown [simp]: "length (shown line ds) = length ds"
  by (induction ds arbitrary: line) simp_all

definition small_datagram :: "byte list \<Rightarrow> bool" where
  "small_datagram d \<longleftrightarrow> d \<noteq> [] \<and> length d \<le> 6 \<and> 0 \<notin> set d"

lemma shown_strings:
  "\<forall>d \<in> set ds. small_datagram d \<Longrightarrow> length line \<le> 6 \<Longrightarrow> 0 \<notin> set line \<Longrightarrow>
    s \<in> set (shown line ds) \<Longrightarrow> s \<noteq> [] \<and> length s \<le> 6 \<and> 0 \<notin> set s"
proof (induction ds arbitrary: line)
  case (Cons d ds)
  let ?y = "d @ drop (length d) line"
  have d: "d \<noteq> []" "length d \<le> 6" "0 \<notin> set d" using Cons.prems(1) by (simp_all add: small_datagram_def)
  have y: "length ?y \<le> 6" "0 \<notin> set ?y" using d Cons.prems(2,3) by (auto dest: in_set_dropD)
  show ?case using Cons.IH [OF _ y] Cons.prems(1,4) d y by auto
qed simp

lemma udp_session:
  assumes "\<forall>(who, d) \<in> set ps. small_datagram d" "length line \<le> 6" "0 \<notin> set line"
    and "udp_armed l = ArmedIn" "udp_open l" "udp_line l = line @ zeros (10 - length line)"
  shows "map_option snd (udp_run l (concat (map (\<lambda>(who, d). udp_exchange who d) ps))) =
    Some (map2 (\<lambda>who s. (who, s @ zeros 4)) (map fst ps) (shown line (map snd ps)))"
  using assms
proof (induction ps arbitrary: line l)
  case (Cons p ps)
  obtain who d where p: "p = (who, d)" by fastforce
  let ?y = "d @ drop (length d) line"
  have d: "d \<noteq> []" "length d \<le> 6" "0 \<notin> set d" using Cons.prems(1) p by (auto simp: small_datagram_def)
  have y: "0 \<notin> set ?y" "length ?y \<le> 6" using d Cons.prems(2,3) by (auto dest: in_set_dropD)
  have b: "d @ drop (length d) (udp_line l) = ?y @ zeros (10 - length ?y)"
    using Cons.prems(2) d(2) unfolding Cons.prems(6) by (cases "length d \<le> length line") simp_all
  let ?l = "l\<lparr>udp_line := ?y @ zeros (10 - length ?y), udp_client := who\<rparr>"
  have "map_option snd (udp_run ?l (concat (map (\<lambda>(who, d). udp_exchange who d) ps))) =
      Some (map2 (\<lambda>who s. (who, s @ zeros 4)) (map fst ps) (shown ?y (map snd ps)))"
    using Cons.prems(1,4,5) y by (intro Cons.IH) auto
  then show ?case
    using udp_exchange_step [OF Cons.prems(4,5) b d(1,2) y] by (simp add: p)
qed simp

text \<open>
  The client's loop: \<^verbatim>\<open>cin >> buf\<close>, which leaves no word at the end of the input, \<^verbatim>\<open>sendto\<close>,
  \<^verbatim>\<open>recvfrom\<close> (\<open>None\<close>: it fails and \<^verbatim>\<open>buf[-2]\<close> is written). What is sent and what is printed.
\<close>

fun UdpcRequest :: "(byte list \<times> byte list option) list \<Rightarrow> (byte list \<times> byte list) list option" where
  "UdpcRequest [] = Some []"
| "UdpcRequest ((word, reply) # rs) =
     do {
       d \<leftarrow> udp_request word;
       got \<leftarrow> reply;
       text \<leftarrow> udp_prints got;
       map_option ((#) (d, text)) (UdpcRequest rs)
     }"

lemma UdpcRequest_echoed:
  assumes "\<forall>d \<in> set ds. small_datagram d" "\<forall>s \<in> set ss. s \<noteq> [] \<and> length s \<le> 6 \<and> 0 \<notin> set s" "length ds = length ss"
  shows "UdpcRequest (zip ds (map (\<lambda>s. Some (s @ zeros 4)) ss)) = Some (zip ds ss)"
  using assms(3,1,2)
proof (induction ds ss rule: list_induct2)
  case (Cons d ds s ss)
  then show ?case by (simp add: udp_prints_reply udp_request_def small_datagram_def)
qed simp

text \<open>C34: In a session of the echo server with any number of clients that send one to six bytes each time,
  none of them zero, every datagram is answered to its sender with what the server's only buffer
  then holds: the datagram and, when it is shorter than the string before, the end of that
  string, even another client's. A client alone with the server prints just this.\<close>

theorem echo_session:
  assumes "\<forall>(who, d) \<in> set ps. small_datagram d"
  shows "map_option snd (udp_run udp_start (concat (map (\<lambda>(who, d). udp_exchange who d) ps))) =
      Some (map2 (\<lambda>who s. (who, s @ zeros 4)) (map fst ps) (shown [] (map snd ps)))
    \<and> UdpcRequest (zip (map snd ps) (map (\<lambda>s. Some (s @ zeros 4)) (shown [] (map snd ps)))) =
      Some (zip (map snd ps) (shown [] (map snd ps)))"
proof -
  have d: "\<forall>d \<in> set (map snd ps). small_datagram d" using assms by auto
  have "\<forall>s \<in> set (shown [] (map snd ps)). s \<noteq> [] \<and> length s \<le> 6 \<and> 0 \<notin> set s"
    using shown_strings [OF d, of "[]"] by simp
  with d have "UdpcRequest (zip (map snd ps) (map (\<lambda>s. Some (s @ zeros 4)) (shown [] (map snd ps)))) =
      Some (zip (map snd ps) (shown [] (map snd ps)))"
    by (intro UdpcRequest_echoed) simp_all
  then show ?thesis
    using udp_session [OF assms, of "[]" udp_start] by (simp add: udp_start_def udp_buf_size_def)
qed

theorem echo_session_witness:
  "map_option snd (udp_run udp_start (udp_exchange 1 [0x73, 0x65, 0x63] @ udp_exchange 2 [0x78])) =
      Some [(1, [0x73, 0x65, 0x63] @ zeros 4), (2, [0x78, 0x65, 0x63] @ zeros 4)]
    \<and> UdpcRequest [([0x73, 0x65, 0x63], Some ([0x73, 0x65, 0x63] @ zeros 4)), ([0x78], Some ([0x78, 0x65, 0x63] @ zeros 4))] =
      Some [([0x73, 0x65, 0x63], [0x73, 0x65, 0x63]), ([0x78], [0x78, 0x65, 0x63])]"
  using echo_session [of "[(1, [0x73, 0x65, 0x63]), (2, [0x78])]"]
  by (simp add: small_datagram_def del: udp_run.simps UdpcRequest.simps)

end
