(* ===== verification/UdpRun.thy ===== *)
theory UdpRun
  imports UdpEcho DnsClient
begin

text \<open>
  How the UDP echo pair starts (\<^verbatim>\<open>w_udpserver.cpp\<close>, \<^verbatim>\<open>w_udpclient.cpp\<close>): the address and the port come
  from the file of \<^verbatim>\<open>W_DnsConf\<close>. Neither checks the address, and the server checks none of its
  calls but \<^verbatim>\<open>fcntl\<close>.
\<close>

text \<open>The two results of \<^verbatim>\<open>fcntl\<close>\<close>

definition udp_setnonblocking :: "int \<Rightarrow> int \<Rightarrow> unit outcome" where
  "udp_setnonblocking getfl setfl =
     (if getfl < 0 then Exits 1 else if setfl < 0 then Exits 1 else Returns ())"

text \<open>
  \<open>aton\<close> is what \<^verbatim>\<open>inet_aton\<close> and \<^verbatim>\<open>inet_addr\<close> make of a text, \<open>None\<close> for one that is no address.
  The server binds the result of \<^verbatim>\<open>inet_addr\<close>, all ones then; the result of \<^verbatim>\<open>bind\<close> is not kept.
\<close>

definition udp_server_start :: "int \<Rightarrow> int \<Rightarrow> (byte list \<Rightarrow> u32 option) \<Rightarrow> byte list option \<Rightarrow> dns_conf \<Rightarrow>
    ((u32 \<times> u16) \<times> udp_loop) outcome option" where
  "udp_server_start getfl setfl aton file c =
     (case udp_setnonblocking getfl setfl of
        Exits x \<Rightarrow> Some (Exits x)
      | Returns _ \<Rightarrow> do {
          (local_addr, c1) \<leftarrow> GetConfIp file c;
          (p, c2) \<leftarrow> GetPort file c1;
          Some (Returns
            ((case aton local_addr of None \<Rightarrow> -1 | Some a \<Rightarrow> a, word_of_int p), udp_start))
        })"

text \<open>\<^verbatim>\<open>inet_aton\<close> returns 0 or 1, never a negative number: its check never fails.\<close>

definition udp_client_start :: "int \<Rightarrow> (byte list \<Rightarrow> u32 option) \<Rightarrow> byte list option \<Rightarrow> dns_conf \<Rightarrow>
    (u32 \<times> u16) outcome option" where
  "udp_client_start sockfd aton file c =
     (if sockfd < 0 then Some (Exits 1)
      else do {
        (p, c1) \<leftarrow> GetPort file c;
        (text, c2) \<leftarrow> GetConfIp file c1;
        let (ret, addr) = (case aton text of None \<Rightarrow> (0 :: int, 0) | Some a \<Rightarrow> (1, a));
        if ret < 0 then Some (Exits 1) else Some (Returns (addr, word_of_int p))
      })"

text \<open>With a configuration file that is read, server and client come to the same address and port when
  the file's address is one; when it is none, the server binds the broadcast address and the
  client sends to the wildcard address, and neither of them stops.\<close>

theorem udp_pair_starts:
  assumes "Init file c = Some (True, c')" "\<not> isInit c" "0 \<le> getfl" "0 \<le> setfl" "0 \<le> sockfd"
  shows "udp_server_start getfl setfl aton file c =
      Some (Returns ((case aton (conf_ip c') of None \<Rightarrow> -1 | Some a \<Rightarrow> a, word_of_int (port c')), udp_start))
    \<and> udp_client_start sockfd aton file c =
      Some (Returns (case aton (conf_ip c') of None \<Rightarrow> 0 | Some a \<Rightarrow> a, word_of_int (port c')))"
proof -
  let ?c = "c'\<lparr>isInit := True\<rparr>"
  have r: "conf_ready file c = Some ?c" using assms(1,2) by (simp add: conf_ready_def)
  have r2: "conf_ready file ?c = Some ?c" by (simp add: conf_ready_def)
  show ?thesis
    using assms(3-5) r r2
    by (cases "aton (conf_ip c')")
      (simp_all add: udp_server_start_def udp_setnonblocking_def udp_client_start_def GetConfIp_def GetPort_def)
qed

theorem udp_pair_starts_witness:
  "udp_server_start 2 0 (\<lambda>_. None) (Some []) init_conf = Some (Returns ((-1, 0), udp_start))
    \<and> udp_client_start 3 (\<lambda>_. None) (Some []) init_conf = Some (Returns (0, 0))"
proof -
  have t: "get_token [] = None" by code_simp
  have "Init (Some []) init_conf = Some (True, init_conf)"
    by (simp add: Init_def conf_loop.simps t)
  then show ?thesis
    using udp_pair_starts [of "Some []" init_conf init_conf 2 0 3 "\<lambda>_. None"] by (simp add: init_conf_def)
qed

end
