(* ===== verification/HttpServer.thy ===== *)
theory HttpServer
  imports CText
begin

text \<open>
  The HTTP server (\<^verbatim>\<open>http_server/src/http_server\<close>): parsing the request path, reading the
  file, the header and the body, and the epoll loop with its one receive buffer for all
  connections. \<open>None\<close> is undefined behaviour (a write past a fixed buffer); \<^verbatim>\<open>exit\<close> is a
  value. The file system is the argument \<open>fs\<close>: the contents of the files that can be opened.
\<close>

section \<open>Building a response\<close>

type_synonym files = "byte list \<Rightarrow> byte list option"

definition http_buf_size :: nat where
  "http_buf_size = 1024 * 10"

definition filename_size :: nat where
  "filename_size = 256"

definition wwwroot :: "byte list" where
  "wwwroot = ascii ''wwwroot''"

text \<open>\<^verbatim>\<open>sscanf(request, "%*s %s %*s", file)\<close> into \<^verbatim>\<open>char file[256]\<close>, zeroed before.\<close>

definition get_file :: "byte list \<Rightarrow> byte list option" where
  "get_file request =
     (case get_token request of
        None \<Rightarrow> Some []
      | Some (m, r) \<Rightarrow>
          (case get_token r of
             None \<Rightarrow> Some []
           | Some (path, r') \<Rightarrow> if length path < filename_size then Some path else None))"

definition make_filename :: "byte list \<Rightarrow> byte list option" where
  "make_filename file =
     (if length (wwwroot @ file) < filename_size then Some (wwwroot @ file) else None)"

definition crlf :: "byte list" where
  "crlf = [0x0d, 0x0a]"

text \<open>One \<^verbatim>\<open>sprintf\<close> into \<^verbatim>\<open>tmp[256]\<close> and its \<^verbatim>\<open>memcpy\<close> to \<open>buf + p\<close>.\<close>

definition put_line :: "byte list \<Rightarrow> cbuf \<times> nat \<Rightarrow> (cbuf \<times> nat) option" where
  "put_line line st =
     (if length line < 256
      then map_option (\<lambda>b. (b, snd st + length line)) (wr_bytes (fst st) (snd st) line)
      else None)"

definition make_header :: "nat \<Rightarrow> int \<Rightarrow> byte list \<Rightarrow> int \<Rightarrow> (cbuf \<times> nat) option" where
  "make_header max_size res_code ct_type ct_size =
     do {
       s1 \<leftarrow> put_line (ascii ''HTTP/1.1 '' @ dec_int res_code @ ascii '' OK'' @ crlf)
               (zeros max_size, 0);
       s2 \<leftarrow> put_line (ascii ''Server: http-server/0.1.0'' @ crlf) s1;
       s3 \<leftarrow> put_line (ascii ''Content-Type: '' @ ct_type @ crlf) s2;
       put_line (ascii ''Content-Length: '' @ dec_int ct_size @ crlf @ crlf) s3
     }"

text \<open>\<^verbatim>\<open>fread\<close> of at most \<^verbatim>\<open>max_size\<close> bytes; -1 when the file cannot be opened.\<close>

definition read_content :: "files \<Rightarrow> nat \<Rightarrow> byte list \<Rightarrow> int \<times> cbuf" where
  "read_content fs max_size filename =
     (case fs filename of
        None \<Rightarrow> (-1, zeros max_size)
      | Some c \<Rightarrow>
          let d = take max_size c in (int (length d), d @ zeros (max_size - length d)))"

definition nofound :: "byte list" where
  "nofound = ascii ''wwwroot/404.html''"

definition read_404 :: "files \<Rightarrow> nat \<Rightarrow> int \<times> cbuf" where
  "read_404 fs max_size = read_content fs max_size nofound"

definition make_body :: "nat \<Rightarrow> cbuf \<Rightarrow> nat \<Rightarrow> cbuf \<Rightarrow> nat \<Rightarrow> (cbuf \<times> nat) outcome option" where
  "make_body max_size hd_buf hd_size ct_buf ct_size =
     (if hd_size + ct_size > max_size then Some (Exits 1)
      else do {
        hd \<leftarrow> rd_bytes hd_buf 0 hd_size;
        ct \<leftarrow> rd_bytes ct_buf 0 ct_size;
        b1 \<leftarrow> wr_bytes (zeros max_size) 0 hd;
        b2 \<leftarrow> wr_bytes b1 hd_size ct;
        Some (Returns (b2, hd_size + ct_size))
      })"

definition octet_stream :: "byte list" where
  "octet_stream = ascii ''application/octet-stream''"

definition text_html :: "byte list" where
  "text_html = ascii ''text/html''"

text \<open>\<^verbatim>\<open>W_Epoll::make_http_res\<close>; the request is the C string in the receive buffer.\<close>

definition make_http_res :: "files \<Rightarrow> cbuf \<Rightarrow> (cbuf \<times> nat) outcome option" where
  "make_http_res fs req_buf =
     do {
       request \<leftarrow> c_str req_buf 0;
       file \<leftarrow> get_file request;
       filename \<leftarrow> make_filename file;
       (ct_size, ct_buf) \<leftarrow> Some (read_content fs http_buf_size filename);
       if ct_size > 0 then
         do {
           (hd_buf, hd_size) \<leftarrow> make_header http_buf_size 200 octet_stream ct_size;
           make_body http_buf_size hd_buf hd_size ct_buf (nat ct_size)
         }
       else
         do {
           (hd_buf, hd_size) \<leftarrow> make_header http_buf_size 404 text_html ct_size;
           make_body http_buf_size hd_buf hd_size [] 0
         }
     }"

section \<open>The epoll loop\<close>

text \<open>
  \<^verbatim>\<open>W_Epoll::run\<close>: \<open>conns\<close> holds the accepted descriptors and what each is armed for.
  The environment chooses the events and the results of \<^verbatim>\<open>accept\<close>, \<^verbatim>\<open>recv\<close> and
  \<^verbatim>\<open>send\<close> (a result of 0 or less closes the descriptor).
\<close>

datatype http_armed = ForRead | ForWrite

record http_loop =
  recv_buf :: cbuf
  conns :: "int \<rightharpoonup> http_armed"

datatype http_event =
  Accept int
| RecvData int "byte list"
| RecvFail int
| SendReady int int \<comment> \<open>descriptor, result of send\<close>

type_synonym reply = "int \<times> byte list"

definition on_accept :: "http_loop \<Rightarrow> int \<Rightarrow> http_loop outcome" where
  "on_accept l conn_fd =
     (if conn_fd < 0 then Exits 1 else Returns (l\<lparr>conns := (conns l)(conn_fd \<mapsto> ForRead)\<rparr>))"

definition on_recv :: "http_loop \<Rightarrow> int \<Rightarrow> byte list \<Rightarrow> http_loop" where
  "on_recv l fd bytes =
     (let d = take http_buf_size bytes in
      l\<lparr>recv_buf := d @ zeros (http_buf_size - length d),
        conns := (conns l)(fd := (if d = [] then None else Some ForWrite))\<rparr>)"

definition on_send :: "files \<Rightarrow> http_loop \<Rightarrow> int \<Rightarrow> int \<Rightarrow> (http_loop \<times> reply list) outcome option" where
  "on_send fs l fd send_num =
     (case make_http_res fs (recv_buf l) of
        None \<Rightarrow> None
      | Some (Exits c) \<Rightarrow> Some (Exits c)
      | Some (Returns (b, sz)) \<Rightarrow>
          Some (Returns
            (l\<lparr>conns := (conns l)(fd := (if send_num \<le> 0 then None else Some ForRead))\<rparr>,
             [(fd, take (nat send_num) (take sz b))])))"

fun http_step :: "files \<Rightarrow> http_loop \<Rightarrow> http_event \<Rightarrow> (http_loop \<times> reply list) outcome option" where
  "http_step fs l (Accept fd) =
     (case on_accept l fd of
        Exits c \<Rightarrow> Some (Exits c) | Returns l' \<Rightarrow> Some (Returns (l', [])))"
| "http_step fs l (RecvData fd bytes) =
     (if conns l fd = Some ForRead then Some (Returns (on_recv l fd bytes, []))
      else Some (Returns (l, [])))"
| "http_step fs l (RecvFail fd) =
     (if conns l fd = Some ForRead then Some (Returns (on_recv l fd [], []))
      else Some (Returns (l, [])))"
| "http_step fs l (SendReady fd send_num) =
     (if conns l fd = Some ForWrite then on_send fs l fd send_num
      else Some (Returns (l, [])))"

fun http_run :: "files \<Rightarrow> http_loop \<Rightarrow> http_event list \<Rightarrow> (http_loop \<times> reply list) outcome option" where
  "http_run fs l [] = Some (Returns (l, []))"
| "http_run fs l (e # es) =
     (case http_step fs l e of
        Some (Returns (l1, out)) \<Rightarrow>
          (case http_run fs l1 es of
             Some (Returns (l2, outs)) \<Rightarrow> Some (Returns (l2, out @ outs))
           | r \<Rightarrow> r)
      | r \<Rightarrow> r)"

section \<open>Facts about the response\<close>

definition header_text :: "int \<Rightarrow> byte list \<Rightarrow> int \<Rightarrow> byte list" where
  "header_text code ct_type n =
     ascii ''HTTP/1.1 '' @ dec_int code @ ascii '' OK'' @ crlf
     @ ascii ''Server: http-server/0.1.0'' @ crlf
     @ ascii ''Content-Type: '' @ ct_type @ crlf
     @ ascii ''Content-Length: '' @ dec_int n @ crlf @ crlf"

lemma put_line_zeros:
  assumes "length line < 256" and "length line \<le> m" and "i = length a"
  shows "put_line line (a @ zeros m, i) = Some ((a @ line) @ zeros (m - length line), i + length line)"
  using assms by (simp add: put_line_def wr_bytes_def)

lemma length_crlf [simp]: "length crlf = 2"
  by (simp add: crlf_def)

lemma make_header_text:
  assumes "\<bar>code\<bar> < 10 ^ 10" "\<bar>n\<bar> < 10 ^ 10" "length ct_type < 200"
    and m: "length (header_text code ct_type n) \<le> m"
  shows "make_header m code ct_type n =
    Some (header_text code ct_type n @ zeros (m - length (header_text code ct_type n)),
      length (header_text code ct_type n))"
  using m dec_int_length [OF assms(1)] dec_int_length [OF assms(2)] assms(3)
    put_line_zeros [where a = "[]", simplified]
  by (simp add: make_header_def put_line_zeros header_text_def del: append_assoc)

lemma dec_nat_length_ge: "10 ^ k \<le> n \<Longrightarrow> k < length (dec_nat n)"
proof (induction k arbitrary: n)
  case (Suc k)
  have "10 \<le> (10::nat) ^ Suc k" by simp
  then have n: "\<not> n < 10" using Suc.prems by linarith
  have "10 ^ k \<le> n div 10"
    using Suc.prems by (simp add: less_eq_div_iff_mult_less_eq mult.commute)
  then have "k < length (dec_nat (n div 10))" using Suc.IH by blast
  then show ?case using n by (subst dec_nat.simps) simp
qed (simp add: Suc_le_eq)

lemma length_header_200:
  "length (header_text 200 octet_stream (int n)) = 104 + length (dec_nat n)"
proof -
  have "length (dec_int 200) = 3"
    by (simp add: dec_int_def dec_nat.simps [of 200] dec_nat.simps [of 20] dec_nat.simps [of 2])
  moreover have "length (dec_int (int n)) = length (dec_nat n)" by (simp add: dec_int_def)
  ultimately show ?thesis by (simp add: header_text_def octet_stream_def)
qed

text \<open>The largest file whose header and body fit the 10240 bytes of the buffers.\<close>

definition file_limit :: nat where
  "file_limit = 10131"

lemma header_fits: "length (header_text 200 octet_stream (int n)) + n \<le> http_buf_size
  \<longleftrightarrow> n \<le> file_limit"
proof (cases "n < 10000")
  case True
  then have "length (dec_nat n) \<le> 4" using dec_nat_length [of n 4] by simp
  then show ?thesis using True by (simp add: length_header_200 http_buf_size_def file_limit_def)
next
  case False
  then have "4 < length (dec_nat n)" using dec_nat_length_ge [of 4 n] by simp
  moreover have "length (dec_nat n) \<le> 5" if "n < 100000" using dec_nat_length [of n 5] that by simp
  ultimately show ?thesis
    by (cases "n < 100000") (auto simp: length_header_200 http_buf_size_def file_limit_def)
qed

text \<open>A request line \<^verbatim>\<open>METHOD path ...\<close> in the receive buffer.\<close>

definition http_request :: "byte list \<Rightarrow> byte list \<Rightarrow> byte list \<Rightarrow> byte list" where
  "http_request m path rest = m @ space # path @ space # rest"

definition in_recv_buf :: "byte list \<Rightarrow> cbuf" where
  "in_recv_buf req = req @ zeros (http_buf_size - length req)"

definition ok_request :: "byte list \<Rightarrow> byte list \<Rightarrow> byte list \<Rightarrow> bool" where
  "ok_request m path rest \<longleftrightarrow> is_word m \<and> is_word path
     \<and> 0 \<notin> set (http_request m path rest) \<and> length (http_request m path rest) < http_buf_size"

lemma c_str_recv_buf:
  "0 \<notin> set req \<Longrightarrow> length req < http_buf_size \<Longrightarrow> c_str (in_recv_buf req) 0 = Some req"
  by (cases "http_buf_size - length req") (simp_all add: in_recv_buf_def c_str_app0 zeros_Suc)

lemma get_file_request:
  assumes "is_word m" "is_word path"
  shows "get_file (http_request m path rest) =
    (if length path < filename_size then Some path else None)"
  using get_token_word [OF assms(1)] get_token_word [OF assms(2)]
  by (simp add: get_file_def http_request_def get_token_skip)

text \<open>The path is safe to copy and to prefix exactly up to 248 bytes.\<close>

lemma request_filename:
  assumes "is_word m" "is_word path"
  shows "Option.bind (get_file (http_request m path rest)) make_filename =
    (if length path < 249 then Some (wwwroot @ path) else None)"
  by (simp add: get_file_request [OF assms] make_filename_def filename_size_def wwwroot_def)

lemma length_wwwroot [simp]: "length wwwroot = 7"
  by (simp add: wwwroot_def)

lemma make_body_text:
  assumes "length h + length ct \<le> m"
  shows "make_body m (h @ x) (length h) (ct @ y) (length ct) =
    Some (Returns (h @ ct @ zeros (m - (length h + length ct)), length h + length ct))"
  using assms by (simp add: make_body_def rd_bytes_def wr_bytes_def)

lemma make_http_res_request:
  assumes "ok_request m path rest" and "length path < 249"
  shows "make_http_res fs (in_recv_buf (http_request m path rest)) =
    do {
      (ct_size, ct_buf) \<leftarrow> Some (read_content fs http_buf_size (wwwroot @ path));
      if ct_size > 0 then
        do { (hd_buf, hd_size) \<leftarrow> make_header http_buf_size 200 octet_stream ct_size;
             make_body http_buf_size hd_buf hd_size ct_buf (nat ct_size) }
      else
        do { (hd_buf, hd_size) \<leftarrow> make_header http_buf_size 404 text_html ct_size;
             make_body http_buf_size hd_buf hd_size [] 0 }
    }"
proof -
  have "get_file (http_request m path rest) = Some path"
    and "make_filename path = Some (wwwroot @ path)"
    using assms by (simp_all add: ok_request_def get_file_request make_filename_def
        filename_size_def)
  moreover have "c_str (in_recv_buf (http_request m path rest)) 0
      = Some (http_request m path rest)"
    using assms by (intro c_str_recv_buf) (auto simp: ok_request_def)
  ultimately show ?thesis by (simp add: make_http_res_def)
qed

lemma make_header_200:
  assumes "n \<le> http_buf_size"
  shows "make_header http_buf_size 200 octet_stream (int n) =
    Some (header_text 200 octet_stream (int n)
        @ zeros (http_buf_size - length (header_text 200 octet_stream (int n))),
      length (header_text 200 octet_stream (int n)))"
proof (rule make_header_text)
  have "length (dec_nat n) \<le> 5" using assms dec_nat_length [of n 5] by (simp add: http_buf_size_def)
  then show "length (header_text 200 octet_stream (int n)) \<le> http_buf_size"
    by (simp add: length_header_200 http_buf_size_def)
qed (use assms in \<open>simp_all add: octet_stream_def http_buf_size_def\<close>)

lemma make_http_res_file:
  assumes ok: "ok_request m path rest" "length path < 249"
    and c: "fs (wwwroot @ path) = Some c" "c \<noteq> []"
  shows "make_http_res fs (in_recv_buf (http_request m path rest)) =
    (if length c \<le> file_limit
     then let h = header_text 200 octet_stream (int (length c)) in
       Some (Returns (h @ c @ zeros (http_buf_size - (length h + length c)),
         length h + length c))
     else Some (Exits 1))"
proof (cases "length c \<le> file_limit")
  case True
  then have le: "length c \<le> http_buf_size" by (simp add: file_limit_def http_buf_size_def)
  have "length (header_text 200 octet_stream (int (length c))) + length c \<le> http_buf_size"
    using header_fits True by blast
  then show ?thesis
    using True c le make_body_text [where x = "zeros k" and y = "zeros k'" for k k']
    by (simp add: make_http_res_request [OF ok] read_content_def Let_def make_header_200)
next
  case False
  define n where "n = min (length c) http_buf_size"
  have n: "\<not> n \<le> file_limit" "n \<le> http_buf_size" "0 < n"
    using False by (auto simp: n_def file_limit_def http_buf_size_def)
  then have "http_buf_size < length (header_text 200 octet_stream (int n)) + n"
    using header_fits [of n] by simp
  then show ?thesis
    using False c n make_header_200 [OF n(2)]
    by (simp add: make_http_res_request [OF ok] read_content_def Let_def make_body_def
        n_def [symmetric])
qed

lemma make_http_res_missing:
  assumes ok: "ok_request m path rest" "length path < 249"
    and c: "fs (wwwroot @ path) = None \<or> fs (wwwroot @ path) = Some []"
  shows "\<exists>b. make_http_res fs (in_recv_buf (http_request m path rest)) =
      Some (Returns (b, length (header_text 404 text_html (if fs (wwwroot @ path) = None then -1 else 0))))
    \<and> take (length (header_text 404 text_html (if fs (wwwroot @ path) = None then -1 else 0))) b
      = header_text 404 text_html (if fs (wwwroot @ path) = None then -1 else 0)"
proof -
  let ?n = "if fs (wwwroot @ path) = None then -1 else 0 :: int"
  let ?h = "header_text 404 text_html ?n"
  have d: "length (dec_int 404) \<le> 11" "length (dec_int ?n) \<le> 11"
    by (rule dec_int_length; simp)+
  then have len: "length ?h \<le> http_buf_size"
    by (simp add: header_text_def text_html_def http_buf_size_def)
  have "make_header http_buf_size 404 text_html ?n =
      Some (?h @ zeros (http_buf_size - length ?h), length ?h)"
    by (rule make_header_text [OF _ _ _ len]) (simp_all add: text_html_def)
  then show ?thesis
    using c make_body_text [of ?h "[]" http_buf_size "zeros (http_buf_size - length ?h)" "[]"] len
    by (auto simp: make_http_res_request [OF ok] read_content_def Let_def)
qed

end
