(* ===== verification/HttpProps.thy ===== *)
theory HttpProps
  imports HttpServer
begin

text \<open>
  What the HTTP server does. \<open>page\<close> is the response to a path; the theorems show when it is
  sent, when the process ends instead, which request lines overflow the file name, and what
  the one receive buffer does to two connections whose events interleave.
\<close>

section \<open>Pages\<close>

definition page :: "files \<Rightarrow> byte list \<Rightarrow> byte list" where
  "page fs path =
     (case fs (wwwroot @ path) of
        None \<Rightarrow> header_text 404 text_html (-1)
      | Some c \<Rightarrow>
          if c = [] then header_text 404 text_html 0
          else header_text 200 octet_stream (int (length c)) @ c)"

definition page_fits :: "files \<Rightarrow> byte list \<Rightarrow> bool" where
  "page_fits fs path \<longleftrightarrow>
     (case fs (wwwroot @ path) of None \<Rightarrow> True | Some c \<Rightarrow> length c \<le> file_limit)"

lemma make_http_res_page:
  assumes ok: "ok_request m path rest" "length path < 249" and fits: "page_fits fs path"
  shows "\<exists>b. make_http_res fs (in_recv_buf (http_request m path rest)) =
      Some (Returns (b, length (page fs path)))
    \<and> take (length (page fs path)) b = page fs path"
proof (cases "fs (wwwroot @ path)")
  case None
  then show ?thesis using make_http_res_missing [OF ok, of fs] by (simp add: page_def)
next
  case (Some c)
  show ?thesis
  proof (cases "c = []")
    case True
    then show ?thesis
      using make_http_res_missing [OF ok, of fs] Some by (simp add: page_def)
  next
    case False
    then show ?thesis
      using make_http_res_file [where fs = fs, OF ok Some False] Some fits
      by (simp add: page_def page_fits_def Let_def)
  qed
qed

lemma on_recv_request:
  assumes "ok_request m path rest"
  shows "recv_buf (on_recv l fd (http_request m path rest)) = in_recv_buf (http_request m path rest)
    \<and> conns (on_recv l fd (http_request m path rest)) = (conns l)(fd \<mapsto> ForWrite)"
proof -
  have "length (http_request m path rest) \<le> http_buf_size" "http_request m path rest \<noteq> []"
    using assms by (simp_all add: ok_request_def http_request_def)
  then show ?thesis by (simp add: on_recv_def in_recv_buf_def Let_def)
qed

lemma page_nonempty [simp]: "page fs path \<noteq> []"
  by (auto simp: page_def header_text_def ascii_def split: option.split)

text \<open>One request read and answered in full on the connection \<open>fd\<close>.\<close>

definition exchange :: "files \<Rightarrow> int \<times> byte list \<times> byte list \<times> byte list \<Rightarrow> http_event list" where
  "exchange fs x =
     (case x of (fd, m, path, rest) \<Rightarrow>
        [RecvData fd (http_request m path rest), SendReady fd (int (length (page fs path)))])"

definition ok_exchange :: "files \<Rightarrow> http_loop \<Rightarrow> int \<times> byte list \<times> byte list \<times> byte list \<Rightarrow> bool" where
  "ok_exchange fs l x \<longleftrightarrow>
     (case x of (fd, m, path, rest) \<Rightarrow>
        conns l fd = Some ForRead \<and> ok_request m path rest \<and> length path < 249
        \<and> page_fits fs path)"

lemma exchange_step:
  assumes "ok_exchange fs l (fd, m, path, rest)"
  shows "\<exists>l'. http_run fs l (exchange fs (fd, m, path, rest) @ es) =
      (case http_run fs l' es of
         Some (Returns (l2, outs)) \<Rightarrow> Some (Returns (l2, (fd, page fs path) # outs))
       | r \<Rightarrow> r)
    \<and> conns l' = conns l"
proof -
  let ?req = "http_request m path rest"
  let ?n = "int (length (page fs path))"
  let ?l' = "(on_recv l fd ?req)\<lparr>conns := conns l\<rparr>"
  have c: "conns l fd = Some ForRead" and ok: "ok_request m path rest" "length path < 249"
    and fits: "page_fits fs path"
    using assms by (auto simp: ok_exchange_def)
  obtain b where b: "make_http_res fs (in_recv_buf ?req) =
      Some (Returns (b, length (page fs path)))" "take (length (page fs path)) b = page fs path"
    using make_http_res_page [OF ok fits] by blast
  have "http_step fs (on_recv l fd ?req) (SendReady fd ?n) =
      Some (Returns (?l', [(fd, page fs path)]))"
    using b on_recv_request [OF ok(1), of l fd] c by (simp add: on_send_def fun_upd_idem)
  then have "http_run fs l (exchange fs (fd, m, path, rest) @ es) =
      (case http_run fs ?l' es of
         Some (Returns (l2, outs)) \<Rightarrow> Some (Returns (l2, (fd, page fs path) # outs))
       | r \<Rightarrow> r)"
    using c by (simp add: exchange_def split: option.splits outcome.splits)
  then show ?thesis by fastforce
qed

lemma exchanges_run:
  "\<forall>x \<in> set xs. ok_exchange fs l x \<Longrightarrow>
     \<exists>l'. http_run fs l (concat (map (exchange fs) xs)) =
       Some (Returns (l', map (\<lambda>(fd, m, path, rest). (fd, page fs path)) xs))"
proof (induction xs arbitrary: l)
  case (Cons x xs)
  obtain fd m path rest where x: "x = (fd, m, path, rest)" by (cases x)
  have "ok_exchange fs l (fd, m, path, rest)" using Cons.prems x by simp
  then obtain l1 where run: "http_run fs l (exchange fs (fd, m, path, rest)
        @ concat (map (exchange fs) xs)) =
      (case http_run fs l1 (concat (map (exchange fs) xs)) of
         Some (Returns (l2, outs)) \<Rightarrow> Some (Returns (l2, (fd, page fs path) # outs))
       | r \<Rightarrow> r)"
    and c: "conns l1 = conns l"
    using exchange_step by blast
  have "\<forall>x \<in> set xs. ok_exchange fs l1 x"
    using Cons.prems c by (auto simp: ok_exchange_def)
  then show ?case using Cons.IH [of l1] run x by auto
qed simp

definition sample_files :: files where
  "sample_files = [wwwroot @ ascii ''/a'' \<mapsto> ascii ''hi'']"

definition sample_http :: http_loop where
  "sample_http = \<lparr>recv_buf = zeros http_buf_size, conns = [5 \<mapsto> ForRead, 6 \<mapsto> ForRead]\<rparr>"

lemma ok_request_sample:
  "ok_request (ascii ''GET'') (ascii ''/a'') [newline]"
  "ok_request (ascii ''GET'') (ascii ''/b'') [newline]"
  by (simp_all add: ok_request_def http_request_def is_word_def is_space_def http_buf_size_def
      ascii_def space_def newline_def)

lemma page_fits_sample: "page_fits sample_files (ascii ''/a'')" "page_fits sample_files (ascii ''/b'')"
  by (simp_all add: page_fits_def sample_files_def file_limit_def ascii_def)

section \<open>Properties\<close>

text \<open>C6: Requests that are each answered before the next one is read get, each on its own
  connection, the page of their own path: the header with the file's exact length and the file's
  bytes, or the 404 header when there is no such file.\<close>

theorem sequential_requests_served:
  assumes "\<forall>x \<in> set xs. ok_exchange fs l x"
  shows "\<exists>l'. http_run fs l (concat (map (exchange fs) xs)) =
       Some (Returns (l', map (\<lambda>(fd, m, path, rest). (fd, page fs path)) xs))"
  by (rule exchanges_run [OF assms])

theorem sequential_requests_served_witness:
  "\<exists>l'. http_run sample_files sample_http (concat (map (exchange sample_files)
      [(5, ascii ''GET'', ascii ''/a'', [newline]), (6, ascii ''GET'', ascii ''/b'', [newline])])) =
    Some (Returns (l', map (\<lambda>(fd, m, path, rest). (fd, page sample_files path))
      [(5, ascii ''GET'', ascii ''/a'', [newline]), (6, ascii ''GET'', ascii ''/b'', [newline])]))"
  by (rule sequential_requests_served)
    (simp add: ok_exchange_def sample_http_def ok_request_sample page_fits_sample)

text \<open>C38: When a second connection's request is read before the first is answered, the first
  connection is sent the page of the second connection's path: the loop has one receive buffer.\<close>

theorem interleaved_request_crossed:
  assumes "conns l a = Some ForRead" "conns l b = Some ForRead" "a \<noteq> b"
    and "ok_request m1 p1 r1"
    and "ok_request m2 p2 r2" "length p2 < 249" "page_fits fs p2"
  shows "\<exists>l'. http_run fs l [RecvData a (http_request m1 p1 r1), RecvData b (http_request m2 p2 r2),
      SendReady a (int (length (page fs p2)))] = Some (Returns (l', [(a, page fs p2)]))"
proof -
  let ?l1 = "on_recv l a (http_request m1 p1 r1)"
  let ?l2 = "on_recv ?l1 b (http_request m2 p2 r2)"
  obtain buf where buf: "make_http_res fs (in_recv_buf (http_request m2 p2 r2)) =
      Some (Returns (buf, length (page fs p2)))" "take (length (page fs p2)) buf = page fs p2"
    using make_http_res_page [OF assms(5-7)] by blast
  have c1: "conns ?l1 = (conns l)(a \<mapsto> ForWrite)"
    using on_recv_request [OF assms(4)] by blast
  have c2: "conns ?l2 = (conns l)(a \<mapsto> ForWrite, b \<mapsto> ForWrite)"
    and b2: "recv_buf ?l2 = in_recv_buf (http_request m2 p2 r2)"
    using on_recv_request [OF assms(5), of ?l1 b] c1 by simp_all
  have "http_step fs ?l2 (SendReady a (int (length (page fs p2)))) =
      Some (Returns (?l2\<lparr>conns := (conns ?l2)(a \<mapsto> ForRead)\<rparr>, [(a, page fs p2)]))"
    using buf assms(3) by (simp add: on_send_def c2 b2)
  then show ?thesis using assms(1-3) by (simp add: c1)
qed

theorem interleaved_request_crossed_witness:
  "\<exists>l'. http_run sample_files sample_http
      [RecvData 6 (http_request (ascii ''GET'') (ascii ''/b'') [newline]),
       RecvData 5 (http_request (ascii ''GET'') (ascii ''/a'') [newline]),
       SendReady 6 (int (length (page sample_files (ascii ''/a''))))] =
    Some (Returns (l', [(6, page sample_files (ascii ''/a''))]))"
  by (rule interleaved_request_crossed)
    (simp_all add: sample_http_def ok_request_sample page_fits_sample)

text \<open>A request for a file of more than 10131 bytes ends the whole server process with
  status 1, whatever other connections are open; up to that size the file is served.\<close>

theorem large_file_exits:
  assumes "conns l fd = Some ForRead" "ok_request m path rest" "length path < 249"
    and "fs (wwwroot @ path) = Some c"
  shows "http_run fs l [RecvData fd (http_request m path rest), SendReady fd n] = Some (Exits 1)
    \<longleftrightarrow> file_limit < length c"
proof (cases "length c \<le> file_limit")
  case True
  then have "page_fits fs path" using assms(4) by (simp add: page_fits_def)
  from make_http_res_page [OF assms(2,3) this] True show ?thesis
    using on_recv_request [OF assms(2), of l fd] assms(1)
    by (auto simp: on_send_def)
next
  case False
  then have "c \<noteq> []" by auto
  then show ?thesis
    using make_http_res_file [where fs = fs, OF assms(2-4)] False on_recv_request [OF assms(2), of l fd] assms(1)
    by (simp add: on_send_def)
qed

theorem large_file_exits_witness:
  "http_run [wwwroot @ ascii ''/a'' \<mapsto> zeros 10132] sample_http
      [RecvData 5 (http_request (ascii ''GET'') (ascii ''/a'') [newline]), SendReady 5 1]
    = Some (Exits 1)"
proof -
  have "http_run [wwwroot @ ascii ''/a'' \<mapsto> zeros 10132] sample_http
      [RecvData 5 (http_request (ascii ''GET'') (ascii ''/a'') [newline]), SendReady 5 1]
    = Some (Exits 1) \<longleftrightarrow> file_limit < length (zeros 10132)"
    by (rule large_file_exits) (simp_all add: sample_http_def ok_request_sample)
  then show ?thesis by (simp add: file_limit_def)
qed

text \<open>A well-formed request line overflows the 256-byte file names exactly when its path has
  249 bytes or more.\<close>

theorem long_path_overflow_iff:
  assumes "ok_request m path rest"
  shows "make_http_res fs (in_recv_buf (http_request m path rest)) = None
    \<longleftrightarrow> 249 \<le> length path"
proof (cases "length path < 249")
  case True
  have "make_http_res fs (in_recv_buf (http_request m path rest)) \<noteq> None"
  proof (cases "page_fits fs path")
    case fits: True
    then show ?thesis using make_http_res_page [OF assms True fits] by auto
  next
    case False
    then obtain c where c: "fs (wwwroot @ path) = Some c" "\<not> length c \<le> file_limit"
      by (auto simp: page_fits_def split: option.splits)
    then have "c \<noteq> []" by auto
    then show ?thesis using make_http_res_file [where fs = fs, OF assms True c(1)] c by simp
  qed
  then show ?thesis using True by simp
next
  case False
  have w: "is_word m" "is_word path"
    and req: "0 \<notin> set (http_request m path rest)" "length (http_request m path rest) < http_buf_size"
    using assms by (simp_all add: ok_request_def)
  have "Option.bind (get_file (http_request m path rest)) make_filename = None"
    using request_filename [OF w] False by simp
  then have "make_http_res fs (in_recv_buf (http_request m path rest)) = None"
    by (auto simp: make_http_res_def c_str_recv_buf [OF req] split: Option.bind_split)
  then show ?thesis using False by simp
qed

theorem long_path_overflow_iff_witness:
  "make_http_res sample_files (in_recv_buf (http_request [0x47] (replicate 249 0x61) [newline])) = None"
proof -
  have "ok_request [0x47] (replicate 249 0x61) [newline]"
    by (simp add: ok_request_def http_request_def is_word_def is_space_def http_buf_size_def
        space_def newline_def)
  from long_path_overflow_iff [OF this] show ?thesis by simp
qed

end
