(* ===== verification/HttpClient.thy ===== *)
theory HttpClient
  imports HttpProps
begin

text \<open>
  The HTTP client (\<^verbatim>\<open>http_server/src/http_client/w_client.c\<close>): the request it builds and what
  it prints of the reply. \<open>None\<close> is undefined behaviour.
\<close>

definition client_buf_size :: nat where
  "client_buf_size = 1024"

definition make_get :: "nat \<Rightarrow> byte list \<Rightarrow> (cbuf \<times> nat) option" where
  "make_get max_size file =
     do {
       s1 \<leftarrow> put_line (ascii ''GET '' @ file @ ascii '' HTTP/1.1'' @ crlf) (zeros max_size, 0);
       s2 \<leftarrow> put_line (ascii ''Host: localhost'' @ crlf) s1;
       put_line (ascii ''Connection: Keep-Alive'' @ crlf @ crlf) s2
     }"

definition index_html :: "byte list" where
  "index_html = ascii ''/index.html''"

text \<open>
  The file asked for: \<open>argv\<close> are the arguments, the program's name first. With no argument
  \<^verbatim>\<open>argv[1]\<close> is \<^verbatim>\<open>NULL\<close>, which \<^verbatim>\<open>sprintf\<close> must not be given.
\<close>

definition client_file :: "byte list list \<Rightarrow> byte list option" where
  "client_file argv = (if length argv = 1 then None else Some index_html)"

definition client_request :: "byte list list \<Rightarrow> byte list option" where
  "client_request argv =
     do {
       file \<leftarrow> client_file argv;
       (buf, n) \<leftarrow> make_get client_buf_size file;
       rd_bytes buf 0 n
     }"

text \<open>One \<^verbatim>\<open>read\<close> of at most 1023 bytes, printed as a string.\<close>

definition client_prints :: "byte list \<Rightarrow> byte list option" where
  "client_prints reply =
     (let d = take (client_buf_size - 1) reply in c_str (d @ zeros (client_buf_size - length d)) 0)"

section \<open>Client and server\<close>

definition get_rest :: "byte list" where
  "get_rest = ascii ''HTTP/1.1'' @ crlf @ ascii ''Host: localhost'' @ crlf
     @ ascii ''Connection: Keep-Alive'' @ crlf @ crlf"

lemma put_line_first:
  "length line < 256 \<Longrightarrow> length line \<le> m \<Longrightarrow>
    put_line line (zeros m, 0) = Some (line @ zeros (m - length line), length line)"
  using put_line_zeros [of line m 0 "[]"] by simp

lemma make_get_text:
  assumes "length file < 200"
  shows "make_get client_buf_size file =
    Some (http_request (ascii ''GET'') file get_rest
        @ zeros (client_buf_size - length (http_request (ascii ''GET'') file get_rest)),
      length (http_request (ascii ''GET'') file get_rest))"
proof -
  have "http_request (ascii ''GET'') file get_rest =
      (ascii ''GET '' @ file @ ascii '' HTTP/1.1'' @ crlf) @ (ascii ''Host: localhost'' @ crlf)
      @ ascii ''Connection: Keep-Alive'' @ crlf @ crlf"
    by (simp add: http_request_def get_rest_def ascii_def space_def)
  then show ?thesis
    using assms
    by (simp add: make_get_def put_line_first put_line_zeros client_buf_size_def del: append_assoc)
qed

lemma client_request_index:
  "length argv \<noteq> 1 \<Longrightarrow> client_request argv = Some (http_request (ascii ''GET'') index_html get_rest)"
  by (simp add: client_request_def client_file_def make_get_text index_html_def rd_bytes_def)

lemma ok_client_request: "ok_request (ascii ''GET'') index_html get_rest" "length index_html < 249"
  by (simp_all add: ok_request_def is_word_def index_html_def get_rest_def http_request_def ascii_def
      is_space_def space_def crlf_def http_buf_size_def)

text \<open>Whatever arguments it is given, the client asks for \<open>/index.html\<close>: a connection of the
  server answers its request with that page, and the client prints the first 1023 bytes of it, up
  to a zero byte. Without an argument its behaviour is undefined.\<close>

theorem client_gets_index:
  assumes "conns l fd = Some ForRead" "page_fits fs index_html"
  shows "client_request argv = (if length argv = 1 then None
      else Some (http_request (ascii ''GET'') index_html get_rest))
    \<and> (\<exists>l'. http_run fs l [RecvData fd (http_request (ascii ''GET'') index_html get_rest),
          SendReady fd (int (length (page fs index_html)))]
        = Some (Returns (l', [(fd, page fs index_html)])))
    \<and> client_prints (page fs index_html)
        = Some (takeWhile (\<lambda>b. b \<noteq> 0) (take 1023 (page fs index_html)))"
proof -
  have r: "client_request argv = (if length argv = 1 then None
      else Some (http_request (ascii ''GET'') index_html get_rest))"
    using client_request_index [of argv] by (simp add: client_request_def client_file_def)
  have "ok_exchange fs l (fd, ascii ''GET'', index_html, get_rest)"
    using assms ok_client_request by (simp add: ok_exchange_def)
  with exchanges_run [of "[(fd, ascii ''GET'', index_html, get_rest)]" fs l] have
    s: "\<exists>l'. http_run fs l [RecvData fd (http_request (ascii ''GET'') index_html get_rest),
          SendReady fd (int (length (page fs index_html)))]
        = Some (Returns (l', [(fd, page fs index_html)]))"
    by (simp add: exchange_def del: http_run.simps)
  let ?d = "take 1023 (page fs index_html)"
  have "1024 - length ?d = Suc (1023 - length ?d)" by simp
  then have z: "zeros (1024 - length ?d) = 0 # zeros (1023 - length ?d)" by (simp only: zeros_Suc)
  have all: "takeWhile (\<lambda>b. b \<noteq> 0) ?d = ?d" if "0 \<notin> set ?d"
    using that by (subst takeWhile_eq_all_conv) auto
  have "takeWhile (\<lambda>b. b \<noteq> 0) (?d @ 0 # zeros (1023 - length ?d)) = takeWhile (\<lambda>b. b \<noteq> 0) ?d"
  proof (cases "0 \<in> set ?d")
    case True
    then show ?thesis by (rule takeWhile_append1) simp
  next
    case False
    show ?thesis unfolding takeWhile_not_nul [OF False] all [OF False] ..
  qed
  then have "client_prints (page fs index_html) = Some (takeWhile (\<lambda>b. b \<noteq> 0) ?d)"
    unfolding client_prints_def client_buf_size_def Let_def using z by (simp add: c_str_def)
  with r s show ?thesis by blast
qed

theorem client_gets_index_witness:
  "client_request [ascii ''client'', ascii ''/other.html''] = (if length [ascii ''client'', ascii ''/other.html''] = 1
      then None else Some (http_request (ascii ''GET'') index_html get_rest))
    \<and> (\<exists>l'. http_run Map.empty \<lparr>recv_buf = zeros http_buf_size, conns = [4 \<mapsto> ForRead]\<rparr>
          [RecvData 4 (http_request (ascii ''GET'') index_html get_rest),
           SendReady 4 (int (length (page Map.empty index_html)))]
        = Some (Returns (l', [(4, page Map.empty index_html)])))
    \<and> client_prints (page Map.empty index_html)
        = Some (takeWhile (\<lambda>b. b \<noteq> 0) (take 1023 (page Map.empty index_html)))"
  by (rule client_gets_index) (simp_all add: page_fits_def)

end
