(* ===== verification/HttpClients.thy ===== *)
theory HttpClients
  imports HttpClient
begin

text \<open>
  The HTTP client programs from start to exit: \<^verbatim>\<open>main\<close> of \<^verbatim>\<open>http_client/w_client.c\<close> and of its older
  copy \<^verbatim>\<open>bak/w_client.c\<close>, which takes the host and the port as arguments. \<open>None\<close> is undefined
  behaviour.
\<close>

section \<open>The network as a client sees it\<close>

type_synonym endpoint = "byte list \<times> nat"

text \<open>
  The answers to \<^verbatim>\<open>socket\<close>, \<^verbatim>\<open>gethostbyname\<close> (the four bytes of the first address),
  \<^verbatim>\<open>connect\<close>, \<^verbatim>\<open>write\<close> and \<^verbatim>\<open>read\<close> (\<open>None\<close>: it fails).
\<close>

record http_net =
  net_socket :: int
  net_host :: "byte list \<Rightarrow> byte list option"
  net_connect :: "endpoint \<Rightarrow> int"
  net_write :: "byte list \<Rightarrow> int"
  net_read :: "byte list option"

text \<open>What a run leaves: the exit code, the connection made, the request sent, the text printed.\<close>

record client_run =
  exit_code :: int
  connected_to :: "endpoint option"
  request_sent :: "byte list option"
  page_printed :: "byte list option"

text \<open>\<^verbatim>\<open>error(msg)\<close> and the other ways out exit with 0.\<close>

definition gives_up :: client_run where
  "gives_up = \<lparr>exit_code = 0, connected_to = None, request_sent = None, page_printed = None\<rparr>"

section \<open>The client\<close>

definition server_ip :: "byte list" where
  "server_ip = ascii ''127.0.0.1''"

definition server_port :: int where
  "server_port = 8888"

text \<open>\<^verbatim>\<open>htons\<close> keeps 16 bits of the port.\<close>

definition endpoint_of :: "byte list \<Rightarrow> int \<Rightarrow> endpoint" where
  "endpoint_of addr portno = (addr, nat (portno mod 2 ^ 16))"

definition http_client_main :: "http_net \<Rightarrow> byte list list \<Rightarrow> client_run option" where
  "http_client_main net argv =
     (if net_socket net < 0 then Some gives_up
      else
        (case net_host net server_ip of
           None \<Rightarrow> Some gives_up
         | Some addr \<Rightarrow>
             (let target = endpoint_of addr server_port in
              if net_connect net target < 0 then Some gives_up
              else do {
                file \<leftarrow> client_file argv;
                (buf, hd_size) \<leftarrow> make_get client_buf_size file;
                request \<leftarrow> rd_bytes buf 0 hd_size;
                if net_write net request < 0 then Some (gives_up\<lparr>connected_to := Some target\<rparr>)
                else
                  (case net_read net of
                     None \<Rightarrow> Some (gives_up\<lparr>connected_to := Some target, request_sent := Some request\<rparr>)
                   | Some reply \<Rightarrow> do {
                       text \<leftarrow> client_prints reply;
                       Some \<lparr>exit_code = 0, connected_to = Some target, request_sent = Some request,
                         page_printed = Some text\<rparr>
                     })
              })))"

section \<open>The older client\<close>

definition bak_client_buf_size :: nat where
  "bak_client_buf_size = 1024"

definition bak_make_get :: "nat \<Rightarrow> byte list \<Rightarrow> (cbuf \<times> nat) option" where
  "bak_make_get max_size file =
     do {
       s1 \<leftarrow> put_line (ascii ''GET '' @ file @ ascii '' HTTP/1.1'' @ crlf) (zeros max_size, 0);
       s2 \<leftarrow> put_line (ascii ''Host: localhost'' @ crlf) s1;
       put_line (ascii ''Connection: Keep-Alive'' @ crlf @ crlf) s2
     }"

text \<open>\<^verbatim>\<open>atoi\<close> of a number out of the range of an int is undefined.\<close>

definition bak_client_main :: "http_net \<Rightarrow> byte list list \<Rightarrow> client_run option" where
  "bak_client_main net argv =
     (if length argv < 3 then Some gives_up
      else if \<not> int_range (atoi (argv ! 2)) then None
      else if net_socket net < 0 then Some gives_up
      else
        (case net_host net (argv ! 1) of
           None \<Rightarrow> Some gives_up
         | Some addr \<Rightarrow>
             (let target = endpoint_of addr (atoi (argv ! 2)) in
              if net_connect net target < 0 then Some gives_up
              else do {
                (buf, hd_size) \<leftarrow> bak_make_get bak_client_buf_size (ascii ''/index.html'');
                request \<leftarrow> rd_bytes buf 0 hd_size;
                if net_write net request < 0 then Some (gives_up\<lparr>connected_to := Some target\<rparr>)
                else
                  (case net_read net of
                     None \<Rightarrow> Some (gives_up\<lparr>connected_to := Some target, request_sent := Some request\<rparr>)
                   | Some reply \<Rightarrow>
                       (let d = take (bak_client_buf_size - 1) reply in
                        map_option
                          (\<lambda>text. \<lparr>exit_code = 0, connected_to = Some target, request_sent = Some request,
                             page_printed = Some text\<rparr>)
                          (c_str (d @ zeros (bak_client_buf_size - length d)) 0)))
              })))"

section \<open>The two clients\<close>

lemma client_prints_total: "\<exists>text. client_prints reply = Some text"
proof -
  let ?d = "take 1023 reply"
  have "0 \<in> set (?d @ zeros (1024 - length ?d))" by (simp add: zeros_def)
  then show ?thesis by (simp add: client_prints_def client_buf_size_def c_str_def Let_def)
qed

text \<open>The request of every run that comes so far.\<close>

definition index_request :: "byte list" where
  "index_request = http_request (ascii ''GET'') index_html get_rest"

lemma http_client_main_eq:
  assumes "length argv \<noteq> 1" "0 \<le> net_socket net" "net_host net server_ip = Some addr"
    and "0 \<le> net_connect net (endpoint_of addr server_port)" "0 \<le> net_write net index_request"
  shows "http_client_main net argv = (case net_read net of
      None \<Rightarrow> Some (gives_up\<lparr>connected_to := Some (endpoint_of addr server_port), request_sent := Some index_request\<rparr>)
    | Some reply \<Rightarrow> Some \<lparr>exit_code = 0, connected_to = Some (endpoint_of addr server_port),
        request_sent = Some index_request, page_printed = client_prints reply\<rparr>)"
proof -
  have f: "client_file argv = Some index_html" using assms(1) by (simp add: client_file_def)
  obtain buf n where g: "make_get client_buf_size index_html = Some (buf, n)" "rd_bytes buf 0 n = Some index_request"
    using client_request_index [OF assms(1)] f by (auto simp: client_request_def index_request_def split: Option.bind_splits)
  show ?thesis
  proof (cases "net_read net")
    case None
    then show ?thesis using assms f g by (simp add: http_client_main_def Let_def)
  next
    case (Some reply)
    obtain t where "client_prints reply = Some t" using client_prints_total by blast
    then show ?thesis using Some assms f g by (simp add: http_client_main_def Let_def)
  qed
qed

lemma bak_client_same:
  assumes "length argv \<noteq> 1"
  shows "bak_client_main net [prog, server_ip, dec_int server_port] = http_client_main net argv"
proof -
  have a: "atoi (dec_int server_port) = server_port" using atoi_dec_int [of "[]"] by simp
  have r: "int_range server_port" by (simp add: server_port_def int_range_def)
  have m: "bak_make_get bak_client_buf_size = make_get client_buf_size"
    by (simp add: fun_eq_iff bak_make_get_def make_get_def bak_client_buf_size_def client_buf_size_def)
  have c: "(let d = take (bak_client_buf_size - 1) reply in
      map_option f (c_str (d @ zeros (bak_client_buf_size - length d)) 0)) = Option.bind (client_prints reply) (\<lambda>t. Some (f t))"
    for reply and f :: "byte list \<Rightarrow> client_run"
    by (simp add: client_prints_def bak_client_buf_size_def client_buf_size_def Let_def map_conv_bind_option o_def)
  have f: "client_file argv = Some (ascii ''/index.html'')" using assms by (simp add: client_file_def index_html_def)
  show ?thesis
    unfolding bak_client_main_def http_client_main_def c m f
    by (cases "net_host net server_ip") (simp_all add: a r Let_def)
qed

lemma http_client_exits_0: "http_client_main net argv = Some r \<Longrightarrow> exit_code r = 0"
  by (auto simp: http_client_main_def gives_up_def Let_def split: if_splits option.splits Option.bind_splits prod.splits)

text \<open>C29: Given the address and port that the client has as constants, the older client does what the client
  does with any arguments: on every network the two connect, ask and print alike. Both ask for
  \<open>/index.html\<close> whatever they are given, and both report success to the shell on every error,
  so that the exit code says nothing about the page.\<close>

theorem clients_agree:
  assumes "length argv \<noteq> 1"
  shows "bak_client_main net [prog, server_ip, dec_int server_port] = http_client_main net argv
    \<and> (\<exists>r. http_client_main net argv = Some r \<and> exit_code r = 0
        \<and> (request_sent r = None \<or> request_sent r = Some index_request)
        \<and> (page_printed r \<noteq> None \<longrightarrow> (\<exists>reply. net_read net = Some reply \<and> page_printed r = client_prints reply)))"
proof -
  have "\<exists>r. http_client_main net argv = Some r \<and> exit_code r = 0
        \<and> (request_sent r = None \<or> request_sent r = Some index_request)
        \<and> (page_printed r \<noteq> None \<longrightarrow> (\<exists>reply. net_read net = Some reply \<and> page_printed r = client_prints reply))"
  proof (cases "net_host net server_ip")
    case None
    then show ?thesis by (simp add: http_client_main_def gives_up_def)
  next
    case (Some addr)
    note a = Some
    have f: "client_file argv = Some index_html" using assms by (simp add: client_file_def)
    obtain buf n where g: "make_get client_buf_size index_html = Some (buf, n)" "rd_bytes buf 0 n = Some index_request"
      using client_request_index [OF assms] f by (auto simp: client_request_def index_request_def split: Option.bind_splits)
    consider "net_socket net < 0 \<or> net_connect net (endpoint_of addr server_port) < 0 \<or> net_write net index_request < 0"
      | "0 \<le> net_socket net" "0 \<le> net_connect net (endpoint_of addr server_port)" "0 \<le> net_write net index_request"
      by linarith
    then show ?thesis
    proof cases
      case 1
      then show ?thesis using a f g by (auto simp: http_client_main_def gives_up_def Let_def)
    next
      case 2
      then show ?thesis using http_client_main_eq [OF assms 2(1) a 2(2,3)]
        by (cases "net_read net") (simp_all add: gives_up_def)
    qed
  qed
  then show ?thesis using bak_client_same [OF assms] by blast
qed

definition dead_host :: http_net where
  "dead_host = \<lparr>net_socket = 3, net_host = \<lambda>_. Some [127, 0, 0, 1], net_connect = \<lambda>_. -1, net_write = int \<circ> length,
     net_read = None\<rparr>"

theorem clients_agree_witness:
  "bak_client_main dead_host [[0x63], server_ip, dec_int server_port] = http_client_main dead_host [[0x63], [0x2f]]
    \<and> (\<exists>r. http_client_main dead_host [[0x63], [0x2f]] = Some r \<and> exit_code r = 0
        \<and> (request_sent r = None \<or> request_sent r = Some index_request)
        \<and> (page_printed r \<noteq> None \<longrightarrow>
            (\<exists>reply. net_read dead_host = Some reply \<and> page_printed r = client_prints reply)))"
  by (rule clients_agree) simp

section \<open>A client and the server\<close>

text \<open>On a network that works, with a connection of the epoll server at the other end, the old
  client prints the start of the server's page.\<close>

lemma old_client_served:
  assumes "conns l fd = Some ForRead" "page_fits fs index_html"
    and "0 \<le> net_socket net" "net_host net server_ip = Some addr"
    and "0 \<le> net_connect net (endpoint_of addr server_port)" "0 \<le> net_write net index_request"
    and "net_read net = Some (page fs index_html)"
  shows "\<exists>r l'. bak_client_main net [prog, server_ip, dec_int server_port] = Some r
    \<and> request_sent r = Some index_request
    \<and> http_run fs l [RecvData fd index_request, SendReady fd (int (length (page fs index_html)))]
        = Some (Returns (l', [(fd, page fs index_html)]))
    \<and> page_printed r = client_prints (page fs index_html)"
proof -
  have n: "length [prog, server_ip] \<noteq> 1" by simp
  have "ok_exchange fs l (fd, ascii ''GET'', index_html, get_rest)"
    using assms(1,2) ok_client_request by (simp add: ok_exchange_def)
  with exchanges_run [of "[(fd, ascii ''GET'', index_html, get_rest)]" fs l] have
    "\<exists>l'. http_run fs l [RecvData fd index_request, SendReady fd (int (length (page fs index_html)))]
        = Some (Returns (l', [(fd, page fs index_html)]))"
    by (simp add: exchange_def index_request_def del: http_run.simps)
  then show ?thesis
    using bak_client_same [OF n] http_client_main_eq [OF n assms(3-6)] assms(7) by simp
qed

end
