(* ===== verification/BakServer.thy ===== *)
theory BakServer
  imports HttpServer
begin

text \<open>
  The blocking HTTP server that the epoll server replaced (\<^verbatim>\<open>http_server/bak/w_server.c\<close>). Its
  functions are those of \<^verbatim>\<open>w_httpserver.cpp\<close> with buffers of 1024 bytes; its header buffer has
  256. \<open>None\<close> is undefined behaviour, an exit is a value.
\<close>

section \<open>Building a response\<close>

definition bak_buf_size :: nat where
  "bak_buf_size = 1024"

definition bak_header_size :: nat where
  "bak_header_size = 256"

definition bak_get_file :: "byte list \<Rightarrow> byte list option" where
  "bak_get_file request =
     (case get_token request of
        None \<Rightarrow> Some []
      | Some (m, r) \<Rightarrow>
          (case get_token r of
             None \<Rightarrow> Some []
           | Some (path, r') \<Rightarrow> if length path < bak_buf_size then Some path else None))"

definition bak_make_filename :: "byte list \<Rightarrow> byte list option" where
  "bak_make_filename file =
     (if length (wwwroot @ file) < bak_buf_size then Some (wwwroot @ file) else None)"

text \<open>\<^verbatim>\<open>memset(buf, 0, max_size)\<close> clears \<open>max_size\<close> bytes, whatever the size of \<open>buf\<close>.\<close>

definition bak_make_header :: "cbuf \<Rightarrow> nat \<Rightarrow> int \<Rightarrow> byte list \<Rightarrow> int \<Rightarrow> (cbuf \<times> nat) option" where
  "bak_make_header buf max_size res_code ct_type ct_size =
     do {
       b0 \<leftarrow> wr_bytes buf 0 (zeros max_size);
       s1 \<leftarrow> put_line (ascii ''HTTP/1.1 '' @ dec_int res_code @ ascii '' OK'' @ crlf) (b0, 0);
       s2 \<leftarrow> put_line (ascii ''Server: http-server/0.1.0'' @ crlf) s1;
       s3 \<leftarrow> put_line (ascii ''Content-Type: '' @ ct_type @ crlf) s2;
       put_line (ascii ''Content-Length: '' @ dec_int ct_size @ crlf @ crlf) s3
     }"

definition bak_get_code :: "(byte list \<Rightarrow> int) \<Rightarrow> byte list \<Rightarrow> int" where
  "bak_get_code access filename = (if access (ascii ''index.html'') \<noteq> 0 then 200 else 404)"

definition bak_read_content :: "files \<Rightarrow> byte list \<Rightarrow> int \<times> cbuf" where
  "bak_read_content fs = read_content fs bak_buf_size"

definition bak_read_404 :: "files \<Rightarrow> int \<times> cbuf" where
  "bak_read_404 fs = read_404 fs bak_buf_size"

text \<open>With a negative \<open>ct_size\<close> (no 404 page) \<^verbatim>\<open>memcpy\<close> gets a huge size.\<close>

definition bak_make_body :: "cbuf \<Rightarrow> nat \<Rightarrow> cbuf \<Rightarrow> int \<Rightarrow> (cbuf \<times> nat) outcome option" where
  "bak_make_body hd_buf hd_size ct_buf ct_size =
     (if int hd_size + ct_size > int bak_buf_size then Some (Exits 1)
      else if ct_size < 0 then None
      else make_body bak_buf_size hd_buf hd_size ct_buf (nat ct_size))"

section \<open>The server\<close>

text \<open>The state of the loop: the header buffer and what \<open>read_404\<close> gave at the start.\<close>

record bak_loop =
  bak_hd_buf :: cbuf
  bak_ct_404 :: "int \<times> cbuf"

text \<open>
  One turn: the results of \<^verbatim>\<open>accept\<close>, \<^verbatim>\<open>read\<close> (\<open>None\<close> for an error) and \<^verbatim>\<open>write\<close>. The new
  header buffer and the reply; the connection is never closed.
\<close>

definition bak_turn :: "files \<Rightarrow> bak_loop \<Rightarrow> int \<Rightarrow> byte list option \<Rightarrow> int \<Rightarrow>
    (bak_loop \<times> byte list) outcome option" where
  "bak_turn fs l newsockfd got n =
     (if newsockfd < 0 then Some (Exits 1)
      else (case got of
        None \<Rightarrow> Some (Exits 1)
      | Some bytes \<Rightarrow>
          do {
            request \<leftarrow> (let d = take (bak_buf_size - 1) bytes in c_str (d @ zeros (bak_buf_size - length d)) 0);
            file \<leftarrow> bak_get_file request;
            filename \<leftarrow> bak_make_filename file;
            (ct_size, ct_buf) \<leftarrow> Some (bak_read_content fs filename);
            (hd_buf, hd_size) \<leftarrow> bak_make_header (bak_hd_buf l) bak_buf_size
              (if ct_size > 0 then 200 else 404) text_html ct_size;
            body \<leftarrow> (if ct_size > 0 then bak_make_body hd_buf hd_size ct_buf ct_size
              else bak_make_body hd_buf hd_size (snd (bak_ct_404 l)) (fst (bak_ct_404 l)));
            (case body of
               Exits c \<Rightarrow> Some (Exits c)
             | Returns (b, sz) \<Rightarrow>
                 if n < 0 then Some (Exits 1)
                 else Some (Returns (l\<lparr>bak_hd_buf := hd_buf\<rparr>, take (nat n) (take sz b))))
          }))"

text \<open>
  \<^verbatim>\<open>main\<close> up to the loop: an exit code, or the port and the state of the loop. \<open>raw\<close> is the
  uninitialised header buffer. The result of \<^verbatim>\<open>listen\<close> is not looked at.
\<close>

definition bak_main :: "files \<Rightarrow> byte list list \<Rightarrow> cbuf \<Rightarrow> int \<Rightarrow> int \<Rightarrow> (int \<times> bak_loop) outcome" where
  "bak_main fs argv raw sockfd bind_res =
     (if length argv < 2 then Exits 1
      else if sockfd < 0 then Exits 1
      else if bind_res < 0 then Exits 1
      else Returns (atoi (argv ! 1), \<lparr>bak_hd_buf = raw, bak_ct_404 = bak_read_404 fs\<rparr>))"

fun bak_run :: "files \<Rightarrow> bak_loop \<Rightarrow> (int \<times> byte list option \<times> int) list \<Rightarrow> byte list list outcome option" where
  "bak_run fs l [] = Some (Returns [])"
| "bak_run fs l ((fd, got, n) # es) =
     (case bak_turn fs l fd got n of
        None \<Rightarrow> None
      | Some (Exits c) \<Rightarrow> Some (Exits c)
      | Some (Returns (l', out)) \<Rightarrow>
          (case bak_run fs l' es of Some (Returns outs) \<Rightarrow> Some (Returns (out # outs)) | r \<Rightarrow> r))"

section \<open>The header does not fit\<close>

lemma bak_make_header_overflow:
  "length buf < max_size \<Longrightarrow> bak_make_header buf max_size code ct_type n = None"
  by (simp add: bak_make_header_def wr_bytes_def)

text \<open>The superseded server never answers a request: it clears 1024 bytes of its header buffer of 256,
  so that the first request it can read is undefined behaviour, whatever is asked for and
  whatever the files; before that it can only exit.\<close>

theorem first_request_overflows:
  assumes "bak_main fs argv raw sockfd bind_res = Returns (port, l)" "length raw = bak_header_size"
  shows "bak_run fs l ((fd, got, n) # es) = (if 0 \<le> fd \<and> got \<noteq> None then None else Some (Exits 1))"
proof -
  have h: "length (bak_hd_buf l) < bak_buf_size"
    using assms by (auto simp: bak_main_def bak_buf_size_def bak_header_size_def split: if_splits)
  have "bak_turn fs l fd got n = (if 0 \<le> fd \<and> got \<noteq> None then None else Some (Exits 1))"
    by (auto simp: bak_turn_def bak_make_header_overflow [OF h] Let_def split: option.split Option.bind_split prod.split)
  then show ?thesis by simp
qed

theorem first_request_overflows_witness:
  "bak_run Map.empty \<lparr>bak_hd_buf = zeros bak_header_size, bak_ct_404 = bak_read_404 Map.empty\<rparr>
      ((4, Some (http_request [0x47] [0x2f] []), 10) # []) =
    (if 0 \<le> (4 :: int) \<and> Some (http_request [0x47] [0x2f] []) \<noteq> None then None else Some (Exits 1))"
  by (rule first_request_overflows [where argv = "[[], [0x38]]" and raw = "zeros bak_header_size" and sockfd = 3
        and bind_res = 0 and port = "atoi [0x38]"])
    (simp_all add: bak_main_def)

end
