(* ===== verification/Sockets.thy ===== *)
theory Sockets
  imports CText
begin

text \<open>
  Setting up TCP sockets on the one machine that all addresses of the file transfer name
  (\<^verbatim>\<open>start_server\<close> of the two servers, \<^verbatim>\<open>Connect2Server\<close> of the client and of the reading
  processes). The kernel's answers are arguments; what they do to the descriptors of the
  process and to the ports that are listened on is part of the state.
\<close>

section \<open>Descriptors and ports\<close>

datatype sock_state = Unbound | BoundTo nat | Listening nat nat | ConnectedTo nat

type_synonym socks = "int \<rightharpoonup> sock_state"

text \<open>What the calls answer; \<open>bind_res\<close> is the answer for a port that nobody listens on.\<close>

record tcp_env =
  socket_res :: int
  bind_res :: int
  listen_res :: int
  connect_res :: int

definition tcp_ok :: "int \<Rightarrow> tcp_env" where
  "tcp_ok fd = \<lparr>socket_res = fd, bind_res = 0, listen_res = 0, connect_res = 0\<rparr>"

section \<open>Servers\<close>

definition STORAGE_SERVER_PORT :: nat where
  "STORAGE_SERVER_PORT = 4099"

definition TRANSFER_PORT :: nat where
  "TRANSFER_PORT = 10231"

definition MAX_ACCEPT_CONNECTION :: nat where
  "MAX_ACCEPT_CONNECTION = 5"

definition TS_MAX_ACCEPT_CONNECTION :: nat where
  "TS_MAX_ACCEPT_CONNECTION = 5"

text \<open>
  The result, \<^verbatim>\<open>*listenfd\<close>, the descriptors and the ports; the socket is not closed when a
  later call fails. The two servers have the same text but for the constants.
\<close>

definition start_listening :: "nat \<Rightarrow> nat \<Rightarrow> tcp_env \<Rightarrow> socks \<Rightarrow> nat list \<Rightarrow> int \<times> int \<times> socks \<times> nat list" where
  "start_listening port backlog e s ports =
     (let fd = socket_res e in
      if fd < 0 then (-1, fd, s, ports)
      else let s1 = s(fd \<mapsto> Unbound) in
      if bind_res e < 0 \<or> port \<in> set ports then (-1, fd, s1, ports)
      else let s2 = s1(fd \<mapsto> BoundTo port) in
      if listen_res e < 0 then (-1, fd, s2, ports)
      else (0, fd, s2(fd \<mapsto> Listening port backlog), port # ports))"

definition start_server :: "tcp_env \<Rightarrow> socks \<Rightarrow> nat list \<Rightarrow> int \<times> int \<times> socks \<times> nat list" where
  "start_server = start_listening STORAGE_SERVER_PORT MAX_ACCEPT_CONNECTION"

definition ts_start_server :: "tcp_env \<Rightarrow> socks \<Rightarrow> nat list \<Rightarrow> int \<times> int \<times> socks \<times> nat list" where
  "ts_start_server = start_listening TRANSFER_PORT TS_MAX_ACCEPT_CONNECTION"

definition started :: "nat \<Rightarrow> tcp_env \<Rightarrow> nat list \<Rightarrow> bool" where
  "started port e ports \<longleftrightarrow>
     0 \<le> socket_res e \<and> 0 \<le> bind_res e \<and> port \<notin> set ports \<and> 0 \<le> listen_res e"

lemma start_listening_cases:
  "start_listening port backlog e s ports = (r, fd, s', ports') \<Longrightarrow>
    (if started port e ports
     then r = 0 \<and> fd = socket_res e \<and> s' = s(fd \<mapsto> Listening port backlog) \<and> ports' = port # ports
     else r = -1 \<and> ports' = ports)"
  by (auto simp: start_listening_def started_def Let_def split: if_splits)

section \<open>Clients\<close>

definition dot_char :: byte where
  "dot_char = 0x2e"

text \<open>\<^verbatim>\<open>inet_pton(AF_INET, \<dots>)\<close>: four decimal numbers below 256 without leading zeros.\<close>

definition octet :: "byte list \<Rightarrow> nat option" where
  "octet t =
     (if t \<noteq> [] \<and> length t \<le> 3 \<and> list_all is_digit t \<and> (hd t \<noteq> 0x30 \<or> length t = 1)
         \<and> digits_val 0 t < 256
      then Some (digits_val 0 t) else None)"

fun octets :: "nat \<Rightarrow> byte list \<Rightarrow> nat list option" where
  "octets 0 t = None"
| "octets (Suc 0) t = map_option (\<lambda>n. [n]) (octet t)"
| "octets (Suc (Suc k)) t =
     (case dropWhile (\<lambda>b. b \<noteq> dot_char) t of
        [] \<Rightarrow> None
      | _ # r \<Rightarrow>
          do { n \<leftarrow> octet (takeWhile (\<lambda>b. b \<noteq> dot_char) t); ns \<leftarrow> octets (Suc k) r; Some (n # ns) })"

definition inet_pton :: "byte list \<Rightarrow> nat list option" where
  "inet_pton t = octets 4 t"

definition loopback :: "nat list" where
  "loopback = [127, 0, 0, 1]"

definition STORAGE_SERVER_IP :: "byte list" where
  "STORAGE_SERVER_IP = ascii ''127.0.0.1''"

definition TRANSFER_IP :: "byte list" where
  "TRANSFER_IP = STORAGE_SERVER_IP"

text \<open>
  \<^verbatim>\<open>connect\<close> succeeds when the kernel allows it and, on this machine, somebody listens on the
  port. The descriptor has been stored in \<^verbatim>\<open>*sockfd\<close> when a later call fails.
\<close>

definition Connect2Server :: "byte list \<Rightarrow> nat \<Rightarrow> tcp_env \<Rightarrow> socks \<Rightarrow> nat list \<Rightarrow> int \<times> int \<times> socks" where
  "Connect2Server ip port e s ports =
     (let fd = socket_res e in
      if fd < 0 then (-1, fd, s)
      else let s1 = s(fd \<mapsto> Unbound) in
      case inet_pton ip of
        None \<Rightarrow> (-1, fd, s1)
      | Some addr \<Rightarrow>
          if connect_res e < 0 \<or> (addr = loopback \<and> port \<notin> set ports) then (-1, fd, s1)
          else (0, fd, s1(fd \<mapsto> ConnectedTo port)))"

lemma inet_pton_ip [simp]: "inet_pton STORAGE_SERVER_IP = Some loopback" "inet_pton TRANSFER_IP = Some loopback"
  by code_simp+

definition connected_ok :: "nat \<Rightarrow> tcp_env \<Rightarrow> nat list \<Rightarrow> bool" where
  "connected_ok port e ports \<longleftrightarrow> 0 \<le> socket_res e \<and> 0 \<le> connect_res e \<and> port \<in> set ports"

lemma Connect2Server_cases:
  assumes "inet_pton ip = Some loopback"
  shows "Connect2Server ip port e s ports =
    (if connected_ok port e ports then (0, socket_res e, s(socket_res e \<mapsto> ConnectedTo port))
     else (-1, socket_res e, if socket_res e < 0 then s else s(socket_res e \<mapsto> Unbound)))"
  using assms by (auto simp: Connect2Server_def connected_ok_def Let_def)

section \<open>Sending on a kept connection\<close>

text \<open>
  \<open>SendData\<close> keeps its descriptor between calls. Bytes that are written to a socket that is not
  connected are lost; the result of \<^verbatim>\<open>write\<close> is not looked at. \<open>sent\<close> are the bytes of the
  connection. The alarm that closes an idle connection is \<open>sig_alarm\<close>.
\<close>

record sender =
  socket_fd :: int
  sender_socks :: socks
  sent :: "byte list"

definition new_sender :: sender where
  "new_sender = \<lparr>socket_fd = -1, sender_socks = Map.empty, sent = []\<rparr>"

definition write_sock :: "sender \<Rightarrow> byte list \<Rightarrow> sender" where
  "write_sock x buf =
     (case sender_socks x (socket_fd x) of
        Some (ConnectedTo _) \<Rightarrow> x\<lparr>sent := sent x @ buf\<rparr>
      | _ \<Rightarrow> x)"

definition SendData :: "tcp_env \<Rightarrow> nat list \<Rightarrow> sender \<Rightarrow> byte list \<Rightarrow> int \<times> sender" where
  "SendData e ports x buf =
     (if socket_fd x < 0 then
        (let (err, fd, s) = Connect2Server STORAGE_SERVER_IP STORAGE_SERVER_PORT e (sender_socks x) ports;
             x1 = x\<lparr>socket_fd := fd, sender_socks := s\<rparr>
         in if err \<noteq> 0 then (-1, x1) else (0, write_sock x1 buf))
      else (0, write_sock x buf))"

definition sig_alarm :: "sender \<Rightarrow> sender" where
  "sig_alarm x = x\<lparr>socket_fd := -1, sender_socks := (sender_socks x)(socket_fd x := None)\<rparr>"

definition linked :: "sender \<Rightarrow> bool" where
  "linked x \<longleftrightarrow> 0 \<le> socket_fd x \<and> sender_socks x (socket_fd x) = Some (ConnectedTo STORAGE_SERVER_PORT)"

lemma SendData_linked: "linked x \<Longrightarrow> SendData e ports x buf = (0, x\<lparr>sent := sent x @ buf\<rparr>)"
  by (simp add: linked_def SendData_def write_sock_def)

lemma SendData_connects:
  assumes "socket_fd x < 0" "connected_ok STORAGE_SERVER_PORT e ports"
  shows "\<exists>x'. SendData e ports x buf = (0, x') \<and> linked x' \<and> sent x' = sent x @ buf"
  using assms by (simp add: SendData_def Connect2Server_cases linked_def write_sock_def connected_ok_def)

fun SendAll :: "tcp_env \<Rightarrow> nat list \<Rightarrow> sender \<Rightarrow> byte list list \<Rightarrow> int list \<times> sender" where
  "SendAll e ports x [] = ([], x)"
| "SendAll e ports x (b # bs) =
     (let (r, x1) = SendData e ports x b; (rs, x2) = SendAll e ports x1 bs in (r # rs, x2))"

lemma SendAll_linked:
  "linked x \<Longrightarrow> SendAll e ports x bs = (replicate (length bs) 0, x\<lparr>sent := sent x @ concat bs\<rparr>)"
proof (induction bs arbitrary: x)
  case (Cons b bs)
  moreover have "linked (x\<lparr>sent := sent x @ b\<rparr>)" using Cons.prems by (simp add: linked_def)
  ultimately show ?case by (simp add: SendData_linked)
qed simp

lemma SendAll_stale:
  "0 \<le> socket_fd x \<Longrightarrow> sender_socks x (socket_fd x) = Some Unbound \<Longrightarrow>
    SendAll e ports x bs = (replicate (length bs) 0, x)"
  by (induction bs) (simp_all add: SendData_def write_sock_def)

end
