(* ===== verification/HttpListen.thy ===== *)
theory HttpListen
  imports HttpServer Sockets
begin

text \<open>
  The start of the HTTP server's \<^verbatim>\<open>run\<close> (\<^verbatim>\<open>w_epoll.cpp\<close>) and its listening socket, which is armed
  edge-triggered: the kernel reports it once for all the connections that have come since the
  last report, and the loop takes one connection per report.
\<close>

section \<open>Setting up\<close>

definition O_NONBLOCK :: int where
  "O_NONBLOCK = 2048"

text \<open>The two results of \<^verbatim>\<open>fcntl\<close>; the flags are set when the second succeeds.\<close>

definition setnonblocking :: "int \<Rightarrow> int \<Rightarrow> int \<times> int option" where
  "setnonblocking getfl setfl =
     (if getfl < 0 then (0, None)
      else if setfl < 0 then (0, None)
      else (1, Some (getfl OR O_NONBLOCK)))"

definition http_port :: nat where
  "http_port = 8888"

definition http_max_listen :: nat where
  "http_max_listen = 5"

definition create_and_bind :: "tcp_env \<Rightarrow> socks \<Rightarrow> nat list \<Rightarrow> (int \<times> socks \<times> nat list) outcome" where
  "create_and_bind e s ports =
     (let (err, r) = start_listening http_port http_max_listen e s ports in
      if err < 0 then Exits 1 else Returns r)"

text \<open>\<^verbatim>\<open>access\<close> returns 0 for a file that is there, so the page that exists gets the code 404; the
  file name is not looked at. Nothing calls this function.\<close>

definition get_code :: "(byte list \<Rightarrow> int) \<Rightarrow> byte list \<Rightarrow> int" where
  "get_code access filename = (if access (ascii ''index.html'') \<noteq> 0 then 200 else 404)"

text \<open>The connections that wait, by the descriptors they will get, and the report that is due.\<close>

record listener =
  waiting :: "int list"
  due :: bool

text \<open>
  \<^verbatim>\<open>run\<close> up to the loop, with the result of \<^verbatim>\<open>epoll_create\<close>: the socket, the state of the loop
  and of the listening socket. The result of \<^verbatim>\<open>epoll_ctl\<close> is not looked at.
\<close>

definition http_start :: "tcp_env \<Rightarrow> int \<Rightarrow> cbuf \<Rightarrow> (int \<times> http_loop \<times> listener) outcome" where
  "http_start e epfd raw =
     (case create_and_bind e Map.empty [] of
        Exits c \<Rightarrow> Exits c
      | Returns (sock_fd, s, ports) \<Rightarrow>
          if epfd \<le> 0 then Exits 1
          else Returns (sock_fd, \<lparr>recv_buf = raw, conns = Map.empty\<rparr>, \<lparr>waiting = [], due = False\<rparr>))"

section \<open>Accepting\<close>

text \<open>Clients that connect while the loop is busy or waits, and one turn of \<^verbatim>\<open>epoll_wait\<close>.\<close>

datatype listen_event = Connect "int list" | Wait

definition on_connect :: "listener \<Rightarrow> int list \<Rightarrow> listener" where
  "on_connect l fds = l\<lparr>waiting := waiting l @ fds, due := due l \<or> fds \<noteq> []\<rparr>"

text \<open>The descriptor that \<^verbatim>\<open>accept\<close> returns, when the socket is reported.\<close>

definition on_wait :: "listener \<Rightarrow> int option \<times> listener" where
  "on_wait l =
     (if due l then
        (case waiting l of
           [] \<Rightarrow> (None, l\<lparr>due := False\<rparr>)
         | fd # q \<Rightarrow> (Some fd, \<lparr>waiting = q, due = False\<rparr>))
      else (None, l))"

fun listen_run :: "listener \<Rightarrow> listen_event list \<Rightarrow> int list \<times> listener" where
  "listen_run l [] = ([], l)"
| "listen_run l (Connect fds # es) = listen_run (on_connect l fds) es"
| "listen_run l (Wait # es) =
     (let (a, l1) = on_wait l; (fds, l2) = listen_run l1 es in
      ((case a of None \<Rightarrow> fds | Some fd \<Rightarrow> fd # fds), l2))"

lemma listen_run_append:
  "listen_run l (xs @ ys) =
     (let (a, l1) = listen_run l xs; (b, l2) = listen_run l1 ys in (a @ b, l2))"
  by (induction l xs rule: listen_run.induct) (auto split: prod.split option.split)

lemma waits_idle: "\<not> due l \<Longrightarrow> listen_run l (replicate n Wait) = ([], l)"
  by (induction n) (simp_all add: on_wait_def)

fun batches :: "int list list \<Rightarrow> listen_event list" where
  "batches [] = []"
| "batches (b # bs) = Connect b # Wait # batches bs"

lemma batches_run:
  assumes "\<forall>b \<in> set bs. b \<noteq> []" "\<not> due l"
  shows "listen_run l (batches bs) =
    (take (length bs) (waiting l @ concat bs), l\<lparr>waiting := drop (length bs) (waiting l @ concat bs)\<rparr>)"
  using assms
proof (induction bs arbitrary: l)
  case Nil
  then show ?case by (cases l) simp
next
  case (Cons b bs)
  obtain fd q where w: "waiting l @ b = fd # q" using Cons.prems(1) by (cases "waiting l @ b") auto
  then have c: "waiting l @ b @ concat bs = fd # q @ concat bs" by (metis append.assoc append_Cons)
  let ?l = "\<lparr>waiting = q, due = False\<rparr>"
  have "on_wait (on_connect l b) = (Some fd, ?l)"
    using w Cons.prems(1) by (simp add: on_wait_def on_connect_def)
  moreover have "listen_run ?l (batches bs) =
      (take (length bs) (q @ concat bs), \<lparr>waiting = drop (length bs) (q @ concat bs), due = False\<rparr>)"
    using Cons.IH [of ?l] Cons.prems(1) by simp
  ultimately have "listen_run l (batches (b # bs)) = (take (length (b # bs)) (fd # q @ concat bs),
      l\<lparr>waiting := drop (length (b # bs)) (fd # q @ concat bs)\<rparr>)"
    using Cons.prems(2) by (cases l) simp
  then show ?case unfolding concat.simps c .
qed



end
