(* ===== verification/BakEpoll.thy ===== *)
theory BakEpoll
  imports HttpListen
begin

text \<open>
  The two epoll programs the HTTP server grew out of (\<^verbatim>\<open>http_server/bak/epoll.c\<close>, a server that
  answers how many bytes it has got, and \<^verbatim>\<open>epoll-example.c\<close>, one that prints what it reads and
  answers with a constant). The environment chooses the events and the results of the calls.
\<close>

section \<open>The counting server\<close>

definition bak_send_size :: nat where
  "bak_send_size = 100"

definition bak_create_and_bind :: "tcp_env \<Rightarrow> socks \<Rightarrow> nat list \<Rightarrow> (int \<times> socks \<times> nat list) outcome" where
  "bak_create_and_bind e s ports =
     (let (err, r) = start_listening 8888 5 e s ports in if err < 0 then Exits 1 else Returns r)"

text \<open>The two results of \<^verbatim>\<open>fcntl\<close>; nobody looks at the result.\<close>

definition bak_setnonblocking :: "int \<Rightarrow> int \<Rightarrow> int \<times> int option" where
  "bak_setnonblocking getfl setfl =
     (if getfl < 0 then (0, None)
      else if setfl < 0 then (0, None)
      else (1, Some (getfl OR O_NONBLOCK)))"

text \<open>\<open>recv_num\<close> is one variable for all connections, not initialised at the start.\<close>

record count_loop =
  recv_num :: "int option"
  armed_fds :: "int \<rightharpoonup> http_armed"

datatype count_event =
  CountAccept int
| CountRecv int int \<comment> \<open>descriptor, result of recv\<close>
| CountSend int int \<comment> \<open>descriptor, result of send\<close>

definition count_text :: "int \<Rightarrow> byte list" where
  "count_text n = ascii ''server proc got '' @ dec_int n @ ascii '' bytes'' @ [0x0a]"

definition count_accept :: "count_loop \<Rightarrow> int \<Rightarrow> count_loop outcome" where
  "count_accept l conn_fd =
     (if conn_fd < 0 then Exits 1
      else Returns (l\<lparr>armed_fds := (armed_fds l)(conn_fd \<mapsto> ForRead)\<rparr>))"

text \<open>After a failed call the descriptor is closed, and \<^verbatim>\<open>epoll_ctl\<close> on -1 changes nothing.\<close>

definition count_recv :: "count_loop \<Rightarrow> int \<Rightarrow> int \<Rightarrow> count_loop" where
  "count_recv l fd n =
     l\<lparr>recv_num := Some n, armed_fds := (armed_fds l)(fd := (if n \<le> 0 then None else Some ForWrite))\<rparr>"

definition count_send :: "count_loop \<Rightarrow> int \<Rightarrow> int \<Rightarrow> (count_loop \<times> reply) option" where
  "count_send l fd send_num =
     do {
       n \<leftarrow> recv_num l;
       b \<leftarrow> wr_bytes (zeros bak_send_size) 0 (count_text n @ [0]);
       t \<leftarrow> c_str b 0;
       Some (l\<lparr>armed_fds := (armed_fds l)(fd := (if send_num \<le> 0 then None else Some ForRead))\<rparr>, (fd, t))
     }"

fun count_step :: "count_loop \<Rightarrow> count_event \<Rightarrow> (count_loop \<times> reply list) outcome option" where
  "count_step l (CountAccept fd) =
     (case count_accept l fd of Exits c \<Rightarrow> Some (Exits c) | Returns l' \<Rightarrow> Some (Returns (l', [])))"
| "count_step l (CountRecv fd n) =
     (if armed_fds l fd = Some ForRead then Some (Returns (count_recv l fd n, [])) else Some (Returns (l, [])))"
| "count_step l (CountSend fd n) =
     (if armed_fds l fd = Some ForWrite
      then map_option (\<lambda>(l', out). Returns (l', [out])) (count_send l fd n) else Some (Returns (l, [])))"

fun count_run :: "count_loop \<Rightarrow> count_event list \<Rightarrow> (count_loop \<times> reply list) outcome option" where
  "count_run l [] = Some (Returns (l, []))"
| "count_run l (e # es) =
     (case count_step l e of
        Some (Returns (l1, out)) \<Rightarrow>
          (case count_run l1 es of
             Some (Returns (l2, outs)) \<Rightarrow> Some (Returns (l2, out @ outs))
           | r \<Rightarrow> r)
      | r \<Rightarrow> r)"

definition count_start :: count_loop where
  "count_start = \<lparr>recv_num = None, armed_fds = Map.empty\<rparr>"

text \<open>\<^verbatim>\<open>main\<close> up to its loop, with the result of \<^verbatim>\<open>epoll_create\<close>.\<close>

definition count_main :: "tcp_env \<Rightarrow> int \<Rightarrow> (int \<times> count_loop) outcome" where
  "count_main e epfd =
     (case bak_create_and_bind e Map.empty [] of
        Exits c \<Rightarrow> Exits c
      | Returns (sock_fd, s, ports) \<Rightarrow> if epfd \<le> 0 then Exits 1 else Returns (sock_fd, count_start))"

text \<open>\<open>recv\<close> returns at most the 100 bytes of the buffer.\<close>

definition recv_ok :: "count_event \<Rightarrow> bool" where
  "recv_ok e \<longleftrightarrow> (case e of CountRecv fd n \<Rightarrow> -1 \<le> n \<and> n \<le> 100 | CountAccept fd \<Rightarrow> 0 \<le> fd | CountSend fd n \<Rightarrow> True)"

text \<open>What the model of the answers is: each says what the last \<^verbatim>\<open>recv\<close> before it returned, on any
  connection, and goes to the connection that is ready.\<close>

fun last_counts :: "int \<Rightarrow> (int \<rightharpoonup> http_armed) \<Rightarrow> count_event list \<Rightarrow> reply list" where
  "last_counts n a [] = []"
| "last_counts n a (CountAccept fd # es) = last_counts n (a(fd \<mapsto> ForRead)) es"
| "last_counts n a (CountRecv fd m # es) =
     (if a fd = Some ForRead then last_counts m (a(fd := (if m \<le> 0 then None else Some ForWrite))) es
      else last_counts n a es)"
| "last_counts n a (CountSend fd m # es) =
     (if a fd = Some ForWrite
      then (fd, count_text n) # last_counts n (a(fd := (if m \<le> 0 then None else Some ForRead))) es
      else last_counts n a es)"

lemma count_text_fits:
  assumes "-1 \<le> n" "n \<le> 100"
  shows "0 \<notin> set (count_text n) \<and> length (count_text n) \<le> 40"
proof -
  have "\<bar>n\<bar> < 10 ^ 10" using assms by simp
  from dec_int_length [OF this] show ?thesis
    using dec_nat_no_nul by (simp add: count_text_def ascii_def dec_int_def)
qed

lemma count_send_ok:
  assumes "recv_num l = Some n" "-1 \<le> n" "n \<le> 100"
  shows "count_send l fd m =
    Some (l\<lparr>armed_fds := (armed_fds l)(fd := (if m \<le> 0 then None else Some ForRead))\<rparr>, (fd, count_text n))"
proof -
  note t = count_text_fits [OF assms(2,3)]
  have "wr_bytes (zeros bak_send_size) 0 (count_text n @ [0]) =
      Some (count_text n @ 0 # zeros (99 - length (count_text n)))"
    using t by (simp add: wr_bytes_def bak_send_size_def)
  then show ?thesis using assms(1) t c_str_app0 by (simp add: count_send_def)
qed

definition count_inv :: "count_loop \<Rightarrow> int \<Rightarrow> bool" where
  "count_inv l n \<longleftrightarrow> ((\<exists>fd. armed_fds l fd = Some ForWrite) \<longrightarrow> recv_num l = Some n) \<and> -1 \<le> n \<and> n \<le> 100"

lemma count_run_last:
  "count_inv l n \<Longrightarrow> \<forall>e \<in> set es. recv_ok e \<Longrightarrow>
    \<exists>l'. count_run l es = Some (Returns (l', last_counts n (armed_fds l) es))"
proof (induction n "armed_fds l" es arbitrary: l rule: last_counts.induct)
  case (2 n fd es)
  have "count_inv (l\<lparr>armed_fds := (armed_fds l)(fd \<mapsto> ForRead)\<rparr>) n"
    using 2(2) by (auto simp: count_inv_def split: if_splits)
  from 2(1) [OF _ this] show ?case using 2(3) by (auto simp: count_accept_def recv_ok_def)
next
  case (3 n fd m es)
  show ?case
  proof (cases "armed_fds l fd = Some ForRead")
    case True
    have "count_inv (count_recv l fd m) m" using 3(4) by (simp add: count_inv_def count_recv_def recv_ok_def)
    from 3(1) [OF True _ this] show ?thesis using True 3(4) by (auto simp: count_recv_def)
  next
    case False
    from 3(2) [OF False refl 3(3)] show ?thesis using False 3(4) by auto
  qed
next
  case (4 n fd m es)
  show ?case
  proof (cases "armed_fds l fd = Some ForWrite")
    case True
    then have r: "recv_num l = Some n" "-1 \<le> n" "n \<le> 100" using 4(3) by (auto simp: count_inv_def)
    let ?l = "l\<lparr>armed_fds := (armed_fds l)(fd := (if m \<le> 0 then None else Some ForRead))\<rparr>"
    have "count_inv ?l n" using r by (simp add: count_inv_def)
    from 4(1) [OF True _ this] 4(4) obtain l' where
      "count_run ?l es = Some (Returns (l', last_counts n (armed_fds ?l) es))" by auto
    then show ?thesis using True count_send_ok [OF r, of fd m] by simp
  next
    case False
    from 4(2) [OF False refl 4(3)] show ?thesis using False 4(4) by auto
  qed
qed auto

text \<open>The counting server never uses its variable before it is set, never overflows its buffer and
  never exits; but every answer gives the result of the last \<^verbatim>\<open>recv\<close> on any connection, which is
  its own client's only when no other client was read in between: of two clients that are both
  read before they are answered, the first is told the second one's count.\<close>

theorem counts_of_last_recv:
  assumes "\<forall>e \<in> set es. recv_ok e" "a \<noteq> b" "0 < m" "m \<le> 100" "0 < n" "n \<le> 100" "0 \<le> a" "0 \<le> b" "0 < r"
  shows "(\<exists>l. count_run count_start es = Some (Returns (l, last_counts 0 Map.empty es)))
    \<and> (\<exists>l. count_run count_start [CountAccept a, CountAccept b, CountRecv a m, CountRecv b n, CountSend a r, CountSend b r]
        = Some (Returns (l, [(a, count_text n), (b, count_text n)])))"
proof -
  have i: "count_inv count_start 0" by (simp add: count_inv_def count_start_def)
  have "armed_fds count_start = Map.empty" by (simp add: count_start_def)
  note run = count_run_last [OF i, unfolded this]
  have "\<forall>e \<in> set [CountAccept a, CountAccept b, CountRecv a m, CountRecv b n, CountSend a r, CountSend b r]. recv_ok e"
    using assms by (simp add: recv_ok_def)
  from run [OF this] show ?thesis using run [OF assms(1)] assms(2,3,5,9) by (simp add: fun_upd_def)
qed

theorem counts_of_last_recv_witness:
  "(\<exists>l. count_run count_start [CountAccept 4, CountRecv 4 7, CountSend 4 26] =
      Some (Returns (l, last_counts 0 Map.empty [CountAccept 4, CountRecv 4 7, CountSend 4 26])))
    \<and> (\<exists>l. count_run count_start [CountAccept 4, CountAccept 5, CountRecv 4 7, CountRecv 5 9, CountSend 4 26, CountSend 5 26]
        = Some (Returns (l, [(4, count_text 9), (5, count_text 9)])))"
  by (rule counts_of_last_recv) (simp_all add: recv_ok_def)

section \<open>The example server\<close>

text \<open>\<^verbatim>\<open>make_socket_non_blocking\<close>: 0, or -1 when a call fails.\<close>

definition make_socket_non_blocking :: "int \<Rightarrow> int \<Rightarrow> int" where
  "make_socket_non_blocking getfl setfl = (if getfl = -1 then -1 else if setfl = -1 then -1 else 0)"

text \<open>
  The addresses \<^verbatim>\<open>getaddrinfo\<close> offers, each with the results of \<^verbatim>\<open>socket\<close> and \<^verbatim>\<open>bind\<close>; the
  descriptors that are closed again, and the one that is bound.
\<close>

fun try_addresses :: "(int \<times> int) list \<Rightarrow> int list \<times> int option" where
  "try_addresses [] = ([], None)"
| "try_addresses ((sfd, s) # rp) =
     (if sfd = -1 then try_addresses rp
      else if s = 0 then ([], Some sfd)
      else (let (closed, r) = try_addresses rp in (sfd # closed, r)))"

definition ex_create_and_bind :: "int \<Rightarrow> (int \<times> int) list \<Rightarrow> int" where
  "ex_create_and_bind gai addrs =
     (if gai \<noteq> 0 then -1 else case snd (try_addresses addrs) of None \<Rightarrow> -1 | Some sfd \<Rightarrow> sfd)"

datatype ex_end = ExExits int | ExAborts

record ex_loop =
  watched :: "int \<rightharpoonup> http_armed"
  printed :: "byte list"

text \<open>How the reads of one event end: nothing more for now, an error, or the end of the stream.\<close>

datatype read_end = WouldBlock | ReadError | PeerClosed

text \<open>
  \<open>ExIncoming\<close> are the connections of one report of the listening socket, each with the results of
  \<open>make_socket_non_blocking\<close> and \<^verbatim>\<open>epoll_ctl\<close>. \<open>ExReadable\<close> has the chunks that were read.
\<close>

datatype ex_event =
  ExError int
| ExIncoming "(int \<times> int \<times> int) list"
| ExReadable int "byte list list" read_end
| ExWritable int

definition ex_reply :: "byte list" where
  "ex_reply = ascii ''hello world'' @ zeros 501"

text \<open>\<^verbatim>\<open>main\<close> up to its loop, with the results of the calls in their order.\<close>

definition ex_start :: "nat \<Rightarrow> int \<Rightarrow> (int \<times> int) list \<Rightarrow> int \<times> int \<Rightarrow> int \<Rightarrow> int \<Rightarrow> int \<Rightarrow> ex_end + (int \<times> ex_loop)" where
  "ex_start argc gai addrs fl listened epfd ctl =
     (if argc \<noteq> 2 then Inl (ExExits 1)
      else
        (let sfd = ex_create_and_bind gai addrs in
         if sfd = -1 then Inl ExAborts
         else if make_socket_non_blocking (fst fl) (snd fl) = -1 then Inl ExAborts
         else if listened = -1 then Inl ExAborts
         else if epfd = -1 then Inl ExAborts
         else if ctl = -1 then Inl ExAborts
         else Inr (sfd, \<lparr>watched = [sfd \<mapsto> ForRead], printed = []\<rparr>)))"

fun ex_accepts :: "ex_loop \<Rightarrow> (int \<times> int \<times> int) list \<Rightarrow> ex_end + ex_loop" where
  "ex_accepts l [] = Inr l"
| "ex_accepts l ((infd, nb, ctl) # cs) =
     (if nb = -1 then Inl ExAborts
      else if ctl = -1 then Inl ExAborts
      else ex_accepts (l\<lparr>watched := (watched l)(infd \<mapsto> ForRead)\<rparr>) cs)"

text \<open>
  The chunks are printed; when the stream has ended the descriptor is closed, and the
  \<^verbatim>\<open>epoll_ctl\<close> that follows in every case fails on a descriptor that is not open.
\<close>

definition ex_read :: "ex_loop \<Rightarrow> int \<Rightarrow> byte list list \<Rightarrow> read_end \<Rightarrow> ex_end + ex_loop" where
  "ex_read l fd chunks end =
     (let l1 = l\<lparr>printed := printed l @ concat chunks\<rparr>;
          l2 = (if end = WouldBlock then l1 else l1\<lparr>watched := (watched l1)(fd := None)\<rparr>)
      in case watched l2 fd of
           None \<Rightarrow> Inl ExAborts
         | Some _ \<Rightarrow> Inr (l2\<lparr>watched := (watched l2)(fd \<mapsto> ForWrite)\<rparr>))"

fun ex_step :: "int \<Rightarrow> ex_loop \<Rightarrow> ex_event \<Rightarrow> ex_end + (ex_loop \<times> reply list)" where
  "ex_step sfd l (ExError fd) = Inr (l\<lparr>watched := (watched l)(fd := None)\<rparr>, [])"
| "ex_step sfd l (ExIncoming cs) = map_sum id (\<lambda>l'. (l', [])) (ex_accepts l cs)"
| "ex_step sfd l (ExReadable fd chunks end) =
     (if fd \<noteq> sfd \<and> watched l fd = Some ForRead
      then map_sum id (\<lambda>l'. (l', [])) (ex_read l fd chunks end) else Inr (l, []))"
| "ex_step sfd l (ExWritable fd) =
     (if fd \<noteq> sfd \<and> watched l fd = Some ForWrite
      then Inr (l\<lparr>watched := (watched l)(fd \<mapsto> ForRead)\<rparr>, [(fd, ex_reply)]) else Inr (l, []))"

fun ex_run :: "int \<Rightarrow> ex_loop \<Rightarrow> ex_event list \<Rightarrow> ex_end + (ex_loop \<times> reply list)" where
  "ex_run sfd l [] = Inr (l, [])"
| "ex_run sfd l (e # es) =
     (case ex_step sfd l e of
        Inl x \<Rightarrow> Inl x
      | Inr (l1, out) \<Rightarrow> map_sum id (\<lambda>(l2, outs). (l2, out @ outs)) (ex_run sfd l1 es))"

text \<open>The events that end the program.\<close>

definition fatal :: "int \<Rightarrow> ex_loop \<Rightarrow> ex_event \<Rightarrow> bool" where
  "fatal sfd l e \<longleftrightarrow>
     (\<exists>fd cs r. e = ExReadable fd cs r \<and> fd \<noteq> sfd \<and> watched l fd = Some ForRead \<and> r \<noteq> WouldBlock)
   \<or> (\<exists>cs. e = ExIncoming cs \<and> (\<exists>(fd, nb, ctl) \<in> set cs. nb = -1 \<or> ctl = -1))"

lemma ex_accepts_end: "(\<exists>l'. ex_accepts l cs = Inr l') \<or> ex_accepts l cs = Inl ExAborts"
  by (induction l cs rule: ex_accepts.induct) auto

lemma ex_accepts_fatal: "ex_accepts l cs = Inl ExAborts \<longleftrightarrow> (\<exists>(fd, nb, ctl) \<in> set cs. nb = -1 \<or> ctl = -1)"
  by (induction l cs rule: ex_accepts.induct) auto

lemma ex_step_fatal: "(\<exists>r. ex_step sfd l e = Inr r) \<and> \<not> fatal sfd l e \<or> ex_step sfd l e = Inl ExAborts \<and> fatal sfd l e"
proof (cases e)
  case (ExIncoming cs)
  then show ?thesis using ex_accepts_end [of l cs] ex_accepts_fatal [of l cs] by (auto simp: fatal_def)
next
  case (ExReadable fd cs r)
  then show ?thesis by (auto simp: fatal_def ex_read_def Let_def)
qed (auto simp: fatal_def)

lemma ex_run_append:
  "ex_run sfd l (xs @ ys) = (case ex_run sfd l xs of
     Inl x \<Rightarrow> Inl x | Inr (l1, out) \<Rightarrow> map_sum id (\<lambda>(l2, outs). (l2, out @ outs)) (ex_run sfd l1 ys))"
proof (induction xs arbitrary: l)
  case Nil
  then show ?case by (cases "ex_run sfd l ys") auto
next
  case (Cons e xs)
  show ?case
  proof (cases "ex_step sfd l e")
    case (Inr r)
    then show ?thesis using Cons [of "fst r"] by (cases r)
      (auto split: sum.split prod.split simp: sum.map_comp o_def case_prod_beta' id_def)
  qed simp
qed

lemma ex_run_aborts:
  "ex_run sfd l es = Inl x \<longleftrightarrow> x = ExAborts \<and>
    (\<exists>xs e ys l1 outs. es = xs @ e # ys \<and> ex_run sfd l xs = Inr (l1, outs) \<and> fatal sfd l1 e)"
proof
  assume "ex_run sfd l es = Inl x"
  then show "x = ExAborts \<and> (\<exists>xs e ys l1 outs. es = xs @ e # ys \<and> ex_run sfd l xs = Inr (l1, outs) \<and> fatal sfd l1 e)"
  proof (induction es arbitrary: l)
    case (Cons e es)
    show ?case
    proof (cases "fatal sfd l e")
      case True
      then have "ex_step sfd l e = Inl ExAborts" using ex_step_fatal by blast
      then have "x = ExAborts" "ex_run sfd l [] = Inr (l, [])" using Cons.prems by simp_all
      then show ?thesis using True by (metis append_Nil)
    next
      case False
      then obtain l1 out where s: "ex_step sfd l e = Inr (l1, out)" using ex_step_fatal [of sfd l e] by auto
      then have "ex_run sfd l1 es = Inl x" using Cons.prems by (cases "ex_run sfd l1 es") auto
      from Cons.IH [OF this] obtain xs e' ys l2 outs where "x = ExAborts" "es = xs @ e' # ys"
        "ex_run sfd l1 xs = Inr (l2, outs)" "fatal sfd l2 e'" by blast
      then show ?thesis using s
        by (intro conjI exI [of _ "e # xs"] exI [of _ e'] exI [of _ ys] exI [of _ l2] exI [of _ "out @ outs"]) simp_all
    qed
  qed simp
next
  assume "x = ExAborts \<and> (\<exists>xs e ys l1 outs. es = xs @ e # ys \<and> ex_run sfd l xs = Inr (l1, outs) \<and> fatal sfd l1 e)"
  then obtain xs e ys l1 outs where "x = ExAborts" "es = xs @ e # ys" "ex_run sfd l xs = Inr (l1, outs)" "fatal sfd l1 e"
    by blast
  moreover from this have "ex_step sfd l1 e = Inl ExAborts" using ex_step_fatal by blast
  ultimately show "ex_run sfd l es = Inl x" by (simp add: ex_run_append)
qed



end
