(* ===== verification/FileID.thy ===== *)
theory FileID
  imports Endian
begin

text \<open>
  File identities (\<^verbatim>\<open>transfer_export/src/FileID.cpp\<close>): 20 bytes of SHA-1, their network
  form, the name of the stored file, the hash of the pending-file table; and the loop of
  \<^verbatim>\<open>client.cpp\<close> that reads the 40 digits printed by \<^verbatim>\<open>sha1sum\<close>.
\<close>

record file_id =
  sha1sum :: "byte list"

definition FileID_default :: file_id where
  "FileID_default = \<lparr>sha1sum = zeros 20\<rparr>"

definition FileID_of :: "cbuf \<Rightarrow> file_id option" where
  "FileID_of p = map_option (\<lambda>s. \<lparr>sha1sum = s\<rparr>) (rd_bytes p 0 20)"

text \<open>\<open>ptr\<close> is \<open>None\<close> for \<^verbatim>\<open>NULL\<close>, else a buffer and an offset; \<open>has_len\<close> says
  whether \<^verbatim>\<open>len\<close> is not \<^verbatim>\<open>NULL\<close>. The result is the code, the buffer and \<^verbatim>\<open>*len\<close>.\<close>

definition Dump2Net :: "file_id \<Rightarrow> (cbuf \<times> nat) option \<Rightarrow> bool \<Rightarrow>
    (int \<times> (cbuf \<times> nat) option) option" where
  "Dump2Net fid ptr has_len =
     (case ptr of
        None \<Rightarrow> Some (-1, None)
      | Some (b, p) \<Rightarrow>
          if \<not> has_len then Some (-2, None)
          else do {
            b1 \<leftarrow> wr_bytes b p (sha1sum fid);
            b2 \<leftarrow> wr_bytes b1 (p + 20) (zeros 20);
            Some (0, Some (b2, 40))
          })"

definition hex_digit :: "byte \<Rightarrow> byte" where
  "hex_digit n = (if n < 10 then 0x30 + n else 0x57 + n)"

definition hex2 :: "byte \<Rightarrow> byte list" where
  "hex2 x = [hex_digit (drop_bit 4 x), hex_digit (take_bit 4 x)]"

text \<open>\<^verbatim>\<open>sprintf(&fname[2*i], "%02x", sha1sum[i])\<close> writes two digits and a NUL.\<close>

fun name_loop :: "byte list \<Rightarrow> nat \<Rightarrow> cbuf \<Rightarrow> cbuf option" where
  "name_loop [] i b = Some b"
| "name_loop (x # xs) i b =
     (case wr_bytes b (2 * i) (hex2 x @ [0]) of
        None \<Rightarrow> None | Some b' \<Rightarrow> name_loop xs (i + 1) b')"

text \<open>\<open>raw\<close> is what \<^verbatim>\<open>new char[41]\<close> holds.\<close>

definition GenFileName :: "file_id \<Rightarrow> cbuf \<Rightarrow> cbuf option" where
  "GenFileName fid raw =
     (case name_loop (sha1sum fid) 0 raw of None \<Rightarrow> None | Some b \<Rightarrow> wr_byte b 40 0)"

definition Hash2Uint32 :: "file_id \<Rightarrow> u32" where
  "Hash2Uint32 fid = of_le (take 4 (drop 16 (sha1sum fid)))"

definition id_eq :: "file_id \<Rightarrow> file_id \<Rightarrow> bool" where
  "id_eq a b \<longleftrightarrow> take 20 (sha1sum a) = take 20 (sha1sum b)"

text \<open>\<^verbatim>\<open>GenerateFileID\<close>: one hexadecimal digit and the loop over the 40 of them.\<close>

definition unhex :: "byte \<Rightarrow> byte" where
  "unhex c = (if 0x39 < sint c then c - 0x61 + 10 else c - 0x30)"

fun unhex_loop :: "nat \<Rightarrow> cbuf \<Rightarrow> byte list" where
  "unhex_loop 0 b = []"
| "unhex_loop (Suc n) b =
     (push_bit 4 (unhex (b ! 0)) OR unhex (b ! 1)) # unhex_loop n (drop 2 b)"

text \<open>\<open>out\<close> is the output of \<^verbatim>\<open>sha1sum\<close>; the 40 bytes of \<^verbatim>\<open>buf\<close> come from \<^verbatim>\<open>fread\<close>.\<close>

definition GenerateFileID :: "byte list \<Rightarrow> cbuf \<Rightarrow> file_id option" where
  "GenerateFileID out raw =
     (let buf = take 40 out @ drop (length (take 40 out)) raw in
      FileID_of (unhex_loop 20 buf))"

section \<open>Well-formed identities\<close>

definition ok_id :: "file_id \<Rightarrow> bool" where
  "ok_id fid \<longleftrightarrow> length (sha1sum fid) = 20"

lemma ok_id_length [simp]: "ok_id fid \<Longrightarrow> length (sha1sum fid) = 20"
  by (simp add: ok_id_def)

lemma id_eq_iff: "ok_id a \<Longrightarrow> ok_id b \<Longrightarrow> id_eq a b \<longleftrightarrow> a = b"
  by (cases a; cases b) (auto simp: id_eq_def ok_id_def)

lemma FileID_of_ok: "length s = 20 \<Longrightarrow> FileID_of (s @ rest) = Some \<lparr>sha1sum = s\<rparr>"
  by (simp add: FileID_of_def rd_bytes_def)

section \<open>Names\<close>

definition hex :: "byte list \<Rightarrow> byte list" where
  "hex s = concat (map hex2 s)"

lemma length_hex2 [simp]: "length (hex2 x) = 2"
  by (simp add: hex2_def)

lemma length_hex [simp]: "length (hex s) = 2 * length s"
  by (induction s) (simp_all add: hex_def)

lemma hex_Cons: "hex (x # xs) = hex2 x @ hex xs"
  by (simp add: hex_def)

lemma name_loop_hex:
  "2 * length xs < length raw \<Longrightarrow> length pre = 2 * i \<Longrightarrow> xs \<noteq> [] \<Longrightarrow>
     name_loop xs i (pre @ raw) = Some (pre @ hex xs @ 0 # drop (2 * length xs + 1) raw)"
proof (induction xs arbitrary: i pre raw)
  case (Cons x xs)
  have w: "wr_bytes (pre @ raw) (2 * i) (hex2 x @ [0]) = Some ((pre @ hex2 x) @ 0 # drop 3 raw)"
    using Cons.prems by (simp add: wr_bytes_def)
  show ?case
  proof (cases "xs = []")
    case True
    then show ?thesis using w by (simp add: hex_Cons numeral_3_eq_3) (simp add: hex_def)
  next
    case False
    have "2 * length xs < length (0 # drop 3 raw)" using Cons.prems by simp
    from Cons.IH [OF this, of "pre @ hex2 x" "i + 1"] False w Cons.prems(2) show ?thesis
      by (simp add: hex_Cons numeral_3_eq_3)
  qed
qed simp

lemma GenFileName_hex:
  assumes "ok_id fid" and "length raw = 41"
  shows "GenFileName fid raw = Some (hex (sha1sum fid) @ [0])"
proof -
  have "sha1sum fid \<noteq> []" using assms(1) by (auto simp: ok_id_def)
  then have "name_loop (sha1sum fid) 0 raw = Some (hex (sha1sum fid) @ [0])"
    using name_loop_hex [of "sha1sum fid" raw "[]" 0] assms by simp
  then show ?thesis
    using wr_byte_app [of 40 "hex (sha1sum fid)" 0 "[]" 0] assms by (simp add: GenFileName_def)
qed

lemma nibble_cases:
  fixes n :: byte
  assumes "n < 16"
  shows "n \<in> {0, 1, 2, 3, 4, 5, 6, 7, 8, 9, 10, 11, 12, 13, 14, 15}"
proof -
  obtain k where n: "n = of_nat k" and "k < 16"
    using assms by (intro that [of "unat n"]) (simp_all add: word_less_nat_alt)
  then have "k = 0 \<or> k = 1 \<or> k = 2 \<or> k = 3 \<or> k = 4 \<or> k = 5 \<or> k = 6 \<or> k = 7 \<or> k = 8
      \<or> k = 9 \<or> k = 10 \<or> k = 11 \<or> k = 12 \<or> k = 13 \<or> k = 14 \<or> k = 15"
    by arith
  then show ?thesis unfolding n by (elim disjE) simp_all
qed

lemma unhex_hex_digit: "n < 16 \<Longrightarrow> unhex (hex_digit n) = n"
  by (drule nibble_cases) (auto simp: unhex_def hex_digit_def)

lemma nibbles:
  "drop_bit 4 (x :: byte) < 16" "take_bit 4 x < 16" "push_bit 4 (drop_bit 4 x) OR take_bit 4 x = x"
proof -
  show "drop_bit 4 x < 16"
    using unsigned_less [of x, where 'a = nat]
    by (simp add: word_less_nat_alt drop_bit_eq_div unat_div)
  show "take_bit 4 x < 16"
    by (simp add: word_less_nat_alt take_bit_eq_mod unat_mod)
  show "push_bit 4 (drop_bit 4 x) OR take_bit 4 x = x"
    by (rule bit_word_eqI) (auto simp: bit_simps)
qed

lemma unhex_loop_hex: "unhex_loop (length s) (hex s @ rest) = s"
  by (induction s)
    (simp_all add: hex_Cons hex2_def unhex_hex_digit nibbles numeral_2_eq_2)

lemma GenerateFileID_hex:
  assumes "ok_id fid" and "length raw = 40"
  shows "GenerateFileID (hex (sha1sum fid) @ rest) raw = Some fid"
  using unhex_loop_hex [of "sha1sum fid" "[]"] assms FileID_of_ok [of "sha1sum fid" "[]"]
  by (simp add: GenerateFileID_def Let_def)

lemma hex_inj: "length a = length b \<Longrightarrow> hex a = hex b \<Longrightarrow> a = b"
  by (metis append.right_neutral unhex_loop_hex)

lemma hex_no_nul: "0 \<notin> set (hex s)"
proof -
  have "n < 16 \<Longrightarrow> hex_digit n \<noteq> 0" for n
    by (drule nibble_cases) (auto simp: hex_digit_def)
  then show ?thesis
    by (induction s) (auto simp: hex_def hex2_def nibbles)
qed

lemma Dump2Net_bytes:
  assumes "ok_id fid" and "length a = p" and "40 \<le> length b"
  shows "Dump2Net fid (Some (a @ b, p)) True =
    Some (0, Some (a @ sha1sum fid @ zeros 20 @ drop 40 b, 40))"
  using assms by (auto simp: Dump2Net_def wr_bytes_def)

end
