(* ===== verification/HList.thy ===== *)
theory HList
  imports CMem
begin

text \<open>
  The hash lists of \<^verbatim>\<open>transfer_export/include/list.h\<close> at pointer level. A node is an
  address with a \<^verbatim>\<open>next\<close> pointer and a \<^verbatim>\<open>pprev\<close> that points at the place holding the
  node's own address: the head's \<^verbatim>\<open>first\<close> or the predecessor's \<^verbatim>\<open>next\<close>. Address 0 is
  \<^verbatim>\<open>NULL\<close>; a node that is not allocated makes an access undefined (\<open>None\<close>). The
  predicate \<open>hlist\<close> relates a head to the list of its nodes, and every operation is shown to
  be the list operation it stands for, leaving other lists alone.
\<close>

section \<open>Memory\<close>

type_synonym ptr = nat

text \<open>What a \<^verbatim>\<open>pprev\<close> points at.\<close>

datatype slot = NoSlot | First nat | NextOf ptr | PoisonSlot

record hlist_node =
  hnext :: ptr
  pprev :: slot

record hmem =
  heads :: "nat \<Rightarrow> ptr"
  nodes :: "ptr \<rightharpoonup> hlist_node"

definition LIST_POISON1 :: ptr where
  "LIST_POISON1 = 0x00100100"

definition set_next :: "hmem \<Rightarrow> ptr \<Rightarrow> ptr \<Rightarrow> hmem option" where
  "set_next m n x =
     map_option (\<lambda>d. m\<lparr>nodes := (nodes m)(n \<mapsto> d\<lparr>hnext := x\<rparr>)\<rparr>) (nodes m n)"

definition set_pprev :: "hmem \<Rightarrow> ptr \<Rightarrow> slot \<Rightarrow> hmem option" where
  "set_pprev m n s =
     map_option (\<lambda>d. m\<lparr>nodes := (nodes m)(n \<mapsto> d\<lparr>pprev := s\<rparr>)\<rparr>) (nodes m n)"

definition set_first :: "hmem \<Rightarrow> nat \<Rightarrow> ptr \<Rightarrow> hmem" where
  "set_first m h x = m\<lparr>heads := (heads m)(h := x)\<rparr>"

text \<open>\<^verbatim>\<open>*pprev = x\<close>\<close>

fun set_slot :: "hmem \<Rightarrow> slot \<Rightarrow> ptr \<Rightarrow> hmem option" where
  "set_slot m NoSlot x = None"
| "set_slot m PoisonSlot x = None"
| "set_slot m (First h) x = Some (set_first m h x)"
| "set_slot m (NextOf p) x = set_next m p x"

section \<open>Operations\<close>

definition INIT_HLIST_HEAD :: "hmem \<Rightarrow> nat \<Rightarrow> hmem" where
  "INIT_HLIST_HEAD m h = set_first m h 0"

definition INIT_HLIST_NODE :: "hmem \<Rightarrow> ptr \<Rightarrow> hmem option" where
  "INIT_HLIST_NODE m n = do { m1 \<leftarrow> set_next m n 0; set_pprev m1 n NoSlot }"

definition hlist_unhashed :: "hmem \<Rightarrow> ptr \<Rightarrow> bool option" where
  "hlist_unhashed m n = map_option (\<lambda>d. pprev d = NoSlot) (nodes m n)"

definition hlist_empty :: "hmem \<Rightarrow> nat \<Rightarrow> bool" where
  "hlist_empty m h \<longleftrightarrow> heads m h = 0"

text \<open>\<^verbatim>\<open>__hlist_del\<close>\<close>

definition hlist_unlink :: "hmem \<Rightarrow> ptr \<Rightarrow> hmem option" where
  "hlist_unlink m n =
     do {
       d \<leftarrow> nodes m n;
       m1 \<leftarrow> set_slot m (pprev d) (hnext d);
       if hnext d \<noteq> 0 then set_pprev m1 (hnext d) (pprev d) else Some m1
     }"

definition hlist_del :: "hmem \<Rightarrow> ptr \<Rightarrow> hmem option" where
  "hlist_del m n =
     do {
       m1 \<leftarrow> hlist_unlink m n;
       m2 \<leftarrow> set_next m1 n LIST_POISON1;
       set_pprev m2 n PoisonSlot
     }"

definition hlist_add_head :: "hmem \<Rightarrow> ptr \<Rightarrow> nat \<Rightarrow> hmem option" where
  "hlist_add_head m n h =
     (let first = heads m h in
      do {
        m1 \<leftarrow> set_next m n first;
        m2 \<leftarrow> (if first \<noteq> 0 then set_pprev m1 first (NextOf n) else Some m1);
        set_pprev (set_first m2 h n) n (First h)
      })"

definition hlist_add_before :: "hmem \<Rightarrow> ptr \<Rightarrow> ptr \<Rightarrow> hmem option" where
  "hlist_add_before m n x =
     do {
       d \<leftarrow> nodes m x;
       m1 \<leftarrow> set_pprev m n (pprev d);
       m2 \<leftarrow> set_next m1 n x;
       m3 \<leftarrow> set_pprev m2 x (NextOf n);
       dn \<leftarrow> nodes m3 n;
       set_slot m3 (pprev dn) n
     }"

definition hlist_add_after :: "hmem \<Rightarrow> ptr \<Rightarrow> ptr \<Rightarrow> hmem option" where
  "hlist_add_after m n x =
     do {
       d \<leftarrow> nodes m n;
       m1 \<leftarrow> set_next m x (hnext d);
       m2 \<leftarrow> set_next m1 n x;
       m3 \<leftarrow> set_pprev m2 x (NextOf n);
       dx \<leftarrow> nodes m3 x;
       if hnext dx \<noteq> 0 then set_pprev m3 (hnext dx) (NextOf x) else Some m3
     }"

definition hlist_move_list :: "hmem \<Rightarrow> nat \<Rightarrow> nat \<Rightarrow> hmem option" where
  "hlist_move_list m old new =
     (let m1 = set_first m new (heads m old) in
      do {
        m2 \<leftarrow> (if heads m1 new \<noteq> 0 then set_pprev m1 (heads m1 new) (First new) else Some m1);
        Some (set_first m2 old 0)
      })"

section \<open>Lists in memory\<close>

fun chain :: "(ptr \<rightharpoonup> hlist_node) \<Rightarrow> slot \<Rightarrow> ptr \<Rightarrow> ptr list \<Rightarrow> bool" where
  "chain f s p [] \<longleftrightarrow> p = 0"
| "chain f s p (x # xs) \<longleftrightarrow>
     p = x \<and> x \<noteq> 0 \<and> (\<exists>d. f x = Some d \<and> pprev d = s \<and> chain f (NextOf x) (hnext d) xs)"

definition hlist :: "hmem \<Rightarrow> nat \<Rightarrow> ptr list \<Rightarrow> bool" where
  "hlist m h xs \<longleftrightarrow> chain (nodes m) (First h) (heads m h) xs \<and> distinct xs"

lemma chain_cong:
  "\<forall>x \<in> set xs. f x = g x \<Longrightarrow> chain f s p xs = chain g s p xs"
  by (induction xs arbitrary: s p) auto

lemma chain_upd [simp]: "n \<notin> set xs \<Longrightarrow> chain (f(n := v)) s p xs = chain f s p xs"
  by (rule chain_cong) auto

lemma chain_nonzero: "chain f s p xs \<Longrightarrow> 0 \<notin> set xs"
  by (induction xs arbitrary: s p) auto

lemma chain_alloc: "chain f s p xs \<Longrightarrow> x \<in> set xs \<Longrightarrow> \<exists>d. f x = Some d"
  by (induction xs arbitrary: s p) auto

lemma chain_unique: "chain f s p xs \<Longrightarrow> chain f t p ys \<Longrightarrow> xs = ys"
proof (induction xs arbitrary: s t p ys)
  case Nil
  then show ?case by (cases ys) auto
next
  case (Cons x xs)
  then show ?case by (cases ys) auto
qed

text \<open>A chain that stops at \<open>q\<close>, to split a list at a node.\<close>

fun seg :: "(ptr \<rightharpoonup> hlist_node) \<Rightarrow> slot \<Rightarrow> ptr \<Rightarrow> ptr list \<Rightarrow> ptr \<Rightarrow> bool" where
  "seg f s p [] q \<longleftrightarrow> p = q"
| "seg f s p (x # xs) q \<longleftrightarrow>
     p = x \<and> x \<noteq> 0 \<and> (\<exists>d. f x = Some d \<and> pprev d = s \<and> seg f (NextOf x) (hnext d) xs q)"

definition last_slot :: "slot \<Rightarrow> ptr list \<Rightarrow> slot" where
  "last_slot s xs = (if xs = [] then s else NextOf (last xs))"

lemma last_slot_simps [simp]:
  "last_slot s [] = s" "last_slot s (x # xs) = last_slot (NextOf x) xs"
  by (auto simp: last_slot_def)

lemma chain_append:
  "chain f s p (xs @ ys) \<longleftrightarrow> (\<exists>q. seg f s p xs q \<and> chain f (last_slot s xs) q ys)"
  by (induction xs arbitrary: s p) auto

lemma seg_cong: "\<forall>x \<in> set xs. f x = g x \<Longrightarrow> seg f s p xs q = seg g s p xs q"
  by (induction xs arbitrary: s p) auto

lemma seg_upd [simp]: "n \<notin> set xs \<Longrightarrow> seg (f(n := v)) s p xs q = seg f s p xs q"
  by (rule seg_cong) auto

lemma seg_last: "seg f s p xs q \<Longrightarrow> xs \<noteq> [] \<Longrightarrow> \<exists>d. f (last xs) = Some d \<and> hnext d = q"
  by (induction xs arbitrary: s p) (auto split: if_splits)

lemma seg_relink:
  "seg f s p xs q \<Longrightarrow> xs \<noteq> [] \<Longrightarrow> distinct xs \<Longrightarrow> f (last xs) = Some d \<Longrightarrow>
     seg (f(last xs \<mapsto> d\<lparr>hnext := r\<rparr>)) s p xs r"
proof (induction xs arbitrary: s p)
  case (Cons x xs)
  show ?case
  proof (cases "xs = []")
    case False
    then have "x \<noteq> last xs" using Cons.prems(3) by auto
    then show ?thesis using Cons False by auto
  qed (use Cons.prems in auto)
qed simp

text \<open>What an operation on the list of \<open>h\<close> may touch.\<close>

definition keeps :: "hmem \<Rightarrow> hmem \<Rightarrow> nat set \<Rightarrow> ptr set \<Rightarrow> bool" where
  "keeps m m' H A \<longleftrightarrow> (\<forall>h. h \<notin> H \<longrightarrow> heads m' h = heads m h)
     \<and> (\<forall>a. a \<notin> A \<longrightarrow> nodes m' a = nodes m a) \<and> dom (nodes m') = dom (nodes m)"

lemma keeps_hlist:
  assumes "keeps m m' H A" "hlist m h xs" "h \<notin> H" "set xs \<inter> A = {}"
  shows "hlist m' h xs"
proof -
  have "\<forall>x \<in> set xs. nodes m x = nodes m' x" using assms by (auto simp: keeps_def)
  then show ?thesis
    using assms chain_cong [of xs "nodes m" "nodes m'"] by (simp add: hlist_def keeps_def)
qed

lemma set_next_Some: "nodes m n = Some d \<Longrightarrow>
    set_next m n x = Some (m\<lparr>nodes := (nodes m)(n \<mapsto> d\<lparr>hnext := x\<rparr>)\<rparr>)"
  by (simp add: set_next_def)

lemma set_pprev_Some: "nodes m n = Some d \<Longrightarrow>
    set_pprev m n s = Some (m\<lparr>nodes := (nodes m)(n \<mapsto> d\<lparr>pprev := s\<rparr>)\<rparr>)"
  by (simp add: set_pprev_def)

lemmas mem_ops = set_next_Some set_pprev_Some set_first_def

section \<open>The operations are list operations\<close>

lemma INIT_HLIST_HEAD_list: "hlist (INIT_HLIST_HEAD m h) h []"
  by (simp add: INIT_HLIST_HEAD_def set_first_def hlist_def)

lemma hlist_empty_iff: "hlist m h xs \<Longrightarrow> hlist_empty m h \<longleftrightarrow> xs = []"
  by (cases xs) (auto simp: hlist_def hlist_empty_def)

lemma hlist_add_head_list:
  assumes l: "hlist m h xs" and n: "nodes m n = Some d" "n \<notin> set xs" "n \<noteq> 0"
  shows "\<exists>m'. hlist_add_head m n h = Some m' \<and> hlist m' h (n # xs) \<and> keeps m m' {h} (insert n (set xs))"
proof (cases xs)
  case Nil
  then have "heads m h = 0" using l by (simp add: hlist_def)
  then show ?thesis
    using n Nil by (auto simp: hlist_add_head_def mem_ops hlist_def keeps_def Let_def)
next
  case (Cons x ys)
  then obtain e where x: "heads m h = x" "x \<noteq> 0" "nodes m x = Some e" "pprev e = First h"
    and ys: "chain (nodes m) (NextOf x) (hnext e) ys" "distinct (x # ys)"
    using l by (auto simp: hlist_def)
  have "n \<noteq> x" "n \<notin> set ys" using n(2) Cons by auto
  then show ?thesis
    using n(1,3) x ys Cons
    by (auto simp: hlist_add_head_def mem_ops hlist_def keeps_def Let_def)
qed

lemma hlist_del_list:
  assumes l: "hlist m h (xs @ y # ys)"
  shows "\<exists>m'. hlist_del m y = Some m' \<and> hlist m' h (xs @ ys) \<and> keeps m m' {h} (set (xs @ y # ys))"
proof -
  let ?f = "nodes m"
  obtain d where seg: "seg ?f (First h) (heads m h) xs y" and y: "y \<noteq> 0" "?f y = Some d"
    "pprev d = last_slot (First h) xs" and ys: "chain ?f (NextOf y) (hnext d) ys"
    using l by (auto simp: hlist_def chain_append)
  have dist: "distinct xs" "y \<notin> set xs" "y \<notin> set ys" "distinct ys" "set xs \<inter> set ys = {}"
    using l by (auto simp: hlist_def)
  \<comment> \<open>the slot of y takes its successor\<close>
  obtain m1 where m1: "set_slot m (pprev d) (hnext d) = Some m1"
    and seg1: "seg (nodes m1) (First h) (heads m1 h) xs (hnext d)"
    and k1: "keeps m m1 {h} (set xs)"
  proof (cases "xs = []")
    case True
    then show thesis using that y by (simp add: set_first_def keeps_def)
  next
    case False
    then obtain e where e: "?f (last xs) = Some e" using seg_last [OF seg] by blast
    have "last xs \<in> set xs" using False by simp
    then have "keeps m (m\<lparr>nodes := ?f(last xs \<mapsto> e\<lparr>hnext := hnext d\<rparr>)\<rparr>) {h} (set xs)"
      using e by (auto simp: keeps_def)
    then show thesis
      using that y False seg_relink [OF seg False dist(1) e, of "hnext d"] e
      by (simp add: last_slot_def mem_ops)
  qed
  \<comment> \<open>the successor points back at the slot\<close>
  have f1: "nodes m1 a = ?f a" if "a \<notin> set xs" for a
    using k1 that by (simp add: keeps_def)
  have y1: "nodes m1 y = Some d" using f1 dist(2) y(2) by simp
  have ys1: "chain (nodes m1) (NextOf y) (hnext d) ys"
    using ys chain_cong [of ys "nodes m1" ?f] f1 dist(5) by auto
  obtain m2 where m2: "(if hnext d \<noteq> 0 then set_pprev m1 (hnext d) (pprev d) else Some m1) = Some m2"
    and l2: "chain (nodes m2) (pprev d) (hnext d) ys" and h2: "heads m2 = heads m1"
    and k2: "\<forall>a. a \<notin> set ys \<longrightarrow> nodes m2 a = nodes m1 a" "dom (nodes m2) = dom (nodes m1)"
  proof (cases ys)
    case Nil
    then show thesis using that ys1 by simp
  next
    case (Cons z zs)
    then obtain e where z: "hnext d = z" "z \<noteq> 0" "nodes m1 z = Some e"
      "chain (nodes m1) (NextOf z) (hnext e) zs"
      using ys1 by auto
    then show thesis
      using that [of "m1\<lparr>nodes := (nodes m1)(z \<mapsto> e\<lparr>pprev := pprev d\<rparr>)\<rparr>"] Cons dist(4)
      by (auto simp: mem_ops)
  qed
  have "\<forall>x \<in> set xs. nodes m2 x = nodes m1 x" using k2(1) dist(5) by blast
  then have seg2: "seg (nodes m2) (First h) (heads m2 h) xs (hnext d)"
    using seg1 seg_cong [of xs "nodes m2" "nodes m1"] h2 by simp
  have y2: "nodes m2 y = Some d" using k2(1) dist(3) y1 by simp
  let ?m' = "m2\<lparr>nodes := (nodes m2)(y \<mapsto> d\<lparr>hnext := LIST_POISON1, pprev := PoisonSlot\<rparr>)\<rparr>"
  have "hlist_del m y = Some ?m'"
    using y m1 m2 y2 by (simp add: hlist_del_def hlist_unlink_def mem_ops)
  moreover have "hlist ?m' h (xs @ ys)"
    using seg2 l2 dist y(3) by (auto simp: hlist_def chain_append)
  moreover have "keeps m ?m' {h} (set (xs @ y # ys))"
    using k1 k2 h2 y2 by (auto simp: keeps_def)
  ultimately show ?thesis by blast
qed

lemma hlist_add_before_list:
  assumes l: "hlist m h (xs @ y # ys)"
    and n: "nodes m n = Some dn" "n \<notin> set (xs @ y # ys)" "n \<noteq> 0"
  shows "\<exists>m'. hlist_add_before m n y = Some m' \<and> hlist m' h (xs @ n # y # ys)
    \<and> keeps m m' {h} (insert n (set (xs @ y # ys)))"
proof -
  let ?f = "nodes m"
  obtain d where seg: "seg ?f (First h) (heads m h) xs y" and y: "y \<noteq> 0" "?f y = Some d"
    "pprev d = last_slot (First h) xs" and ys: "chain ?f (NextOf y) (hnext d) ys"
    using l by (auto simp: hlist_def chain_append)
  have dist: "distinct xs" "y \<notin> set xs" "y \<notin> set ys" "distinct ys" "set xs \<inter> set ys = {}"
    "n \<notin> set xs" "n \<noteq> y" "n \<notin> set ys"
    using l n by (auto simp: hlist_def)
  let ?g = "?f(n \<mapsto> dn\<lparr>pprev := pprev d, hnext := y\<rparr>, y \<mapsto> d\<lparr>pprev := NextOf n\<rparr>)"
  have "\<exists>m'. set_slot (m\<lparr>nodes := ?g\<rparr>) (pprev d) n = Some m'
      \<and> seg (nodes m') (First h) (heads m' h) xs n
      \<and> (\<forall>a. a \<notin> set xs \<longrightarrow> nodes m' a = ?g a) \<and> dom (nodes m') = dom ?g
      \<and> (\<forall>h'. h' \<noteq> h \<longrightarrow> heads m' h' = heads m h')"
  proof (cases "xs = []")
    case True
    then show ?thesis using y by (auto simp: set_first_def)
  next
    case False
    obtain e where e: "?f (last xs) = Some e" using seg_last [OF seg False] by blast
    have last: "last xs \<in> set xs" "last xs \<noteq> n" "last xs \<noteq> y"
      using False dist(2,6) last_in_set [OF False] by auto
    have "seg ?g (First h) (heads m h) xs y" using seg dist(2,6) by simp
    from seg_relink [OF this False dist(1), of e n] e last show ?thesis
      using y False by (auto simp: last_slot_def mem_ops)
  qed
  then obtain m' where m': "set_slot (m\<lparr>nodes := ?g\<rparr>) (pprev d) n = Some m'"
    and seg': "seg (nodes m') (First h) (heads m' h) xs n"
    and g: "\<And>a. a \<notin> set xs \<Longrightarrow> nodes m' a = ?g a"
    and k: "dom (nodes m') = dom ?g" "\<And>h'. h' \<noteq> h \<Longrightarrow> heads m' h' = heads m h'"
    by blast
  have "\<forall>x \<in> set ys. nodes m' x = ?f x"
  proof
    fix x assume x: "x \<in> set ys"
    then have "x \<notin> set xs" "x \<noteq> y" "x \<noteq> n" using dist by auto
    then show "nodes m' x = ?f x" using g [of x] by simp
  qed
  then have "chain (nodes m') (NextOf y) (hnext d) ys"
    using ys chain_cong [of ys "nodes m'" ?f] by simp
  then have "hlist m' h (xs @ n # y # ys)"
    using seg' g y n dist by (auto simp: hlist_def chain_append)
  moreover have "hlist_add_before m n y = Some m'"
    using y n m' dist(7) by (simp add: hlist_add_before_def mem_ops)
  moreover have "keeps m m' {h} (insert n (set (xs @ y # ys)))"
    using k g n(1) y(2) by (auto simp: keeps_def)
  ultimately show ?thesis by blast
qed

lemma hlist_add_after_list:
  assumes l: "hlist m h (xs @ y # ys)"
    and n: "nodes m n = Some dn" "n \<notin> set (xs @ y # ys)" "n \<noteq> 0"
  shows "\<exists>m'. hlist_add_after m y n = Some m' \<and> hlist m' h (xs @ y # n # ys)
    \<and> keeps m m' {h} (insert n (set (xs @ y # ys)))"
proof -
  let ?f = "nodes m"
  obtain d where seg: "seg ?f (First h) (heads m h) xs y" and y: "y \<noteq> 0" "?f y = Some d"
    "pprev d = last_slot (First h) xs" and ys: "chain ?f (NextOf y) (hnext d) ys"
    using l by (auto simp: hlist_def chain_append)
  have dist: "distinct xs" "y \<notin> set xs" "y \<notin> set ys" "distinct ys" "set xs \<inter> set ys = {}"
    "n \<notin> set xs" "n \<noteq> y" "n \<notin> set ys"
    using l n by (auto simp: hlist_def)
  let ?g = "?f(n \<mapsto> dn\<lparr>hnext := hnext d, pprev := NextOf y\<rparr>, y \<mapsto> d\<lparr>hnext := n\<rparr>)"
  have g: "set_next m n (hnext d) = Some (m\<lparr>nodes := ?f(n \<mapsto> dn\<lparr>hnext := hnext d\<rparr>)\<rparr>)"
    using n by (simp add: mem_ops)
  show ?thesis
  proof (cases ys)
    case Nil
    then have "hlist_add_after m y n = Some (m\<lparr>nodes := ?g\<rparr>)"
      using y n ys dist(7)
      by (simp add: hlist_add_after_def mem_ops) (auto simp: fun_upd_twist)
    then show ?thesis
      using seg y n ys Nil dist by (auto simp: hlist_def chain_append keeps_def)
  next
    case (Cons z zs)
    then obtain e where z: "hnext d = z" "z \<noteq> 0" "?f z = Some e" "pprev e = NextOf y"
      "chain ?f (NextOf z) (hnext e) zs"
      using ys by auto
    have zn: "z \<noteq> n" "z \<noteq> y" "z \<notin> set xs" "z \<notin> set zs" using dist Cons by auto
    then have "hlist_add_after m y n = Some (m\<lparr>nodes := ?g(z \<mapsto> e\<lparr>pprev := NextOf n\<rparr>)\<rparr>)"
      using y n z dist(7)
      by (simp add: hlist_add_after_def mem_ops) (auto simp: fun_upd_twist)
    then show ?thesis
      using seg y n z zn Cons dist by (auto simp: hlist_def chain_append keeps_def)
  qed
qed

lemma hlist_move_list_list:
  assumes l: "hlist m old xs" and ne: "old \<noteq> new"
  shows "\<exists>m'. hlist_move_list m old new = Some m' \<and> hlist m' new xs \<and> hlist m' old []
    \<and> keeps m m' {old, new} (set xs)"
proof (cases xs)
  case Nil
  then show ?thesis
    using l ne by (auto simp: hlist_move_list_def hlist_def set_first_def keeps_def Let_def)
next
  case (Cons x ys)
  then show ?thesis
    using l ne
    by (auto simp: hlist_move_list_def hlist_def set_first_def mem_ops keeps_def Let_def)
qed

end
