(* ===== verification/PendingFile.thy ===== *)
theory PendingFile
  imports FileID HList "HOL-Library.Monad_Syntax"
begin

text \<open>
  The files being received (\<^verbatim>\<open>storage_server/PendingFile.cpp\<close>): objects in a table of 256
  hash lists, found by identity, and the three operations of the storage server on them. The
  state \<open>store\<close> holds the hash lists, the objects (an object and its embedded list node
  have one address), the files on disk and the open descriptors. \<open>None\<close> is undefined
  behaviour: a dangling or null pointer.
\<close>

section \<open>State\<close>

record pfile =
  opened_fd :: int
  file_size :: u64
  dl_size :: u64
  pf_id :: file_id

record store =
  mem :: hmem
  objs :: "ptr \<rightharpoonup> pfile"
  brk :: ptr
  disk :: "byte list \<rightharpoonup> byte list"
  fds :: "int \<rightharpoonup> byte list \<times> nat"
  next_fd :: int

definition hash_index :: "file_id \<Rightarrow> nat" where
  "hash_index fid = unat (Hash2Uint32 fid AND 0xFF)"

section \<open>The table\<close>

text \<open>\<^verbatim>\<open>InitHashTable\<close>\<close>

fun init_loop :: "nat \<Rightarrow> hmem \<Rightarrow> hmem" where
  "init_loop 0 m = m"
| "init_loop (Suc i) m = INIT_HLIST_HEAD (init_loop i m) i"

definition InitHashTable :: "store \<Rightarrow> store" where
  "InitHashTable st = st\<lparr>mem := init_loop 256 (mem st)\<rparr>"

text \<open>\<^verbatim>\<open>new PendingFile(id)\<close> at a fresh address, and \<^verbatim>\<open>delete\<close>.\<close>

definition fresh_pfile :: "file_id \<Rightarrow> pfile" where
  "fresh_pfile fid = \<lparr>opened_fd = -1, file_size = -1, dl_size = 0, pf_id = fid\<rparr>"

definition new_PendingFile :: "store \<Rightarrow> file_id \<Rightarrow> ptr \<times> store" where
  "new_PendingFile st fid =
     (brk st,
      st\<lparr>mem := (mem st)\<lparr>nodes := (nodes (mem st))(brk st \<mapsto> \<lparr>hnext = 0, pprev = NoSlot\<rparr>)\<rparr>,
         objs := (objs st)(brk st \<mapsto> fresh_pfile fid), brk := brk st + 1\<rparr>)"

definition delete_PendingFile :: "store \<Rightarrow> ptr \<Rightarrow> store option" where
  "delete_PendingFile st p =
     (if objs st p = None then None
      else Some (st\<lparr>mem := (mem st)\<lparr>nodes := (nodes (mem st))(p := None)\<rparr>,
                    objs := (objs st)(p := None)\<rparr>))"

text \<open>\<^verbatim>\<open>hlist_for_each_entry\<close> up to the first object with the identity; 0 at the end.\<close>

partial_function (option) find_loop :: "store \<Rightarrow> file_id \<Rightarrow> ptr \<Rightarrow> ptr option" where
  "find_loop st fid p =
     (if p = 0 then Some 0
      else
        (case objs st p of
           None \<Rightarrow> None
         | Some ob \<Rightarrow>
             if id_eq (pf_id ob) fid then Some p
             else (case nodes (mem st) p of
                     None \<Rightarrow> None | Some d \<Rightarrow> find_loop st fid (hnext d))))"

definition FindPendingFileByHash :: "store \<Rightarrow> file_id \<Rightarrow> ptr option" where
  "FindPendingFileByHash st fid = find_loop st fid (heads (mem st) (hash_index fid))"

definition AddPendingFile2Hash :: "store \<Rightarrow> ptr \<Rightarrow> (ptr \<times> store) option" where
  "AddPendingFile2Hash st pf =
     do {
       ob \<leftarrow> objs st pf;
       result \<leftarrow> find_loop st (pf_id ob) (heads (mem st) (hash_index (pf_id ob)));
       if result \<noteq> 0 then do { st' \<leftarrow> delete_PendingFile st pf; Some (result, st') }
       else do {
         m \<leftarrow> hlist_add_head (mem st) pf (hash_index (pf_id ob));
         Some (pf, st\<lparr>mem := m\<rparr>)
       }
     }"

definition DelPendingFileFromHash :: "store \<Rightarrow> ptr \<Rightarrow> store option" where
  "DelPendingFileFromHash st pf = map_option (\<lambda>m. st\<lparr>mem := m\<rparr>) (hlist_del (mem st) pf)"

definition GetPendingFile :: "store \<Rightarrow> file_id \<Rightarrow> (ptr \<times> store) option" where
  "GetPendingFile st fid =
     do {
       pf \<leftarrow> FindPendingFileByHash st fid;
       if pf = 0 then (let (n, st1) = new_PendingFile st fid in AddPendingFile2Hash st1 n)
       else Some (pf, st)
     }"

definition put_obj :: "store \<Rightarrow> ptr \<Rightarrow> pfile \<Rightarrow> store" where
  "put_obj st p ob = st\<lparr>objs := (objs st)(p \<mapsto> ob)\<rparr>"

section \<open>Files\<close>

text \<open>\<^verbatim>\<open>open(name, O_WRONLY|O_CREAT)\<close> keeps the contents of a file that exists.\<close>

definition open_wr :: "store \<Rightarrow> byte list \<Rightarrow> int \<times> store" where
  "open_wr st name =
     (next_fd st,
      st\<lparr>disk := (disk st)(name \<mapsto> (case disk st name of None \<Rightarrow> [] | Some c \<Rightarrow> c)),
         fds := (fds st)(next_fd st \<mapsto> (name, 0)), next_fd := next_fd st + 1\<rparr>)"

text \<open>\<^verbatim>\<open>lseek\<close> and \<^verbatim>\<open>write\<close> do nothing on a closed descriptor; a gap reads as zeros.\<close>

definition do_lseek :: "store \<Rightarrow> int \<Rightarrow> nat \<Rightarrow> store" where
  "do_lseek st fd off =
     (case fds st fd of
        None \<Rightarrow> st | Some (name, _) \<Rightarrow> st\<lparr>fds := (fds st)(fd \<mapsto> (name, off))\<rparr>)"

definition splice :: "byte list \<Rightarrow> nat \<Rightarrow> byte list \<Rightarrow> byte list" where
  "splice c off d =
     (if d = [] then c
      else take off c @ zeros (off - length c) @ d @ drop (off + length d) c)"

definition do_write :: "store \<Rightarrow> int \<Rightarrow> byte list \<Rightarrow> store" where
  "do_write st fd d =
     (case fds st fd of
        None \<Rightarrow> st
      | Some (name, off) \<Rightarrow>
          (case disk st name of
             None \<Rightarrow> st
           | Some c \<Rightarrow>
               st\<lparr>disk := (disk st)(name \<mapsto> splice c off d),
                  fds := (fds st)(fd \<mapsto> (name, off + length d))\<rparr>))"

definition do_close :: "store \<Rightarrow> int \<Rightarrow> store" where
  "do_close st fd = st\<lparr>fds := (fds st)(fd := None)\<rparr>"

section \<open>Operations of the storage server\<close>

definition SS_SetPendingFileSize :: "store \<Rightarrow> file_id \<Rightarrow> u64 \<Rightarrow> store option" where
  "SS_SetPendingFileSize st fid fsize =
     do {
       (fp, st1) \<leftarrow> GetPendingFile st fid;
       ob \<leftarrow> objs st1 fp;
       Some (put_obj st1 fp (ob\<lparr>file_size := fsize\<rparr>))
     }"

text \<open>The first locked part of \<^verbatim>\<open>SS_WriteData2PendingFile\<close>: open the file once.\<close>

definition wd_open :: "store \<Rightarrow> file_id \<Rightarrow> ptr \<Rightarrow> store option" where
  "wd_open st fid fp =
     do {
       ob \<leftarrow> objs st fp;
       if opened_fd ob < 0 then
         do {
           name_buf \<leftarrow> GenFileName fid (zeros 41);
           file_name \<leftarrow> c_str name_buf 0;
           (fd, st2) \<leftarrow> Some (open_wr st file_name);
           Some (put_obj st2 fp (ob\<lparr>opened_fd := fd\<rparr>))
         }
       else Some st
     }"

text \<open>The unlocked \<^verbatim>\<open>lseek\<close> and \<^verbatim>\<open>write\<close>.\<close>

definition wd_lseek :: "store \<Rightarrow> ptr \<Rightarrow> u64 \<Rightarrow> store option" where
  "wd_lseek st fp offset = map_option (\<lambda>ob. do_lseek st (opened_fd ob) (unat offset)) (objs st fp)"

definition wd_write :: "store \<Rightarrow> ptr \<Rightarrow> byte list \<Rightarrow> store option" where
  "wd_write st fp d = map_option (\<lambda>ob. do_write st (opened_fd ob) d) (objs st fp)"

text \<open>The second locked part: account for the bytes.\<close>

definition wd_account :: "store \<Rightarrow> ptr \<Rightarrow> nat \<Rightarrow> store option" where
  "wd_account st fp len =
     map_option (\<lambda>ob. put_obj st fp (ob\<lparr>dl_size := dl_size ob + of_nat len\<rparr>)) (objs st fp)"

definition SS_WriteData2PendingFile :: "store \<Rightarrow> file_id \<Rightarrow> byte list \<Rightarrow> u64 \<Rightarrow> store option" where
  "SS_WriteData2PendingFile st fid d offset =
     do {
       (fp, st1) \<leftarrow> GetPendingFile st fid;
       st2 \<leftarrow> wd_open st1 fid fp;
       st3 \<leftarrow> wd_lseek st2 fp offset;
       st4 \<leftarrow> wd_write st3 fp d;
       wd_account st4 fp (length d)
     }"

text \<open>
  \<^verbatim>\<open>SS_ClosePendingFile\<close>: \<open>Waiting\<close> is the thread in \<^verbatim>\<open>pthread_cond_wait\<close>, which
  holds the pointer \<open>fp\<close> and runs \<open>close_wait\<close> again when it is signalled.
\<close>

datatype closing = Waiting ptr store | Closed store

definition close_wait :: "store \<Rightarrow> ptr \<Rightarrow> closing option" where
  "close_wait st fp =
     do {
       ob \<leftarrow> objs st fp;
       if file_size ob \<noteq> dl_size ob then Some (Waiting fp st)
       else do {
         st1 \<leftarrow> Some (put_obj (do_close st (opened_fd ob)) fp (ob\<lparr>opened_fd := -1\<rparr>));
         st2 \<leftarrow> DelPendingFileFromHash st1 fp;
         st3 \<leftarrow> delete_PendingFile st2 fp;
         Some (Closed st3)
       }
     }"

definition SS_ClosePendingFile :: "store \<Rightarrow> file_id \<Rightarrow> closing option" where
  "SS_ClosePendingFile st fid =
     do { (fp, st1) \<leftarrow> GetPendingFile st fid; close_wait st1 fp }"

text \<open>\<^verbatim>\<open>DeinitHashTable\<close>: every object left is unlinked, closed and deleted.\<close>

partial_function (option) deinit_bucket :: "store \<Rightarrow> ptr \<Rightarrow> store option" where
  "deinit_bucket st pos =
     (if pos = 0 then Some st
      else
        (case nodes (mem st) pos of
           None \<Rightarrow> None
         | Some d \<Rightarrow>
             (case objs st pos of
                None \<Rightarrow> None
              | Some ob \<Rightarrow>
                  (case DelPendingFileFromHash st pos of
                     None \<Rightarrow> None
                   | Some st1 \<Rightarrow>
                       (case delete_PendingFile
                           (if 0 \<le> opened_fd ob then do_close st1 (opened_fd ob) else st1) pos of
                          None \<Rightarrow> None
                        | Some st2 \<Rightarrow> deinit_bucket st2 (hnext d))))))"

fun deinit_loop :: "nat \<Rightarrow> store \<Rightarrow> store option" where
  "deinit_loop 0 st = Some st"
| "deinit_loop (Suc k) st =
     (case deinit_bucket st (heads (mem st) (256 - Suc k)) of
        None \<Rightarrow> None | Some st' \<Rightarrow> deinit_loop k st')"

definition DeinitHashTable :: "store \<Rightarrow> store option" where
  "DeinitHashTable st = deinit_loop 256 st"

end
