(* ===== verification/PendingTable.thy ===== *)
theory PendingTable
  imports PendingFile
begin

text \<open>
  The pending-file table is a map from identities to objects. \<open>id_table\<close> is the contract the
  operations of the storage server rely on (get or create, update, remove); the hash lists of
  \<open>PendingFile\<close> satisfy it: the invariant \<open>table_inv\<close> ties heads, nodes and objects
  together, \<open>pending\<close> is the map they stand for.
\<close>

section \<open>The contract\<close>

locale id_table =
  fixes inv :: "'s \<Rightarrow> bool"
    and look :: "'s \<Rightarrow> 'p \<Rightarrow> 'o option"
    and abs_map :: "'s \<Rightarrow> 'k \<Rightarrow> 'o option"
    and key :: "'o \<Rightarrow> 'k"
    and ok_key :: "'k \<Rightarrow> bool"
    and fresh :: "'k \<Rightarrow> 'o"
    and get :: "'s \<Rightarrow> 'k \<Rightarrow> ('p \<times> 's) option"
    and put :: "'s \<Rightarrow> 'p \<Rightarrow> 'o \<Rightarrow> 's"
    and remove :: "'s \<Rightarrow> 'p \<Rightarrow> 's option"
  assumes key_fresh: "key (fresh k) = k"
    and abs_key: "inv s \<Longrightarrow> abs_map s k = Some ob \<Longrightarrow> key ob = k"
    and get_entry: "inv s \<Longrightarrow> ok_key k \<Longrightarrow> \<exists>p s'. get s k = Some (p, s') \<and> inv s'
      \<and> look s' p = Some (case abs_map s k of None \<Rightarrow> fresh k | Some ob \<Rightarrow> ob)
      \<and> abs_map s' = (abs_map s)(k \<mapsto> (case abs_map s k of None \<Rightarrow> fresh k | Some ob \<Rightarrow> ob))"
    and put_entry: "inv s \<Longrightarrow> look s p = Some ob \<Longrightarrow> key ob' = key ob \<Longrightarrow>
      inv (put s p ob') \<and> abs_map (put s p ob') = (abs_map s)(key ob \<mapsto> ob')
      \<and> look (put s p ob') p = Some ob'"
    and remove_entry: "inv s \<Longrightarrow> look s p = Some ob \<Longrightarrow>
      \<exists>s'. remove s p = Some s' \<and> inv s' \<and> abs_map s' = (abs_map s)(key ob := None)"
begin

definition entry :: "'s \<Rightarrow> 'k \<Rightarrow> 'o" where
  "entry s k = (case abs_map s k of None \<Rightarrow> fresh k | Some ob \<Rightarrow> ob)"

lemma key_entry: "inv s \<Longrightarrow> key (entry s k) = k"
  by (auto simp: entry_def key_fresh dest: abs_key split: option.split)

lemma get_entry':
  assumes "inv s" "ok_key k"
  obtains p s' where "get s k = Some (p, s')" "inv s'" "look s' p = Some (entry s k)"
    "abs_map s' = (abs_map s)(k \<mapsto> entry s k)"
  using get_entry [OF assms] by (auto simp: entry_def)

lemma modify:
  assumes "inv s" "ok_key k" and f: "\<And>ob. key (f ob) = key ob"
  shows "\<exists>p s'. get s k = Some (p, s') \<and> look s' p = Some (entry s k)
    \<and> inv (put s' p (f (entry s k)))
    \<and> abs_map (put s' p (f (entry s k))) = (abs_map s)(k \<mapsto> f (entry s k))"
proof -
  obtain p s' where g: "get s k = Some (p, s')" "inv s'" "look s' p = Some (entry s k)"
    "abs_map s' = (abs_map s)(k \<mapsto> entry s k)"
    using get_entry' [OF assms(1,2)] by blast
  have "key (f (entry s k)) = key (entry s k)" by (rule f)
  from put_entry [OF g(2,3) this] g key_entry [OF assms(1), of k] show ?thesis by auto
qed

lemma drop_entry:
  assumes "inv s" "ok_key k" and f: "\<And>ob. key (f ob) = key ob"
  shows "\<exists>p s' s''. get s k = Some (p, s') \<and> look s' p = Some (entry s k)
    \<and> remove (put s' p (f (entry s k))) p = Some s'' \<and> inv s''
    \<and> abs_map s'' = (abs_map s)(k := None)"
proof -
  obtain p s' where g: "get s k = Some (p, s')" "look s' p = Some (entry s k)"
    "inv (put s' p (f (entry s k)))"
    "abs_map (put s' p (f (entry s k))) = (abs_map s)(k \<mapsto> f (entry s k))"
    and s': "inv s'"
    using modify [OF assms] get_entry' [OF assms(1,2)] by (metis option.inject prod.inject)
  have kf: "key (f (entry s k)) = k" using f key_entry [OF assms(1)] by simp
  have "look (put s' p (f (entry s k))) p = Some (f (entry s k))"
    using put_entry [OF s' g(2)] f by blast
  from remove_entry [OF g(3) this] g kf show ?thesis by auto
qed

end

section \<open>The hash lists\<close>

definition ids_unique :: "(ptr \<rightharpoonup> pfile) \<Rightarrow> bool" where
  "ids_unique f \<longleftrightarrow> (\<forall>p q a b. f p = Some a \<longrightarrow> f q = Some b \<longrightarrow> pf_id a = pf_id b \<longrightarrow> p = q)"

definition in_bucket :: "(ptr \<rightharpoonup> pfile) \<Rightarrow> nat \<Rightarrow> ptr \<Rightarrow> bool" where
  "in_bucket f i p \<longleftrightarrow> (\<exists>ob. f p = Some ob \<and> ok_id (pf_id ob) \<and> hash_index (pf_id ob) = i)"

definition buckets_ok :: "store \<Rightarrow> (nat \<Rightarrow> ptr list) \<Rightarrow> bool" where
  "buckets_ok st B \<longleftrightarrow>
     (\<forall>i < 256. hlist (mem st) i (B i))
     \<and> (\<forall>i < 256. \<forall>p \<in> set (B i). in_bucket (objs st) i p)
     \<and> ids_unique (objs st)
     \<and> dom (objs st) = (\<Union>i < 256. set (B i)) \<and> dom (nodes (mem st)) = dom (objs st)
     \<and> (\<forall>p \<in> dom (objs st). p < brk st) \<and> 0 < brk st"

lemma ids_uniqueI:
  "(\<And>p q a b. f p = Some a \<Longrightarrow> f q = Some b \<Longrightarrow> pf_id a = pf_id b \<Longrightarrow> p = q) \<Longrightarrow> ids_unique f"
  unfolding ids_unique_def by blast

lemma ids_uniqueD:
  "ids_unique f \<Longrightarrow> f p = Some a \<Longrightarrow> f q = Some b \<Longrightarrow> pf_id a = pf_id b \<Longrightarrow> p = q"
  unfolding ids_unique_def by blast

lemma in_bucketE:
  assumes "in_bucket f i p"
  obtains ob where "f p = Some ob" "ok_id (pf_id ob)" "hash_index (pf_id ob) = i"
  using assms unfolding in_bucket_def by blast

lemma buckets_okD:
  assumes "buckets_ok st B"
  shows "i < 256 \<Longrightarrow> hlist (mem st) i (B i)"
    and "i < 256 \<Longrightarrow> p \<in> set (B i) \<Longrightarrow> in_bucket (objs st) i p"
    and "ids_unique (objs st)"
    and "dom (objs st) = (\<Union>i < 256. set (B i))"
    and "dom (nodes (mem st)) = dom (objs st)"
    and "objs st p = Some ob \<Longrightarrow> p < brk st"
    and "0 < brk st"
  using assms unfolding buckets_ok_def by blast+

definition table_inv :: "store \<Rightarrow> bool" where
  "table_inv st \<longleftrightarrow> (\<exists>B. buckets_ok st B)"

definition pending :: "store \<Rightarrow> file_id \<Rightarrow> pfile option" where
  "pending st fid =
     (if ok_id fid then
        (case FindPendingFileByHash st fid of
           None \<Rightarrow> None | Some p \<Rightarrow> if p = 0 then None else objs st p)
      else None)"

lemma hash_index_less [simp]: "hash_index fid < 256"
proof -
  have "Hash2Uint32 fid AND 0xFF \<le> 0xFF" by (rule word_and_le1)
  then show ?thesis by (simp add: hash_index_def word_le_nat_alt)
qed

lemma find_loop_list:
  assumes "chain (nodes (mem st)) s p xs" and "\<forall>x \<in> set xs. objs st x \<noteq> None"
  shows "find_loop st fid p =
    Some (case find (\<lambda>x. id_eq (pf_id (the (objs st x))) fid) xs of None \<Rightarrow> 0 | Some x \<Rightarrow> x)"
  using assms
proof (induction xs arbitrary: s p)
  case Nil
  then show ?case by (simp add: find_loop.simps)
next
  case (Cons x xs)
  then show ?case by (subst find_loop.simps) auto
qed

lemma buckets_objs:
  assumes B: "buckets_ok st B" and ob: "objs st p = Some ob"
  shows "ok_id (pf_id ob)" "p \<in> set (B (hash_index (pf_id ob)))" "p \<noteq> 0"
proof -
  have "p \<in> (\<Union>i < 256. set (B i))" using buckets_okD(4) [OF B] ob by blast
  then obtain i where i: "i < 256" "p \<in> set (B i)" by blast
  from buckets_okD(2) [OF B this] ob have "ok_id (pf_id ob)" "hash_index (pf_id ob) = i"
    by (auto elim: in_bucketE)
  then show "ok_id (pf_id ob)" "p \<in> set (B (hash_index (pf_id ob)))" using i by auto
  have "0 \<notin> set (B i)"
    using buckets_okD(1) [OF B i(1)] unfolding hlist_def by (blast dest: chain_nonzero)
  then show "p \<noteq> 0" using i(2) by metis
qed

lemma Find_cases:
  assumes B: "buckets_ok st B" and fid: "ok_id fid"
  obtains p ob where "objs st p = Some ob" "pf_id ob = fid" "FindPendingFileByHash st fid = Some p" "p \<noteq> 0"
  | "FindPendingFileByHash st fid = Some 0" "\<forall>p ob. objs st p = Some ob \<longrightarrow> pf_id ob \<noteq> fid"
proof -
  let ?i = "hash_index fid"
  let ?P = "\<lambda>x. id_eq (pf_id (the (objs st x))) fid"
  have l: "hlist (mem st) ?i (B ?i)" by (rule buckets_okD(1) [OF B hash_index_less])
  have o: "\<forall>x \<in> set (B ?i). \<exists>ob. objs st x = Some ob \<and> ok_id (pf_id ob)"
    using buckets_okD(2) [OF B hash_index_less] by (blast elim: in_bucketE)
  have f: "FindPendingFileByHash st fid = Some (case find ?P (B ?i) of None \<Rightarrow> 0 | Some x \<Rightarrow> x)"
    unfolding FindPendingFileByHash_def
    using l o by (intro find_loop_list [of _ "First ?i"]) (auto simp: hlist_def)
  show thesis
  proof (cases "find ?P (B ?i)")
    case None
    have "pf_id ob \<noteq> fid" if ob: "objs st p = Some ob" for p ob
    proof
      assume "pf_id ob = fid"
      moreover from this have "p \<in> set (B ?i)" using buckets_objs(2) [OF B ob] by simp
      ultimately show False using None ob by (auto simp: find_None_iff id_eq_def)
    qed
    then show ?thesis using that(2) f None by simp
  next
    case (Some p)
    then have p: "p \<in> set (B ?i)" "?P p" by (auto simp: find_Some_iff)
    then obtain ob where ob: "objs st p = Some ob" "ok_id (pf_id ob)" using o by blast
    then show ?thesis
      using that(1) p(2) f Some fid id_eq_iff buckets_objs(3) [OF B ob(1)] by auto
  qed
qed

lemma pending_iff:
  assumes "buckets_ok st B"
  shows "pending st fid = Some ob \<longleftrightarrow> ok_id fid \<and> (\<exists>p. objs st p = Some ob \<and> pf_id ob = fid)"
proof (cases "ok_id fid")
  case True
  note uniq = ids_uniqueD [OF buckets_okD(3) [OF assms]]
  from Find_cases [OF assms True] show ?thesis
  proof cases
    case (1 p a)
    then have "pending st fid = Some a" using True by (simp add: pending_def)
    moreover have "(\<exists>q. objs st q = Some ob \<and> pf_id ob = fid) \<longleftrightarrow> a = ob"
    proof
      assume "\<exists>q. objs st q = Some ob \<and> pf_id ob = fid"
      then obtain q where q: "objs st q = Some ob" "pf_id ob = fid" by blast
      have "q = p" using uniq [OF q(1) 1(1)] q(2) 1(2) by simp
      then show "a = ob" using q(1) 1(1) by simp
    qed (use 1 in blast)
    ultimately show ?thesis using True by simp
  next
    case 2
    then show ?thesis by (simp add: pending_def) blast
  qed
qed (simp add: pending_def)

lemma pending_eqI:
  assumes "buckets_ok st B"
    and "\<And>fid ob. ok_id fid \<Longrightarrow> (\<exists>p. objs st p = Some ob \<and> pf_id ob = fid) \<longleftrightarrow> m fid = Some ob"
    and "\<And>fid. \<not> ok_id fid \<Longrightarrow> m fid = None"
  shows "pending st = m"
proof (rule ext)
  fix fid
  show "pending st fid = m fid"
  proof (cases "m fid")
    case None
    then have "\<And>ob. pending st fid \<noteq> Some ob"
      using assms(2) [of fid] by (simp add: pending_iff [OF assms(1)])
    then show ?thesis using None by (metis not_None_eq)
  next
    case (Some ob)
    then have "ok_id fid" using assms(3) by force
    then have "pending st fid = Some ob" using assms(2) Some by (simp add: pending_iff [OF assms(1)])
    then show ?thesis using Some by simp
  qed
qed

section \<open>The operations on the table\<close>

lemma put_obj_ok:
  assumes B: "buckets_ok st B" and ob: "objs st p = Some ob" and k: "pf_id ob' = pf_id ob"
  shows "buckets_ok (put_obj st p ob') B"
    and "pending (put_obj st p ob') = (pending st)(pf_id ob \<mapsto> ob')"
proof -
  let ?o = "objs (put_obj st p ob')"
  note uniq = ids_uniqueD [OF buckets_okD(3) [OF B]]
  have old: "\<exists>a'. objs st q = Some a' \<and> pf_id a' = pf_id a" if "?o q = Some a" for q a
    using that ob k by (cases "q = p") (auto simp: put_obj_def)
  have "dom ?o = dom (objs st)" using ob by (auto simp: put_obj_def)
  moreover have "ids_unique ?o"
  proof (rule ids_uniqueI)
    fix q r a b
    assume a: "?o q = Some a" "?o r = Some b" "pf_id a = pf_id b"
    obtain a' b' where "objs st q = Some a'" "pf_id a' = pf_id a"
      "objs st r = Some b'" "pf_id b' = pf_id b"
      using old [OF a(1)] old [OF a(2)] by blast
    with a(3) show "q = r" by (intro uniq [of q a' r b']) simp_all
  qed
  moreover have "in_bucket ?o i q" if "in_bucket (objs st) i q" for i q
    using that ob k by (cases "q = p") (auto simp: put_obj_def in_bucket_def)
  moreover have "mem (put_obj st p ob') = mem st" "brk (put_obj st p ob') = brk st"
    by (simp_all add: put_obj_def)
  ultimately show B': "buckets_ok (put_obj st p ob') B"
    using B by (simp add: buckets_ok_def)
  have ok: "ok_id (pf_id ob)" by (rule buckets_objs [OF B ob])
  show "pending (put_obj st p ob') = (pending st)(pf_id ob \<mapsto> ob')"
  proof (rule pending_eqI [OF B'])
    fix fid a
    assume fid: "ok_id fid"
    show "(\<exists>q. ?o q = Some a \<and> pf_id a = fid) \<longleftrightarrow> ((pending st)(pf_id ob \<mapsto> ob')) fid = Some a"
    proof (cases "fid = pf_id ob")
      case True
      have qp: "q = p" if q: "?o q = Some a" "pf_id a = pf_id ob" for q
      proof -
        obtain a' where "objs st q = Some a'" "pf_id a' = pf_id a" using old [OF q(1)] by blast
        with q(2) show ?thesis by (intro uniq [of q a' p ob] ob) simp_all
      qed
      have "?o p = Some ob'" by (simp add: put_obj_def)
      then have "(\<exists>q. ?o q = Some a \<and> pf_id a = fid) \<longleftrightarrow> a = ob'"
        using True k qp by (metis option.inject)
      then show ?thesis using True by auto
    next
      case False
      then have "(?o q = Some a \<and> pf_id a = fid) \<longleftrightarrow> (objs st q = Some a \<and> pf_id a = fid)" for q
        using k ob by (auto simp: put_obj_def)
      then show ?thesis using False fid by (simp add: pending_iff [OF B])
    qed
  qed (use ok in \<open>auto simp: pending_def\<close>)
qed

lemma Get_found:
  assumes "FindPendingFileByHash st fid = Some p" "p \<noteq> 0"
  shows "GetPendingFile st fid = Some (p, st)"
  using assms by (simp add: GetPendingFile_def)

lemma Get_new:
  assumes B: "buckets_ok st B" and fid: "ok_id fid"
    and none: "FindPendingFileByHash st fid = Some 0" "\<forall>p ob. objs st p = Some ob \<longrightarrow> pf_id ob \<noteq> fid"
  shows "\<exists>st' B'. GetPendingFile st fid = Some (brk st, st') \<and> buckets_ok st' B'
    \<and> objs st' = (objs st)(brk st \<mapsto> fresh_pfile fid)"
proof -
  let ?i = "hash_index fid" and ?n = "brk st"
  let ?st1 = "snd (new_PendingFile st fid)"
  have fresh: "?n \<notin> dom (objs st)" "?n \<noteq> 0"
    using buckets_okD(6) [OF B] buckets_okD(7) [OF B] by force+
  then have nB: "?n \<notin> set (B i)" if "i < 256" for i
    using buckets_okD(4) [OF B] that by blast
  have o: "\<exists>ob. objs st x = Some ob \<and> ok_id (pf_id ob) \<and> hash_index (pf_id ob) = i"
    if "x \<in> set (B i)" "i < 256" for x i
    using buckets_okD(2) [OF B that(2,1)] unfolding in_bucket_def .
  have l1: "hlist (mem ?st1) i (B i)" if "i < 256" for i
    using buckets_okD(1) [OF B that] nB [OF that] by (simp add: new_PendingFile_def hlist_def)
  have "find (\<lambda>x. id_eq (pf_id (the (objs ?st1 x))) fid) (B ?i) = None"
  proof -
    have "\<not> id_eq (pf_id (the (objs ?st1 x))) fid" if x: "x \<in> set (B ?i)" for x
    proof -
      obtain ob where "objs st x = Some ob" "ok_id (pf_id ob)" using o [OF x] by auto
      moreover have "x \<noteq> ?n" using x nB by auto
      ultimately show ?thesis using none(2) fid by (auto simp: new_PendingFile_def id_eq_iff)
    qed
    then show ?thesis by (simp add: find_None_iff)
  qed
  moreover have "\<forall>x \<in> set (B ?i). objs ?st1 x \<noteq> None"
    using o by (fastforce simp: new_PendingFile_def)
  ultimately have find: "find_loop ?st1 fid (heads (mem ?st1) ?i) = Some 0"
    using l1 [of ?i] find_loop_list [of ?st1 "First ?i" _ "B ?i" fid]
    by (simp add: hlist_def)
  have "nodes (mem ?st1) ?n = Some \<lparr>hnext = 0, pprev = NoSlot\<rparr>" by (simp add: new_PendingFile_def)
  from hlist_add_head_list [OF l1 this nB fresh(2), of ?i] obtain m
    where m: "hlist_add_head (mem ?st1) ?n ?i = Some m" "hlist m ?i (?n # B ?i)"
      and k: "keeps (mem ?st1) m {?i} (insert ?n (set (B ?i)))"
    by auto
  let ?st' = "?st1\<lparr>mem := m\<rparr>" and ?B = "B(?i := ?n # B ?i)"
  have "hlist m j (B j)" if "j < 256" "j \<noteq> ?i" for j
  proof (rule keeps_hlist [OF k l1])
    have "x \<notin> set (B ?i)" if "x \<in> set (B j)" for x
      using o [of x j] o [of x ?i] that \<open>j < 256\<close> \<open>j \<noteq> ?i\<close> by auto
    then show "set (B j) \<inter> insert ?n (set (B ?i)) = {}" using nB that by auto
  qed (use that in auto)
  then have lists: "\<forall>j < 256. hlist (mem ?st') j (?B j)" using m(2) by simp
  have ob': "objs ?st' = (objs st)(?n \<mapsto> fresh_pfile fid)" by (simp add: new_PendingFile_def)
  have "?n \<in> (\<Union>i < 256. set (?B i))" by (rule UN_I [of ?i]) simp_all
  then have "(\<Union>i < 256. set (?B i)) = insert ?n (\<Union>i < 256. set (B i))"
    by (auto split: if_splits)
  moreover note buckets_okD(4) [OF B]
  ultimately have dom: "dom (objs ?st') = (\<Union>i < 256. set (?B i))" unfolding ob' by auto
  have "in_bucket (objs ?st') i p" if i: "i < 256" and p: "p \<in> set (?B i)" for i p
  proof (cases "p = ?n")
    case True
    then have "i = ?i" using nB i p by (auto split: if_splits)
    then show ?thesis using True fid by (simp add: in_bucket_def ob' fresh_pfile_def)
  next
    case False
    then have "p \<in> set (B i)" using p by (auto split: if_splits)
    then show ?thesis using buckets_okD(2) [OF B i] False by (simp add: in_bucket_def ob')
  qed
  moreover have "ids_unique (objs ?st')"
  proof (rule ids_uniqueI)
    fix p q a b
    assume "objs ?st' p = Some a" "objs ?st' q = Some b" "pf_id a = pf_id b"
    then show "p = q"
      using none(2) [rule_format, of p a] none(2) [rule_format, of q b]
        ids_uniqueD [OF buckets_okD(3) [OF B], of p a q b]
      by (cases "p = ?n"; cases "q = ?n") (auto simp: ob' fresh_pfile_def)
  qed
  moreover have "dom (nodes (mem ?st')) = dom (objs ?st')"
    using k buckets_okD(5) [OF B] by (simp add: keeps_def new_PendingFile_def)
  moreover have "\<forall>p \<in> dom (objs ?st'). p < brk ?st'"
    unfolding ob' using buckets_okD(6) [OF B]
    by (auto simp: new_PendingFile_def less_Suc_eq)
  moreover have "0 < brk ?st'" by (simp add: new_PendingFile_def)
  ultimately have "buckets_ok ?st' ?B"
    unfolding buckets_ok_def using lists dom by blast
  moreover have "GetPendingFile st fid = Some (?n, ?st')"
    using none(1) find m(1) fresh(2)
    by (simp add: GetPendingFile_def new_PendingFile_def AddPendingFile2Hash_def fresh_pfile_def)
  ultimately show ?thesis using ob' by blast
qed

lemma Get_entry:
  assumes B: "buckets_ok st B" and fid: "ok_id fid"
  defines "e \<equiv> (case pending st fid of None \<Rightarrow> fresh_pfile fid | Some ob \<Rightarrow> ob)"
  shows "\<exists>p st'. GetPendingFile st fid = Some (p, st') \<and> table_inv st'
    \<and> objs st' p = Some e \<and> pending st' = (pending st)(fid \<mapsto> e)"
  using B fid
proof (cases rule: Find_cases)
  case (1 p ob)
  then have "pending st fid = Some ob" using fid by (simp add: pending_def)
  then show ?thesis
    using Get_found 1 B unfolding e_def table_inv_def
    by (metis fun_upd_triv option.simps(5))
next
  case 2
  have none: "pending st fid = None" using 2 by (simp add: pending_def)
  obtain st' B' where g: "GetPendingFile st fid = Some (brk st, st')" "buckets_ok st' B'"
    and ob': "objs st' = (objs st)(brk st \<mapsto> fresh_pfile fid)"
    using Get_new [OF B fid 2] by blast
  have new: "objs st (brk st) = None"
    using buckets_okD(6) [OF B, of "brk st"] by (cases "objs st (brk st)") auto
  have "pending st' = (pending st)(fid \<mapsto> fresh_pfile fid)"
  proof (rule pending_eqI [OF g(2)])
    show "(\<exists>q. objs st' q = Some a \<and> pf_id a = k) \<longleftrightarrow> ((pending st)(fid \<mapsto> fresh_pfile fid)) k = Some a"
      if "ok_id k" for k a
    proof (cases "k = fid")
      case True
      have "pf_id b \<noteq> fid" if "objs st q = Some b" for q b using 2(2) that by blast
      then show ?thesis using True by (auto simp: ob' fresh_pfile_def)
    next
      case False
      then have "(objs st' q = Some a \<and> pf_id a = k) \<longleftrightarrow> (objs st q = Some a \<and> pf_id a = k)" for q
        using new by (auto simp: ob' fresh_pfile_def)
      then show ?thesis using False that by (simp add: pending_iff [OF B])
    qed
    show "\<not> ok_id k \<Longrightarrow> ((pending st)(fid \<mapsto> fresh_pfile fid)) k = None" for k
      using fid by (auto simp: pending_def)
  qed
  then show ?thesis using g ob' none by (auto simp: e_def table_inv_def)
qed

definition drop_PendingFile :: "store \<Rightarrow> ptr \<Rightarrow> store option" where
  "drop_PendingFile st p =
     do { st1 \<leftarrow> DelPendingFileFromHash st p; delete_PendingFile st1 p }"

lemma drop_PendingFile_objs:
  assumes B: "buckets_ok st B" and ob: "objs st p = Some ob"
  shows "\<exists>st' B'. drop_PendingFile st p = Some st' \<and> buckets_ok st' B'
    \<and> objs st' = (objs st)(p := None)
    \<and> B' = B(hash_index (pf_id ob) := remove1 p (B (hash_index (pf_id ob))))"
proof -
  let ?i = "hash_index (pf_id ob)"
  have "p \<in> set (B ?i)" by (rule buckets_objs [OF B ob])
  then obtain xs ys where xy: "B ?i = xs @ p # ys" by (meson split_list)
  have l: "hlist (mem st) ?i (xs @ p # ys)"
    using buckets_okD(1) [OF B hash_index_less, of "pf_id ob"] xy by simp
  from hlist_del_list [OF l] obtain m where m: "hlist_del (mem st) p = Some m"
    "hlist m ?i (xs @ ys)" and k: "keeps (mem st) m {?i} (set (xs @ p # ys))"
    by blast
  have dist: "p \<notin> set xs" "p \<notin> set ys" using l by (auto simp: hlist_def)
  let ?m' = "m\<lparr>nodes := (nodes m)(p := None)\<rparr>"
  let ?st' = "st\<lparr>mem := ?m', objs := (objs st)(p := None)\<rparr>" and ?B = "B(?i := xs @ ys)"
  have other: "x \<notin> set (B ?i)" if "x \<in> set (B j)" "j < 256" "j \<noteq> ?i" for x j
    using buckets_okD(2) [OF B that(2,1)] buckets_okD(2) [OF B hash_index_less, of x "pf_id ob"] that(3)
    by (auto elim!: in_bucketE)
  have pj: "p \<notin> set (?B j)" if "j < 256" for j
    using other [of p j] that \<open>p \<in> set (B ?i)\<close> dist by auto
  have "hlist ?m' j (?B j)" if j: "j < 256" for j
  proof -
    have "hlist m j (?B j)"
    proof (cases "j = ?i")
      case False
      have "set (B j) \<inter> set (xs @ p # ys) = {}" using other [OF _ j False] xy by auto
      then have "hlist m j (B j)" using False by (intro keeps_hlist [OF k buckets_okD(1) [OF B j]]) auto
      then show ?thesis using False by simp
    qed (use m(2) in simp)
    then show ?thesis using pj [OF j] by (simp add: hlist_def)
  qed
  moreover have "in_bucket (objs ?st') j x" if j: "j < 256" and x: "x \<in> set (?B j)" for j x
  proof -
    have "x \<in> set (B j)" using x xy by (auto split: if_splits)
    moreover have "x \<noteq> p" using pj [OF j] x by auto
    ultimately show ?thesis using buckets_okD(2) [OF B j] by (simp add: in_bucket_def)
  qed
  moreover have "ids_unique (objs ?st')"
  proof (rule ids_uniqueI)
    fix q r a b
    assume "objs ?st' q = Some a" "objs ?st' r = Some b" "pf_id a = pf_id b"
    then show "q = r"
      by (intro ids_uniqueD [OF buckets_okD(3) [OF B], of q a r b]) (simp_all split: if_splits)
  qed
  moreover have "dom (objs ?st') = (\<Union>j < 256. set (?B j))"
  proof -
    have "set (?B j) = set (B j) - {p}" if j: "j < 256" for j
      using pj [OF j] xy dist by (cases "j = ?i") auto
    then have "(\<Union>j < 256. set (?B j)) = (\<Union>j < 256. set (B j)) - {p}" by blast
    then show ?thesis using buckets_okD(4) [OF B] by simp
  qed
  moreover have "dom (nodes ?m') = dom (objs ?st')"
    using k buckets_okD(5) [OF B] by (simp add: keeps_def)
  moreover have "\<forall>q \<in> dom (objs ?st'). q < brk ?st'" "0 < brk ?st'"
    using buckets_okD(6,7) [OF B] by (auto split: if_splits)
  ultimately have "buckets_ok ?st' ?B" unfolding buckets_ok_def by simp
  moreover have "drop_PendingFile st p = Some ?st'"
    using m(1) ob by (simp add: drop_PendingFile_def DelPendingFileFromHash_def delete_PendingFile_def)
  moreover have "remove1 p (B ?i) = xs @ ys" using xy dist by (simp add: remove1_append)
  ultimately show ?thesis by (intro exI [of _ ?st'] exI [of _ ?B]) simp
qed

lemma drop_PendingFile_ok:
  assumes B: "buckets_ok st B" and ob: "objs st p = Some ob"
  shows "\<exists>st'. drop_PendingFile st p = Some st' \<and> table_inv st'
    \<and> pending st' = (pending st)(pf_id ob := None)"
proof -
  obtain st' B' where d: "drop_PendingFile st p = Some st'" "buckets_ok st' B'"
    and o': "objs st' = (objs st)(p := None)"
    using drop_PendingFile_objs [OF assms] by blast
  have "pending st' = (pending st)(pf_id ob := None)"
  proof (rule pending_eqI [OF d(2)])
    fix fid a
    assume fid: "ok_id fid"
    show "(\<exists>q. objs st' q = Some a \<and> pf_id a = fid) \<longleftrightarrow> ((pending st)(pf_id ob := None)) fid = Some a"
    proof (cases "fid = pf_id ob")
      case True
      then show ?thesis
        using ids_uniqueD [OF buckets_okD(3) [OF B] _ ob] by (auto simp: o')
    next
      case False
      then have "(objs st' q = Some a \<and> pf_id a = fid) \<longleftrightarrow> (objs st q = Some a \<and> pf_id a = fid)" for q
        using ob by (auto simp: o')
      then show ?thesis using False fid by (simp add: pending_iff [OF B])
    qed
  qed (simp add: pending_def)
  then show ?thesis using d by (auto simp: table_inv_def)
qed

interpretation pending_files: id_table table_inv objs pending pf_id ok_id fresh_pfile
  GetPendingFile put_obj drop_PendingFile
proof unfold_locales
  show "pf_id (fresh_pfile k) = k" for k by (simp add: fresh_pfile_def)
  show "table_inv s \<Longrightarrow> pending s k = Some ob \<Longrightarrow> pf_id ob = k" for s k ob
    by (auto simp: table_inv_def pending_iff)
  show "table_inv s \<Longrightarrow> ok_id k \<Longrightarrow> \<exists>p s'. GetPendingFile s k = Some (p, s') \<and> table_inv s'
      \<and> objs s' p = Some (case pending s k of None \<Rightarrow> fresh_pfile k | Some ob \<Rightarrow> ob)
      \<and> pending s' = (pending s)(k \<mapsto> (case pending s k of None \<Rightarrow> fresh_pfile k | Some ob \<Rightarrow> ob))"
    for s k
    using Get_entry unfolding table_inv_def by blast
  show "table_inv s \<Longrightarrow> objs s p = Some ob \<Longrightarrow> pf_id ob' = pf_id ob \<Longrightarrow>
      table_inv (put_obj s p ob') \<and> pending (put_obj s p ob') = (pending s)(pf_id ob \<mapsto> ob')
      \<and> objs (put_obj s p ob') p = Some ob'" for s p ob ob'
  proof -
    assume a: "table_inv s" "objs s p = Some ob" "pf_id ob' = pf_id ob"
    then obtain B where B: "buckets_ok s B" by (auto simp: table_inv_def)
    have "objs (put_obj s p ob') p = Some ob'" by (simp add: put_obj_def)
    then show ?thesis using put_obj_ok [OF B a(2,3)] unfolding table_inv_def by blast
  qed
  show "table_inv s \<Longrightarrow> objs s p = Some ob \<Longrightarrow>
      \<exists>s'. drop_PendingFile s p = Some s' \<and> table_inv s' \<and> pending s' = (pending s)(pf_id ob := None)"
    for s p ob
    using drop_PendingFile_ok unfolding table_inv_def by blast
qed

end
