(* ===== verification/PendingSpec.thy ===== *)
theory PendingSpec
  imports PendingTable
begin

text \<open>
  What the three operations of the storage server do to the map of pending files and to the
  disk, and that the pieces of a file give the file whatever the order they are written in.
\<close>

section \<open>Invariant\<close>

definition file_name :: "file_id \<Rightarrow> byte list" where
  "file_name fid = hex (sha1sum fid)"

definition contents :: "store \<Rightarrow> file_id \<Rightarrow> byte list" where
  "contents st fid = (case disk st (file_name fid) of None \<Rightarrow> [] | Some c \<Rightarrow> c)"

definition fd_ok :: "store \<Rightarrow> pfile \<Rightarrow> bool" where
  "fd_ok st ob \<longleftrightarrow> opened_fd ob < 0 \<or>
     (\<exists>pos. fds st (opened_fd ob) = Some (file_name (pf_id ob), pos))
     \<and> disk st (file_name (pf_id ob)) \<noteq> None"

definition store_inv :: "store \<Rightarrow> bool" where
  "store_inv st \<longleftrightarrow> table_inv st \<and> (\<forall>fid ob. pending st fid = Some ob \<longrightarrow> fd_ok st ob)
     \<and> (\<forall>fd. fds st fd \<noteq> None \<longrightarrow> fd < next_fd st) \<and> 0 \<le> next_fd st"

lemma file_name_inj: "ok_id a \<Longrightarrow> ok_id b \<Longrightarrow> file_name a = file_name b \<Longrightarrow> a = b"
  using hex_inj [of "sha1sum a" "sha1sum b"] by (cases a; cases b) (auto simp: file_name_def ok_id_def)

lemma store_invD:
  assumes "store_inv st"
  shows "table_inv st" "pending st fid = Some ob \<Longrightarrow> fd_ok st ob"
    "fds st fd = Some x \<Longrightarrow> fd < next_fd st" "0 \<le> next_fd st"
  using assms unfolding store_inv_def by blast+

lemma pending_id:
  assumes "table_inv st" "pending st fid = Some ob"
  shows "pf_id ob = fid" "ok_id fid"
  using assms by (auto simp: table_inv_def pending_iff)

lemma pending_cong:
  assumes t: "table_inv st" and eq: "mem st' = mem st" "objs st' = objs st" "brk st' = brk st"
  shows "table_inv st'" "pending st' = pending st"
proof -
  obtain B where B: "buckets_ok st B" using t by (auto simp: table_inv_def)
  then have B': "buckets_ok st' B" using eq by (simp add: buckets_ok_def)
  then show "table_inv st'" by (auto simp: table_inv_def)
  show "pending st' = pending st"
  proof (rule pending_eqI [OF B'])
    show "ok_id k \<Longrightarrow> (\<exists>p. objs st' p = Some ob \<and> pf_id ob = k) \<longleftrightarrow> pending st k = Some ob" for k ob
      unfolding pending_iff [OF B] eq by blast
    show "\<not> ok_id k \<Longrightarrow> pending st k = None" for k by (simp add: pending_def)
  qed
qed

text \<open>The fields of the store that the table operations do not touch.\<close>

definition same_files :: "store \<Rightarrow> store \<Rightarrow> bool" where
  "same_files st st' \<longleftrightarrow> disk st' = disk st \<and> fds st' = fds st \<and> next_fd st' = next_fd st"

lemma Add_files: "AddPendingFile2Hash st p = Some (q, st') \<Longrightarrow> same_files st st'"
  by (auto simp: AddPendingFile2Hash_def delete_PendingFile_def same_files_def
      split: Option.bind_splits if_splits)

lemma Get_files: "GetPendingFile st fid = Some (p, st') \<Longrightarrow> same_files st st'"
  by (auto simp: GetPendingFile_def new_PendingFile_def same_files_def
      dest!: Add_files split: Option.bind_splits if_splits)

lemma drop_files: "drop_PendingFile st p = Some st' \<Longrightarrow> same_files st st'"
  by (auto simp: drop_PendingFile_def DelPendingFileFromHash_def delete_PendingFile_def
      same_files_def split: Option.bind_splits if_splits)

lemma put_files [simp]: "same_files st (put_obj st p ob)"
  by (simp add: put_obj_def same_files_def)

lemma fd_ok_same: "same_files st st' \<Longrightarrow> fd_ok st' ob = fd_ok st ob"
  by (simp add: fd_ok_def same_files_def)

definition entry_of :: "store \<Rightarrow> file_id \<Rightarrow> pfile" where
  "entry_of st fid = (case pending st fid of None \<Rightarrow> fresh_pfile fid | Some ob \<Rightarrow> ob)"

lemma entry_of_eq: "pending_files.entry st fid = entry_of st fid"
  by (simp add: entry_of_def pending_files.entry_def)

lemma fd_ok_entry: "store_inv st \<Longrightarrow> fd_ok st (entry_of st fid)"
  using store_invD(2) by (auto simp: entry_of_def fd_ok_def fresh_pfile_def split: option.split)

section \<open>Setting the size\<close>

lemma SetPendingFileSize_map:
  assumes inv: "store_inv st" and fid: "ok_id fid"
  shows "\<exists>st'. SS_SetPendingFileSize st fid sz = Some st' \<and> store_inv st'
    \<and> pending st' = (pending st)(fid \<mapsto> (entry_of st fid)\<lparr>file_size := sz\<rparr>)
    \<and> same_files st st'"
proof -
  let ?f = "\<lambda>ob. ob\<lparr>file_size := sz\<rparr>"
  obtain p s' where g: "GetPendingFile st fid = Some (p, s')" "objs s' p = Some (entry_of st fid)"
    and t: "table_inv (put_obj s' p (?f (entry_of st fid)))"
    and m: "pending (put_obj s' p (?f (entry_of st fid))) = (pending st)(fid \<mapsto> ?f (entry_of st fid))"
    using pending_files.modify [OF store_invD(1) [OF inv] fid, of ?f] by (auto simp: entry_of_eq)
  let ?st = "put_obj s' p (?f (entry_of st fid))"
  have same: "same_files st ?st" using Get_files [OF g(1)] by (simp add: same_files_def put_obj_def)
  have "fd_ok st (?f (entry_of st fid))" using fd_ok_entry [OF inv] by (simp add: fd_ok_def)
  then have "store_inv ?st"
    using t m store_invD [OF inv] fd_ok_same [OF same] same
    by (auto simp: store_inv_def same_files_def)
  then show ?thesis using g m same by (simp add: SS_SetPendingFileSize_def)
qed

section \<open>Writing data\<close>

lemma GenFileName_name:
  "ok_id fid \<Longrightarrow> do { b \<leftarrow> GenFileName fid (zeros 41); c_str b 0 } = Some (file_name fid)"
  using GenFileName_hex [of fid "zeros 41"] c_str_app0 [OF hex_no_nul, of "sha1sum fid" "[]"]
  by (simp add: file_name_def)

text \<open>After the first locked part the object has an open descriptor on its own file.\<close>

lemma wd_open_map:
  assumes t: "table_inv st" and fid: "ok_id fid" and ob: "objs st p = Some ob" "pf_id ob = fid"
    and fd: "fd_ok st ob" and nx: "\<forall>fd. fds st fd \<noteq> None \<longrightarrow> fd < next_fd st" "0 \<le> next_fd st"
  shows "\<exists>st' fd pos. wd_open st fid p = Some st' \<and> table_inv st' \<and> 0 \<le> fd
    \<and> objs st' p = Some (ob\<lparr>opened_fd := fd\<rparr>)
    \<and> pending st' = (pending st)(fid \<mapsto> ob\<lparr>opened_fd := fd\<rparr>)
    \<and> fds st' = (fds st)(fd \<mapsto> (file_name fid, pos))
    \<and> disk st' = (disk st)(file_name fid \<mapsto> contents st fid)
    \<and> (\<forall>fd. fds st' fd \<noteq> None \<longrightarrow> fd < next_fd st') \<and> 0 \<le> next_fd st'
    \<and> (fd = opened_fd ob \<or> fds st fd = None)"
proof (cases "opened_fd ob < 0")
  case True
  let ?st1 = "snd (open_wr st (file_name fid))" and ?ob = "ob\<lparr>opened_fd := next_fd st\<rparr>"
  let ?st' = "put_obj ?st1 p ?ob"
  have t1: "table_inv ?st1" "objs ?st1 = objs st" "pending ?st1 = pending st"
    using pending_cong [OF t, of ?st1] by (simp_all add: open_wr_def)
  have "objs ?st1 p = Some ob" "pf_id ?ob = pf_id ob" using t1 ob by simp_all
  note put = pending_files.put_entry [OF t1(1) this]
  have "wd_open st fid p = Some ?st'"
    using True ob GenFileName_name [OF fid]
    by (auto simp: wd_open_def open_wr_def split: Option.bind_splits)
  moreover have "fds st (next_fd st) = None" using nx(1) by (metis less_irrefl)
  moreover have "\<forall>fd. fds ?st' fd \<noteq> None \<longrightarrow> fd < next_fd ?st'"
  proof (intro allI impI)
    fix fd assume "fds ?st' fd \<noteq> None"
    then have "fd = next_fd st \<or> fds st fd \<noteq> None" by (auto simp: put_obj_def open_wr_def split: if_splits)
    then have "fd \<le> next_fd st" using nx(1) by (auto dest: less_imp_le)
    then show "fd < next_fd ?st'" by (simp add: put_obj_def open_wr_def)
  qed
  ultimately show ?thesis
    using put t1 ob nx
    by (intro exI [of _ ?st'] exI [of _ "next_fd st"] exI [of _ 0])
      (auto simp: put_obj_def open_wr_def contents_def)
next
  case False
  then obtain pos where pos: "fds st (opened_fd ob) = Some (file_name fid, pos)"
    and d: "disk st (file_name fid) \<noteq> None"
    using fd ob by (auto simp: fd_ok_def)
  obtain B where B: "buckets_ok st B" using t by (auto simp: table_inv_def)
  have "pending st fid = Some ob" using pending_iff [OF B] ob fid by blast
  then show ?thesis
    using False pos d ob t nx
    by (intro exI [of _ st] exI [of _ "opened_fd ob"] exI [of _ pos])
      (auto simp: wd_open_def contents_def fun_upd_idem)
qed

lemma WriteData_map:
  assumes inv: "store_inv st" and fid: "ok_id fid"
  shows "\<exists>st' fd. SS_WriteData2PendingFile st fid d off = Some st' \<and> store_inv st'
    \<and> pending st' = (pending st)(fid \<mapsto> (entry_of st fid)
        \<lparr>opened_fd := fd, dl_size := dl_size (entry_of st fid) + of_nat (length d)\<rparr>)
    \<and> disk st' = (disk st)(file_name fid \<mapsto> splice (contents st fid) (unat off) d) \<and> 0 \<le> fd"
proof -
  let ?e = "entry_of st fid" and ?n = "file_name fid"
  obtain p s1 where g: "GetPendingFile st fid = Some (p, s1)" and t1: "table_inv s1"
    and e1: "objs s1 p = Some ?e" and m1: "pending s1 = (pending st)(fid \<mapsto> ?e)"
    using pending_files.get_entry' [OF store_invD(1) [OF inv] fid] by (metis entry_of_eq)
  have same: "same_files st s1" by (rule Get_files [OF g])
  have id: "pf_id ?e = fid"
    using pending_files.key_entry [OF store_invD(1) [OF inv]] by (simp add: entry_of_eq)
  have "fd_ok s1 ?e" using fd_ok_entry [OF inv] fd_ok_same [OF same] by simp
  moreover have "\<forall>fd. fds s1 fd \<noteq> None \<longrightarrow> fd < next_fd s1" "0 \<le> next_fd s1"
    using inv same by (auto simp: store_inv_def same_files_def)
  ultimately obtain s2 fd pos where w: "wd_open s1 fid p = Some s2" and t2: "table_inv s2"
    and fd: "0 \<le> fd" and e2: "objs s2 p = Some (?e\<lparr>opened_fd := fd\<rparr>)"
    and m2: "pending s2 = (pending s1)(fid \<mapsto> ?e\<lparr>opened_fd := fd\<rparr>)"
    and f2: "fds s2 = (fds s1)(fd \<mapsto> (?n, pos))"
    and d2: "disk s2 = (disk s1)(?n \<mapsto> contents s1 fid)"
    and n2: "\<forall>fd. fds s2 fd \<noteq> None \<longrightarrow> fd < next_fd s2" "0 \<le> next_fd s2"
    and fresh: "fd = opened_fd ?e \<or> fds s1 fd = None"
    using wd_open_map [OF t1 fid e1 id] by blast
  let ?s4 = "s2\<lparr>fds := (fds s2)(fd \<mapsto> (?n, unat off + length d)),
      disk := (disk s2)(?n \<mapsto> splice (contents s1 fid) (unat off) d)\<rparr>"
  have s4: "do { s3 \<leftarrow> wd_lseek s2 p off; wd_write s3 p d } = Some ?s4"
    using e2 f2 d2 by (simp add: wd_lseek_def do_lseek_def wd_write_def do_write_def)
  let ?ob = "?e\<lparr>opened_fd := fd, dl_size := dl_size ?e + of_nat (length d)\<rparr>"
  let ?s5 = "put_obj ?s4 p ?ob"
  have t4: "table_inv ?s4" "pending ?s4 = pending s2"
    using pending_cong [OF t2, of ?s4] by simp_all
  have "objs ?s4 p = Some (?e\<lparr>opened_fd := fd\<rparr>)" "pf_id ?ob = pf_id (?e\<lparr>opened_fd := fd\<rparr>)"
    using e2 by simp_all
  note put = pending_files.put_entry [OF t4(1) this]
  have m5: "pending ?s5 = (pending st)(fid \<mapsto> ?ob)" using put t4 m2 m1 id by simp
  have "SS_WriteData2PendingFile st fid d off = Some ?s5"
    using g w s4 e2 by (auto simp: SS_WriteData2PendingFile_def wd_account_def split: Option.bind_splits)
  moreover have "store_inv ?s5"
  proof -
    have "fd_ok ?s5 ob" if k: "pending ?s5 k = Some ob" for k ob
    proof (cases "k = fid")
      case True
      then show ?thesis using k m5 id fd by (auto simp: fd_ok_def put_obj_def)
    next
      case False
      then have ob: "pending st k = Some ob" using k m5 by simp
      then have k': "pf_id ob = k" "ok_id k" using pending_id store_invD(1) [OF inv] by blast+
      then have n: "file_name (pf_id ob) \<noteq> ?n" using file_name_inj fid False by blast
      have ok: "fd_ok st ob" using store_invD(2) [OF inv ob] .
      have "opened_fd ob \<noteq> fd" if nn: "0 \<le> opened_fd ob"
      proof
        assume eq: "opened_fd ob = fd"
        obtain pos' where "fds st fd = Some (file_name (pf_id ob), pos')"
          using ok nn eq by (auto simp: fd_ok_def)
        moreover have "fds st fd = None \<or> (\<exists>q. fds st fd = Some (?n, q))"
          using fresh fd fd_ok_entry [OF inv, of fid] id same
          by (auto simp: fd_ok_def same_files_def)
        ultimately show False using n by auto
      qed
      then have "opened_fd ob < 0 \<or> opened_fd ob \<noteq> fd" by linarith
      then show ?thesis
        using ok n f2 d2 same by (auto simp: fd_ok_def put_obj_def same_files_def)
    qed
    moreover have "\<forall>x. fds ?s5 x \<noteq> None \<longrightarrow> x < next_fd ?s5" "0 \<le> next_fd ?s5"
      using n2 f2 by (auto simp: put_obj_def split: if_splits)
    ultimately show ?thesis using put unfolding store_inv_def by blast
  qed
  moreover have "disk ?s5 = (disk st)(?n \<mapsto> splice (contents st fid) (unat off) d)"
    using d2 same by (simp add: put_obj_def same_files_def contents_def)
  ultimately show ?thesis using m5 fd by blast
qed

section \<open>Closing\<close>

lemma close_wait_done:
  assumes "objs st p = Some ob" and "file_size ob = dl_size ob"
  shows "close_wait st p = map_option Closed (drop_PendingFile
    (put_obj (do_close st (opened_fd ob)) p (ob\<lparr>opened_fd := -1\<rparr>)) p)"
  using assms by (auto simp: close_wait_def drop_PendingFile_def split: Option.bind_split)

lemma ClosePendingFile_map:
  assumes inv: "store_inv st" and fid: "ok_id fid"
  shows "if file_size (entry_of st fid) = dl_size (entry_of st fid)
    then (\<exists>st'. SS_ClosePendingFile st fid = Some (Closed st') \<and> store_inv st'
      \<and> pending st' = (pending st)(fid := None) \<and> disk st' = disk st)
    else (\<exists>p st'. SS_ClosePendingFile st fid = Some (Waiting p st') \<and> store_inv st'
      \<and> pending st' = (pending st)(fid \<mapsto> entry_of st fid)
      \<and> objs st' p = Some (entry_of st fid) \<and> disk st' = disk st)"
proof -
  let ?e = "entry_of st fid"
  obtain p s1 where g: "GetPendingFile st fid = Some (p, s1)" and t1: "table_inv s1"
    and e1: "objs s1 p = Some ?e" and m1: "pending s1 = (pending st)(fid \<mapsto> ?e)"
    using pending_files.get_entry' [OF store_invD(1) [OF inv] fid] by (metis entry_of_eq)
  have same: "same_files st s1" by (rule Get_files [OF g])
  have id: "pf_id ?e = fid"
    using pending_files.key_entry [OF store_invD(1) [OF inv]] by (simp add: entry_of_eq)
  show ?thesis
  proof (cases "file_size ?e = dl_size ?e")
    case False
    have "store_inv s1"
      using t1 m1 store_invD [OF inv] fd_ok_entry [OF inv] same fd_ok_same [OF same]
      by (auto simp: store_inv_def same_files_def)
    then show ?thesis
      using False g e1 m1 same
      by (simp add: SS_ClosePendingFile_def close_wait_def same_files_def)
  next
    case True
    let ?s2 = "do_close s1 (opened_fd ?e)"
    let ?s3 = "put_obj ?s2 p (?e\<lparr>opened_fd := -1\<rparr>)"
    have t2: "table_inv ?s2" "pending ?s2 = pending s1" "objs ?s2 p = Some ?e"
      using pending_cong [OF t1, of ?s2] e1 by (simp_all add: do_close_def)
    note put = pending_files.put_entry [OF t2(1,3), of "?e\<lparr>opened_fd := -1\<rparr>", simplified]
    obtain s4 where s4: "drop_PendingFile ?s3 p = Some s4" "table_inv s4"
      and m4: "pending s4 = (pending ?s3)(fid := None)"
      using pending_files.remove_entry [of ?s3 p "?e\<lparr>opened_fd := -1\<rparr>"] put id by auto
    have f4: "disk s4 = disk st" "fds s4 = (fds st)(opened_fd ?e := None)" "next_fd s4 = next_fd st"
      using drop_files [OF s4(1)] same by (auto simp: same_files_def put_obj_def do_close_def)
    have m: "pending s4 = (pending st)(fid := None)" using m4 put t2(2) m1 id by simp
    have "fd_ok s4 ob" if k: "pending s4 k = Some ob" for k ob
    proof -
      have ob: "pending st k = Some ob" "k \<noteq> fid" using k m by (auto split: if_splits)
      then have k': "pf_id ob = k" "ok_id k" using pending_id store_invD(1) [OF inv] by blast+
      then have n: "file_name (pf_id ob) \<noteq> file_name fid" using file_name_inj fid ob(2) by blast
      have "fd_ok st ob" "fd_ok st ?e" using store_invD(2) [OF inv ob(1)] fd_ok_entry [OF inv] .
      then show ?thesis using n id f4 by (auto simp: fd_ok_def)
    qed
    moreover have "\<forall>x. fds s4 x \<noteq> None \<longrightarrow> x < next_fd s4" "0 \<le> next_fd s4"
      using inv f4 by (auto simp: store_inv_def)
    ultimately have "store_inv s4" using s4(2) unfolding store_inv_def by blast
    then show ?thesis
      using True g s4(1) close_wait_done [OF e1 True] m f4
      by (simp add: SS_ClosePendingFile_def)
  qed
qed

section \<open>Pieces of a file\<close>

lemma length_splice [simp]:
  "d \<noteq> [] \<Longrightarrow> length (splice c off d) = max (length c) (off + length d)"
  by (auto simp: splice_def min_def max_def)

lemma nth_splice:
  assumes "d \<noteq> []" "i < length (splice c off d)"
  shows "splice c off d ! i =
    (if off \<le> i \<and> i < off + length d then d ! (i - off)
     else if i < length c then c ! i else 0)"
  using assms by (auto simp: splice_def nth_append zeros_def min_def max_def)

text \<open>What is on disk after some pieces of \<open>c\<close>: their bytes, and nothing beyond \<open>c\<close>.\<close>

definition piece_of :: "byte list \<Rightarrow> nat \<times> byte list \<Rightarrow> bool" where
  "piece_of c x \<longleftrightarrow> fst x + length (snd x) \<le> length c
     \<and> snd x = take (length (snd x)) (drop (fst x) c)"

definition covers :: "(nat \<times> byte list) list \<Rightarrow> nat \<Rightarrow> bool" where
  "covers ps i \<longleftrightarrow> (\<exists>x \<in> set ps. fst x \<le> i \<and> i < fst x + length (snd x))"

definition agrees :: "byte list \<Rightarrow> (nat \<times> byte list) list \<Rightarrow> byte list \<Rightarrow> bool" where
  "agrees c ps b \<longleftrightarrow> length b \<le> length c \<and> (\<forall>i. covers ps i \<longrightarrow> i < length b \<and> b ! i = c ! i)"

definition splices :: "byte list \<Rightarrow> (nat \<times> byte list) list \<Rightarrow> byte list" where
  "splices b ps = foldl (\<lambda>b x. splice b (fst x) (snd x)) b ps"

lemma agrees_splice:
  assumes "agrees c ps b" and x: "piece_of c (off, d)"
  shows "agrees c (ps @ [(off, d)]) (splice b off d)"
proof (cases "d = []")
  case True
  then have "covers (ps @ [(off, d)]) i = covers ps i" for i by (auto simp: covers_def)
  then show ?thesis using assms True by (simp add: agrees_def splice_def)
next
  case False
  have le: "off + length d \<le> length c" and d: "d = take (length d) (drop off c)"
    using x by (simp_all add: piece_of_def)
  have dn: "d ! (i - off) = c ! i" if "off \<le> i" "i < off + length d" for i
  proof -
    have "d ! (i - off) = take (length d) (drop off c) ! (i - off)" using d by simp
    also have "\<dots> = c ! i" using that le by simp
    finally show ?thesis .
  qed
  show ?thesis
    unfolding agrees_def
  proof (intro conjI allI impI)
    show "length (splice b off d) \<le> length c" using assms(1) le False by (simp add: agrees_def)
  next
    fix i assume i: "covers (ps @ [(off, d)]) i"
    show "i < length (splice b off d)"
      using i assms(1) False by (auto simp: covers_def agrees_def)
    then show "splice b off d ! i = c ! i"
      using i assms(1) dn False by (auto simp: nth_splice covers_def agrees_def)
  qed
qed

lemma splices_agree:
  "agrees c ps b \<Longrightarrow> \<forall>x \<in> set qs. piece_of c x \<Longrightarrow> agrees c (ps @ qs) (splices b qs)"
proof (induction qs arbitrary: ps b)
  case (Cons x qs)
  have "agrees c (ps @ [x]) (splice b (fst x) (snd x))"
    using agrees_splice [of c ps b "fst x" "snd x"] Cons.prems by simp
  from Cons.IH [OF this] Cons.prems show ?case by (simp add: splices_def)
qed (simp add: splices_def)

lemma splices_whole:
  assumes "\<forall>x \<in> set qs. piece_of c x" and "\<forall>i < length c. covers qs i"
  shows "splices [] qs = c"
proof -
  have "agrees c [] []" by (simp add: agrees_def covers_def)
  from splices_agree [OF this assms(1)] have a: "agrees c qs (splices [] qs)" by simp
  have "length (splices [] qs) = length c"
  proof (cases c)
    case Nil
    then show ?thesis using a by (simp add: agrees_def)
  next
    case (Cons y ys)
    then have "covers qs (length c - 1)" using assms(2) by simp
    then show ?thesis using a Cons by (auto simp: agrees_def)
  qed
  then show ?thesis using a assms(2) by (auto simp: agrees_def intro: nth_equalityI)
qed

end
