(* ===== verification/TableEnd.thy ===== *)
theory TableEnd
  imports PendingSpec
begin

text \<open>
  The end of the storage server (\<^verbatim>\<open>DeinitHashTable\<close>, called by its signal handler): the loop over
  the 256 lists ends, deletes every pending file and closes the descriptors they hold.
\<close>

section \<open>What is released\<close>

definition frees :: "store \<Rightarrow> store \<Rightarrow> int \<Rightarrow> bool" where
  "frees st st' fd \<longleftrightarrow> (\<exists>p ob. objs st p = Some ob \<and> objs st' p = None \<and> opened_fd ob = fd \<and> 0 \<le> fd)"

definition released :: "store \<Rightarrow> store \<Rightarrow> bool" where
  "released st st' \<longleftrightarrow> objs st' \<subseteq>\<^sub>m objs st \<and> disk st' = disk st
     \<and> (\<forall>fd. fds st' fd = (if frees st st' fd then None else fds st fd))"

lemma released_refl: "released st st"
  by (auto simp: released_def frees_def)

lemma frees_trans:
  assumes sub: "objs st2 \<subseteq>\<^sub>m objs st1" "objs st3 \<subseteq>\<^sub>m objs st2"
  shows "frees st1 st3 fd \<longleftrightarrow> frees st1 st2 fd \<or> frees st2 st3 fd"
proof
  assume "frees st1 st3 fd"
  then obtain p ob where p: "objs st1 p = Some ob" "objs st3 p = None" "opened_fd ob = fd" "0 \<le> fd"
    by (auto simp: frees_def)
  show "frees st1 st2 fd \<or> frees st2 st3 fd"
  proof (cases "objs st2 p")
    case None
    then show ?thesis using p by (auto simp: frees_def)
  next
    case (Some ob2)
    then have "ob2 = ob" using sub(1) p(1) by (metis domI map_le_def option.inject)
    then show ?thesis using Some p by (auto simp: frees_def)
  qed
next
  assume "frees st1 st2 fd \<or> frees st2 st3 fd"
  then show "frees st1 st3 fd"
    using sub unfolding map_le_def frees_def by (metis domI domIff not_None_eq)
qed

lemma released_trans: "released st1 st2 \<Longrightarrow> released st2 st3 \<Longrightarrow> released st1 st3"
  using frees_trans [of st2 st1 st3] map_le_trans [of "objs st3" "objs st2" "objs st1"]
  by (simp add: released_def)

section \<open>One list\<close>

lemma chain_first: "chain f s p xs \<Longrightarrow> p = (case xs of [] \<Rightarrow> 0 | x # _ \<Rightarrow> x)"
  by (cases xs) auto

lemma buckets_close: "buckets_ok st B \<Longrightarrow> buckets_ok (do_close st fd) B"
  by (simp add: buckets_ok_def do_close_def)

lemma delete_close:
  "delete_PendingFile (do_close st fd) p = map_option (\<lambda>s. do_close s fd) (delete_PendingFile st p)"
  by (simp add: delete_PendingFile_def do_close_def)

lemma deinit_first:
  assumes B: "buckets_ok st B" and i: "i < 256" and b: "B i = p # ps"
  shows "\<exists>d st1. nodes (mem st) p = Some d \<and> heads (mem st) i = p \<and> p \<noteq> 0
    \<and> deinit_bucket st p = deinit_bucket st1 (hnext d) \<and> buckets_ok st1 (B(i := ps))
    \<and> heads (mem st1) i = hnext d \<and> released st st1"
proof -
  have l: "hlist (mem st) i (p # ps)" using buckets_okD(1) [OF B i] b by simp
  then obtain d where d: "nodes (mem st) p = Some d" "heads (mem st) i = p" "p \<noteq> 0"
    "chain (nodes (mem st)) (NextOf p) (hnext d) ps" by (auto simp: hlist_def)
  obtain ob where ob: "objs st p = Some ob" "hash_index (pf_id ob) = i"
    using buckets_okD(2) [OF B i, of p] b by (auto elim: in_bucketE)
  obtain sa B1 where sa: "drop_PendingFile st p = Some sa" "buckets_ok sa B1" "objs sa = (objs st)(p := None)"
    "B1 = B(i := ps)"
    using drop_PendingFile_objs [OF B ob(1)] ob(2) b by auto
  let ?fd = "opened_fd ob"
  define st1 where "st1 = (if 0 \<le> ?fd then do_close sa ?fd else sa)"
  have f: "fds sa = fds st" "disk sa = disk st" using drop_files [OF sa(1)] by (simp_all add: same_files_def)
  obtain s1 where s1: "DelPendingFileFromHash st p = Some s1" "delete_PendingFile s1 p = Some sa"
    using sa(1) by (auto simp: drop_PendingFile_def split: Option.bind_splits)
  have "deinit_bucket st p = deinit_bucket st1 (hnext d)"
    by (subst deinit_bucket.simps) (simp add: d ob s1 delete_close st1_def)
  moreover have ok: "buckets_ok st1 (B(i := ps))" using sa(2,4) buckets_close by (simp add: st1_def)
  moreover have "hlist (mem st1) i ps" using buckets_okD(1) [OF ok i] by simp
  then have "chain (nodes (mem st1)) (First i) (heads (mem st1) i) ps" by (simp add: hlist_def)
  then have "heads (mem st1) i = hnext d" using chain_first [OF d(4)] chain_first by metis
  moreover have "released st st1"
    unfolding released_def frees_def st1_def using sa(3) f ob(1) by (auto simp: do_close_def map_le_def)
  ultimately show ?thesis using d(1-3) by blast
qed

lemma deinit_bucket_list:
  assumes "buckets_ok st B" "i < 256"
  shows "\<exists>st'. deinit_bucket st (heads (mem st) i) = Some st' \<and> buckets_ok st' (B(i := [])) \<and> released st st'"
  using assms(1)
proof (induction "B i" arbitrary: st B)
  case Nil
  then have "heads (mem st) i = 0" "B(i := []) = B"
    using buckets_okD(1) [OF Nil.prems assms(2)] by (auto simp: hlist_def)
  then show ?case using Nil.prems by (simp add: deinit_bucket.simps [of st 0] released_refl)
next
  case (Cons p ps)
  obtain d st1 where s: "nodes (mem st) p = Some d" "heads (mem st) i = p" "deinit_bucket st p = deinit_bucket st1 (hnext d)"
    "buckets_ok st1 (B(i := ps))" "heads (mem st1) i = hnext d" "released st st1"
    using deinit_first [OF Cons.prems assms(2) Cons.hyps(2) [symmetric]] by blast
  obtain st' where "deinit_bucket st1 (heads (mem st1) i) = Some st'" "buckets_ok st' (B(i := []))" "released st1 st'"
    using Cons.hyps(1) [OF _ s(4)] by auto
  then show ?case using s released_trans [OF s(6)] by auto
qed

section \<open>All lists\<close>

lemma deinit_loop_lists:
  assumes "buckets_ok st B" "k \<le> 256" "\<forall>i < 256 - k. B i = []"
  shows "\<exists>st' B'. deinit_loop k st = Some st' \<and> buckets_ok st' B' \<and> (\<forall>i < 256. B' i = []) \<and> released st st'"
  using assms
proof (induction k arbitrary: st B)
  case 0
  then show ?case by (auto simp: released_refl)
next
  case (Suc k)
  have i: "256 - Suc k < 256" by simp
  obtain st1 where s: "deinit_bucket st (heads (mem st) (256 - Suc k)) = Some st1"
    "buckets_ok st1 (B(256 - Suc k := []))" "released st st1"
    using deinit_bucket_list [OF Suc.prems(1) i] by blast
  have "\<forall>j < 256 - k. (B(256 - Suc k := [])) j = []"
  proof (intro allI impI)
    fix j assume "j < 256 - k"
    then have "j < 256 - Suc k \<or> j = 256 - Suc k" using Suc.prems(2) by linarith
    then show "(B(256 - Suc k := [])) j = []" using Suc.prems(3) by auto
  qed
  from Suc.IH [OF s(2) _ this] Suc.prems(2) obtain st' B' where
    "deinit_loop k st1 = Some st'" "buckets_ok st' B'" "\<forall>i < 256. B' i = []" "released st1 st'"
    by auto
  then show ?case using s(1) released_trans [OF s(3)] by auto
qed

lemma DeinitHashTable_ends:
  assumes "table_inv st"
  shows "\<exists>st'. DeinitHashTable st = Some st' \<and> table_inv st' \<and> objs st' = Map.empty
    \<and> pending st' = Map.empty \<and> disk st' = disk st
    \<and> (\<forall>fd. fds st' fd = (if \<exists>p ob. objs st p = Some ob \<and> opened_fd ob = fd \<and> 0 \<le> fd then None else fds st fd))"
proof -
  obtain B where B: "buckets_ok st B" using assms by (auto simp: table_inv_def)
  obtain st' B' where s: "deinit_loop 256 st = Some st'" "buckets_ok st' B'" "\<forall>i < 256. B' i = []" "released st st'"
    using deinit_loop_lists [OF B, of 256] by auto
  have "dom (objs st') = {}" using buckets_okD(4) [OF s(2)] s(3) by simp
  then have o': "objs st' = Map.empty" by simp
  have "pending st' = Map.empty" by (rule pending_eqI [OF s(2)]) (simp_all add: o')
  then show ?thesis
    using s(1,2,4) o' by (auto simp: DeinitHashTable_def table_inv_def released_def frees_def)
qed

end
