(* ===== verification/ShmCtl.thy ===== *)
theory ShmCtl
  imports CText
begin

text \<open>
  The shared memory of the router (\<^verbatim>\<open>share_mem/w_shm_ctl.cpp\<close>, \<^verbatim>\<open>w_shm_conf.cpp\<close>): ten
  blocks of 8192 bytes in one System V segment, whose key and id go through a configuration
  file. \<open>kernel\<close> is the part of the system the class calls into. \<open>None\<close> is an access
  outside of the segment.
\<close>

section \<open>Configuration and kernel\<close>

definition shm_block_size :: int where
  "shm_block_size = 10"

definition process_size :: int where
  "process_size = 2"

definition mem_size :: int where
  "mem_size = 8 * 1024 * shm_block_size"

definition shmid_conf :: "byte list" where
  "shmid_conf = ascii ''conf/shmid.conf''"

text \<open>
  Segments by id, ids by key, semaphore sets by id (the values) and by key, and the files below
  \<^verbatim>\<open>conf\<close>. A segment larger than \<open>shm_max\<close> is refused; \<open>conf_writable\<close> says whether
  the files can be opened for writing.
\<close>

record kernel =
  segs :: "int \<rightharpoonup> cbuf"
  shm_keys :: "int \<rightharpoonup> int"
  next_shm :: int
  shm_max :: nat
  sem_sets :: "int \<rightharpoonup> int list"
  sem_keys :: "int \<rightharpoonup> int"
  next_sem :: int
  conf_files :: "byte list \<rightharpoonup> byte list"
  conf_writable :: bool

definition new_segment :: "kernel \<Rightarrow> nat \<Rightarrow> int \<times> kernel" where
  "new_segment k sz =
     (next_shm k, k\<lparr>segs := (segs k)(next_shm k \<mapsto> zeros sz), next_shm := next_shm k + 1\<rparr>)"

text \<open>\<^verbatim>\<open>shmget(key, size, IPC_CREAT | 0600)\<close>; key 0 is \<^verbatim>\<open>IPC_PRIVATE\<close>.\<close>

definition shmget :: "kernel \<Rightarrow> int \<Rightarrow> nat \<Rightarrow> int \<times> kernel" where
  "shmget k key sz =
     (case (if key = 0 then None else shm_keys k key) of
        Some i \<Rightarrow>
          (case segs k i of
             Some b \<Rightarrow> if sz \<le> length b then (i, k) else (-1, k)
           | None \<Rightarrow> (-1, k))
      | None \<Rightarrow>
          if shm_max k < sz then (-1, k)
          else
            (let (i, k') = new_segment k sz in
             (i, if key = 0 then k' else k'\<lparr>shm_keys := (shm_keys k')(key \<mapsto> i)\<rparr>)))"

text \<open>A file opened for writing is truncated and gets \<open>txt\<close>.\<close>

definition write_conf :: "kernel \<Rightarrow> byte list \<Rightarrow> byte list \<Rightarrow> bool \<times> kernel" where
  "write_conf k name txt =
     (if conf_writable k then (True, k\<lparr>conf_files := (conf_files k)(name \<mapsto> txt)\<rparr>) else (False, k))"

section \<open>State\<close>

text \<open>\<open>shmaddr\<close> is the segment attached, \<open>None\<close> before \<open>AttachMem\<close> succeeded.\<close>

record shm_ctl =
  shmkey :: int
  shmid :: int
  shmaddr :: "int option"

definition W_ShmCtl :: shm_ctl where
  "W_ShmCtl = \<lparr>shmkey = 0, shmid = 0, shmaddr = None\<rparr>"

definition GetPerBlockSize :: int where
  "GetPerBlockSize = mem_size div shm_block_size"

definition GetBlockSize :: int where
  "GetBlockSize = shm_block_size"

section \<open>Operations\<close>

definition conf_line :: "byte list \<Rightarrow> int \<Rightarrow> byte list" where
  "conf_line name v = name @ space # dec_int v @ [newline]"

definition WriteShmid :: "kernel \<Rightarrow> shm_ctl \<Rightarrow> bool \<times> kernel" where
  "WriteShmid k c =
     write_conf k shmid_conf (conf_line (ascii ''shmid'') (shmid c) @ conf_line (ascii ''shmkey'') (shmkey c))"

definition set_pair :: "byte list \<times> int \<Rightarrow> shm_ctl \<Rightarrow> shm_ctl" where
  "set_pair nv c =
     (let c1 = (if fst nv = ascii ''shmid'' then c\<lparr>shmid := snd nv\<rparr> else c) in
      if fst nv = ascii ''shmkey'' then c1\<lparr>shmkey := snd nv\<rparr> else c1)"

definition ReadShmid :: "kernel \<Rightarrow> shm_ctl \<Rightarrow> bool \<times> shm_ctl" where
  "ReadShmid k c =
     (let c0 = c\<lparr>shmid := 0, shmkey := 0\<rparr> in
      case conf_files k shmid_conf of
        None \<Rightarrow> (False, c0)
      | Some txt \<Rightarrow>
          (let c1 = fold set_pair (kv_pairs txt) c0 in
           (shmid c1 \<noteq> 0 \<and> shmkey c1 \<noteq> 0, c1)))"

text \<open>\<open>now\<close> is \<^verbatim>\<open>time(NULL)\<close>.\<close>

definition CreateShmkey :: "kernel \<Rightarrow> int \<Rightarrow> shm_ctl \<Rightarrow> bool \<times> shm_ctl" where
  "CreateShmkey k now c =
     (let (ok, c1) = ReadShmid k c in (True, if ok then c1 else c1\<lparr>shmkey := now\<rparr>))"

definition CreateShm :: "kernel \<Rightarrow> shm_ctl \<Rightarrow> bool \<times> kernel \<times> shm_ctl" where
  "CreateShm k c =
     (let (i, k1) = shmget k (shmkey c) (nat mem_size); c1 = c\<lparr>shmid := i\<rparr> in
      if i < 0 then (False, k1, c1)
      else (let (ok, k2) = WriteShmid k1 c1 in (ok, k2, c1)))"

text \<open>\<^verbatim>\<open>shmctl(IPC_STAT)\<close> and \<^verbatim>\<open>shmat\<close> fail on an id that names no segment.\<close>

definition AttachMem :: "kernel \<Rightarrow> shm_ctl \<Rightarrow> bool \<times> shm_ctl" where
  "AttachMem k c =
     (if shmid c = -1 then (False, c)
      else if segs k (shmid c) = None then (False, c)
      else (True, c\<lparr>shmaddr := Some (shmid c)\<rparr>))"

definition Destory :: "kernel \<Rightarrow> shm_ctl \<Rightarrow> bool \<times> kernel" where
  "Destory k c =
     (if shmid c = -1 then (False, k)
      else if shmaddr c = None then (False, k)
      else if segs k (shmid c) = None then (False, k)
      else (True, k\<lparr>segs := (segs k)(shmid c := None)\<rparr>))"

definition HasShm :: "shm_ctl \<Rightarrow> bool" where
  "HasShm c \<longleftrightarrow> shmkey c \<noteq> 0 \<and> shmid c \<noteq> 0"

text \<open>\<^verbatim>\<open>memcpy\<close> at \<open>shmaddr + pos\<close>.\<close>

definition mem_write :: "kernel \<Rightarrow> int option \<Rightarrow> int \<Rightarrow> byte list \<Rightarrow> kernel option" where
  "mem_write k addr pos d =
     do {
       i \<leftarrow> addr;
       b \<leftarrow> segs k i;
       b' \<leftarrow> (if pos < 0 then None else wr_bytes b (nat pos) d);
       Some (k\<lparr>segs := (segs k)(i \<mapsto> b')\<rparr>)
     }"

definition mem_read :: "kernel \<Rightarrow> int option \<Rightarrow> int \<Rightarrow> nat \<Rightarrow> byte list option" where
  "mem_read k addr pos n =
     do {
       i \<leftarrow> addr;
       b \<leftarrow> segs k i;
       if pos < 0 then None else rd_bytes b (nat pos) n
     }"

definition Write :: "kernel \<Rightarrow> shm_ctl \<Rightarrow> byte list \<Rightarrow> int \<Rightarrow> (bool \<times> kernel) option" where
  "Write k c buf index =
     (if shmid c = -1 then Some (False, k)
      else if index > shm_block_size then Some (False, k)
      else if int (length buf) > mem_size div shm_block_size then Some (False, k)
      else map_option (Pair True) (mem_write k (shmaddr c) (index * GetPerBlockSize) buf))"

text \<open>\<open>len\<close> is the size of the caller's buffer; \<open>None\<close> in the pair: nothing was copied.\<close>

definition Read :: "kernel \<Rightarrow> shm_ctl \<Rightarrow> int \<Rightarrow> int \<Rightarrow> byte list option option" where
  "Read k c len index =
     (if shmid c = -1 then Some None
      else if index > shm_block_size then Some None
      else if len \<noteq> GetPerBlockSize then Some None
      else map_option Some (mem_read k (shmaddr c) (index * GetPerBlockSize) (nat len)))"

section \<open>Blocks\<close>

text \<open>An attached segment of the right size, and its blocks.\<close>

definition attached :: "kernel \<Rightarrow> shm_ctl \<Rightarrow> bool" where
  "attached k c \<longleftrightarrow> shmid c \<noteq> -1 \<and> shmaddr c = Some (shmid c)
     \<and> (\<exists>b. segs k (shmid c) = Some b \<and> length b = nat mem_size)"

definition block :: "kernel \<Rightarrow> shm_ctl \<Rightarrow> nat \<Rightarrow> cbuf" where
  "block k c i = take 8192 (drop (i * 8192) (the (segs k (shmid c))))"

lemma shm_consts [simp]: "shm_block_size = 10" "mem_size = 81920" "GetPerBlockSize = 8192" "process_size = 2"
  by (simp_all add: shm_block_size_def mem_size_def GetPerBlockSize_def process_size_def)

lemma length_block: "attached k c \<Longrightarrow> i < 10 \<Longrightarrow> length (block k c i) = 8192"
  by (auto simp: attached_def block_def)

lemma drop_write:
  assumes "length b = 81920" "i < 10" "length d \<le> 8192" "j < 10"
  shows "take 8192 (drop (j * 8192) (take (i * 8192) b @ d @ drop (i * 8192 + length d) b)) =
    (if j = i then d @ drop (length d) (take 8192 (drop (i * 8192) b))
     else take 8192 (drop (j * 8192) b))"
proof (rule nth_equalityI)
  let ?X = "take (i * 8192) b @ d @ drop (i * 8192 + length d) b"
  let ?R = "if j = i then d @ drop (length d) (take 8192 (drop (i * 8192) b))
    else take 8192 (drop (j * 8192) b)"
  have len: "i * 8192 + 8192 \<le> 81920" "j * 8192 + 8192 \<le> 81920" using assms by simp_all
  have sep: "j \<noteq> i \<Longrightarrow> j * 8192 + 8192 \<le> i * 8192 \<or> i * 8192 + 8192 \<le> j * 8192" by linarith
  have X: "length ?X = 81920" using assms len by simp
  have l: "length (take 8192 (drop (j * 8192) ?X)) = 8192"
    using len by (simp only: length_take length_drop X)
  show "length (take 8192 (drop (j * 8192) ?X)) = length ?R"
    unfolding l using assms len by simp
  fix n assume "n < length (take 8192 (drop (j * 8192) ?X))"
  then have n: "n < 8192" "j * 8192 + n < 81920" using len unfolding l by simp_all
  then show "take 8192 (drop (j * 8192) ?X) ! n = ?R ! n"
    using assms len sep by (auto simp: nth_append)
qed

lemma Write_block:
  assumes att: "attached k c" and i: "i < 10" and d: "length d \<le> 8192"
  shows "\<exists>k'. Write k c d (int i) = Some (True, k') \<and> attached k' c
    \<and> block k' c i = d @ drop (length d) (block k c i)
    \<and> (\<forall>j < 10. j \<noteq> i \<longrightarrow> block k' c j = block k c j)
    \<and> conf_files k' = conf_files k"
proof -
  obtain b where b: "segs k (shmid c) = Some b" "length b = 81920"
    using att by (auto simp: attached_def)
  let ?b = "take (i * 8192) b @ d @ drop (i * 8192 + length d) b"
  let ?k = "k\<lparr>segs := (segs k)(shmid c \<mapsto> ?b)\<rparr>"
  have "i * 8192 + 8192 \<le> 81920" using i by simp
  then have w: "wr_bytes b (i * 8192) d = Some ?b" "length ?b = 81920"
    using b d by (simp_all add: wr_bytes_def)
  have "nat (int i * 8192) = i * 8192" by simp
  then have "Write k c d (int i) = Some (True, ?k)"
    using att i d b w by (simp add: Write_def mem_write_def attached_def)
  moreover have "attached ?k c" using att w(2) by (simp add: attached_def)
  moreover have "block ?k c j = (if j = i then d @ drop (length d) (block k c i) else block k c j)"
    if "j < 10" for j
    using drop_write [OF b(2) i d that] b by (simp add: block_def)
  ultimately show ?thesis using i by (intro exI [of _ ?k]) simp
qed

lemma Read_block:
  assumes att: "attached k c" and i: "i < 10"
  shows "Read k c 8192 (int i) = Some (Some (block k c i))"
proof -
  obtain b where b: "segs k (shmid c) = Some b" "length b = 81920"
    using att by (auto simp: attached_def)
  have "i * 8192 + 8192 \<le> 81920" "nat (int i * 8192) = i * 8192" using i by simp_all
  then show ?thesis
    using att i b by (simp add: Read_def mem_read_def attached_def rd_bytes_def block_def)
qed

text \<open>The check lets one index too many through.\<close>

lemma Write_index_10:
  assumes att: "attached k c" and d: "0 < length d" "length d \<le> 8192"
  shows "Write k c d 10 = None"
  using att d by (auto simp: Write_def mem_write_def attached_def wr_bytes_def)

section \<open>The id file\<close>

lemma kv_pairs_conf:
  assumes "is_word a" "is_word b" "int_range x" "int_range y"
  shows "kv_pairs (conf_line a x @ conf_line b y) = [(a, x), (b, y)]"
  using kv_pairs_line [OF assms(1,3)] kv_pairs_line [OF assms(2,4), of "[]"]
  by (simp add: conf_line_def)

lemma id_words [simp]:
  "is_word (ascii ''shmid'')" "is_word (ascii ''shmkey'')"
  "is_word (ascii ''semid'')" "is_word (ascii ''semkey'')"
  "ascii ''shmid'' \<noteq> ascii ''shmkey''" "ascii ''semid'' \<noteq> ascii ''semkey''"
  "ascii ''shmkey'' \<noteq> ascii ''shmid''" "ascii ''semkey'' \<noteq> ascii ''semid''"
  by (simp_all add: is_word_def ascii_def is_space_def)

lemma ReadShmid_WriteShmid:
  assumes "conf_writable k" "int_range (shmid c)" "int_range (shmkey c)"
  shows "\<exists>k'. WriteShmid k c = (True, k') \<and> segs k' = segs k
    \<and> ReadShmid k' c' = (shmid c \<noteq> 0 \<and> shmkey c \<noteq> 0, c'\<lparr>shmid := shmid c, shmkey := shmkey c\<rparr>)"
proof -
  note kv_pairs_conf [OF id_words(1,2) assms(2,3)]
  then show ?thesis
    using assms(1)
    by (auto simp: WriteShmid_def write_conf_def ReadShmid_def set_pair_def Let_def)
qed

end
