(* ===== verification/SemTable.thy ===== *)
theory SemTable
  imports ShmCtl
begin

text \<open>
  The semaphore table (\<^verbatim>\<open>share_mem/w_sem_table.cpp\<close>): one System V set with a semaphore per
  block, used as locks, whose key and id go through a configuration file. The locale
  \<open>counting_locks\<close> is the contract of such a table; it gives mutual exclusion as long as the
  values are not set again.
\<close>

section \<open>State\<close>

record sem_table =
  sem_conf :: "byte list"
  blockSize :: int
  semid :: int
  semkey :: int

datatype 'a waits = Sleeps | Goes 'a

text \<open>\<^verbatim>\<open>W_SemTable::Init\<close>\<close>

definition sem_Init :: "byte list \<Rightarrow> int \<Rightarrow> sem_table" where
  "sem_Init conf n = \<lparr>sem_conf = conf, blockSize = n, semid = 0, semkey = 0\<rparr>"

section \<open>Creating and finding the set\<close>

definition WriteSemid :: "kernel \<Rightarrow> sem_table \<Rightarrow> bool \<times> kernel" where
  "WriteSemid k t =
     write_conf k (sem_conf t) (conf_line (ascii ''semid'') (semid t) @ conf_line (ascii ''semkey'') (semkey t))"

definition set_sem_pair :: "byte list \<times> int \<Rightarrow> sem_table \<Rightarrow> sem_table" where
  "set_sem_pair nv t =
     (let t1 = (if fst nv = ascii ''semid'' then t\<lparr>semid := snd nv\<rparr> else t) in
      if fst nv = ascii ''semkey'' then t1\<lparr>semkey := snd nv\<rparr> else t1)"

definition ReadSemid :: "kernel \<Rightarrow> sem_table \<Rightarrow> bool \<times> sem_table" where
  "ReadSemid k t =
     (let t0 = t\<lparr>semid := 0, semkey := 0\<rparr> in
      case conf_files k (sem_conf t) of
        None \<Rightarrow> (False, t0)
      | Some txt \<Rightarrow>
          (let t1 = fold set_sem_pair (kv_pairs txt) t0 in
           (semid t1 \<noteq> 0 \<and> semkey t1 \<noteq> 0, t1)))"

definition CreateSemkey :: "kernel \<Rightarrow> int \<Rightarrow> sem_table \<Rightarrow> bool \<times> sem_table" where
  "CreateSemkey k now t =
     (let (ok, t1) = ReadSemid k t in (True, if ok then t1 else t1\<lparr>semkey := now\<rparr>))"

text \<open>\<^verbatim>\<open>semget(key, n, 0600 | IPC_CREAT)\<close>; a new set has the values 0.\<close>

definition semget :: "kernel \<Rightarrow> int \<Rightarrow> nat \<Rightarrow> int \<times> kernel" where
  "semget k key n =
     (case (if key = 0 then None else sem_keys k key) of
        Some i \<Rightarrow>
          (case sem_sets k i of
             Some vs \<Rightarrow> if n \<le> length vs then (i, k) else (-1, k)
           | None \<Rightarrow> (-1, k))
      | None \<Rightarrow>
          (next_sem k,
           k\<lparr>sem_sets := (sem_sets k)(next_sem k \<mapsto> replicate n 0), next_sem := next_sem k + 1,
             sem_keys := (if key = 0 then sem_keys k else (sem_keys k)(key \<mapsto> next_sem k))\<rparr>))"

text \<open>\<^verbatim>\<open>semctl(semid, i, SETVAL, 1)\<close>\<close>

definition sem_setval :: "kernel \<Rightarrow> int \<Rightarrow> nat \<Rightarrow> int \<Rightarrow> kernel option" where
  "sem_setval k i n v =
     (case sem_sets k i of
        None \<Rightarrow> None
      | Some vs \<Rightarrow>
          if n < length vs then Some (k\<lparr>sem_sets := (sem_sets k)(i \<mapsto> vs[n := v])\<rparr>) else None)"

fun reset_loop :: "sem_table \<Rightarrow> nat list \<Rightarrow> kernel \<Rightarrow> bool \<times> kernel" where
  "reset_loop t [] k = (True, k)"
| "reset_loop t (n # ns) k =
     (case sem_setval k (semid t) n 1 of None \<Rightarrow> (False, k) | Some k' \<Rightarrow> reset_loop t ns k')"

definition ResetSem :: "kernel \<Rightarrow> sem_table \<Rightarrow> bool \<times> kernel" where
  "ResetSem k t = reset_loop t [0..<nat (blockSize t)] k"

definition CreateSem :: "kernel \<Rightarrow> sem_table \<Rightarrow> bool \<times> kernel \<times> sem_table" where
  "CreateSem k t =
     (let (i, k1) = semget k (semkey t) (nat (blockSize t)); t1 = t\<lparr>semid := i\<rparr> in
      if i < 0 then (False, k1, t1)
      else
        (let (ok, k2) = WriteSemid k1 t1 in
         if \<not> ok then (False, k2, t1)
         else (let (ok2, k3) = ResetSem k2 t1 in (ok2, k3, t1))))"

text \<open>\<^verbatim>\<open>CreateSemkey() && WriteSemid() && CreateSem()\<close>\<close>

definition sem_WriteInit :: "kernel \<Rightarrow> int \<Rightarrow> sem_table \<Rightarrow> bool \<times> kernel \<times> sem_table" where
  "sem_WriteInit k now t =
     (let (ok, t1) = CreateSemkey k now t in
      if \<not> ok then (False, k, t1)
      else (let (ok2, k2) = WriteSemid k t1 in
            if \<not> ok2 then (False, k2, t1) else CreateSem k2 t1))"

definition sem_ReadInit :: "kernel \<Rightarrow> sem_table \<Rightarrow> bool \<times> sem_table" where
  "sem_ReadInit k t = ReadSemid k t"

section \<open>Locking\<close>

text \<open>\<^verbatim>\<open>sem_num\<close> is an unsigned short; a bad id or number makes \<^verbatim>\<open>semop\<close> fail.\<close>

definition sem_num :: "int \<Rightarrow> nat" where
  "sem_num n = nat (n mod 2 ^ 16)"

definition P :: "kernel \<Rightarrow> sem_table \<Rightarrow> int \<Rightarrow> (bool \<times> kernel) waits" where
  "P k t semNum =
     (case sem_sets k (semid t) of
        None \<Rightarrow> Goes (False, k)
      | Some vs \<Rightarrow>
          if length vs \<le> sem_num semNum then Goes (False, k)
          else if vs ! sem_num semNum \<le> 0 then Sleeps
          else Goes (True, k\<lparr>sem_sets := (sem_sets k)(semid t \<mapsto>
                 vs[sem_num semNum := vs ! sem_num semNum - 1])\<rparr>))"

definition V :: "kernel \<Rightarrow> sem_table \<Rightarrow> int \<Rightarrow> bool \<times> kernel" where
  "V k t semNum =
     (case sem_sets k (semid t) of
        None \<Rightarrow> (False, k)
      | Some vs \<Rightarrow>
          if length vs \<le> sem_num semNum then (False, k)
          else (True, k\<lparr>sem_sets := (sem_sets k)(semid t \<mapsto>
                 vs[sem_num semNum := vs ! sem_num semNum + 1])\<rparr>))"

text \<open>\<^verbatim>\<open>semctl(semid, n, IPC_RMID, 0)\<close> removes the whole set, whatever \<^verbatim>\<open>n\<close>.\<close>

definition Destory1 :: "kernel \<Rightarrow> sem_table \<Rightarrow> bool \<times> kernel" where
  "Destory1 k t =
     (if sem_sets k (semid t) = None then (False, k)
      else (True, k\<lparr>sem_sets := (sem_sets k)(semid t := None)\<rparr>))"

definition sem_Destory :: "kernel \<Rightarrow> sem_table \<Rightarrow> bool \<times> kernel" where
  "sem_Destory k t = (True, ((\<lambda>k. snd (Destory1 k t)) ^^ nat (blockSize t)) k)"

section \<open>The contract of a table of locks\<close>

locale counting_locks =
  fixes valid :: "'s \<Rightarrow> 'i \<Rightarrow> bool"
    and val :: "'s \<Rightarrow> 'i \<Rightarrow> int"
    and down :: "'s \<Rightarrow> 'i \<Rightarrow> 's option"
    and up :: "'s \<Rightarrow> 'i \<Rightarrow> 's"
  assumes down_sleeps: "valid s i \<Longrightarrow> down s i = None \<longleftrightarrow> val s i \<le> 0"
    and down_valid: "valid s i \<Longrightarrow> down s i = Some s' \<Longrightarrow> valid s' = valid s"
    and down_val: "valid s i \<Longrightarrow> down s i = Some s' \<Longrightarrow> valid s j \<Longrightarrow>
      val s' j = (if j = i then val s i - 1 else val s j)"
    and up_valid: "valid s i \<Longrightarrow> valid (up s i) = valid s"
    and up_val: "valid s i \<Longrightarrow> valid s j \<Longrightarrow> val (up s i) j = (if j = i then val s i + 1 else val s j)"
begin

text \<open>\<open>hs\<close> lists who holds which lock; every lock is free or held once.\<close>

definition balanced :: "'s \<Rightarrow> ('p \<times> 'i) list \<Rightarrow> bool" where
  "balanced s hs \<longleftrightarrow> (\<forall>i. valid s i \<longrightarrow> val s i + int (length (filter (\<lambda>h. snd h = i) hs)) = 1)"

lemma down_balanced:
  assumes "balanced s hs" "valid s i" "down s i = Some s'"
  shows "balanced s' ((p, i) # hs)" and "filter (\<lambda>h. snd h = i) hs = []"
proof -
  have v: "0 < val s i" using down_sleeps [OF assms(2)] assms(3) by (cases "val s i \<le> 0") auto
  have "val s i + int (length (filter (\<lambda>h. snd h = i) hs)) = 1"
    using assms by (simp add: balanced_def)
  then have "length (filter (\<lambda>h. snd h = i) hs) = 0" using v by linarith
  then show "filter (\<lambda>h. snd h = i) hs = []" by simp
  show "balanced s' ((p, i) # hs)"
    using assms down_val [OF assms(2,3)] down_valid [OF assms(2,3)]
    by (auto simp: balanced_def)
qed

lemma up_balanced:
  assumes "balanced s hs" "valid s i" "(p, i) \<in> set hs"
  shows "balanced (up s i) (remove1 (p, i) hs)"
proof -
  have "length (filter (\<lambda>h. snd h = j) (remove1 (p, i) hs)) =
      length (filter (\<lambda>h. snd h = j) hs) - (if j = i then 1 else 0)" for j
    using assms(3) by (simp add: filter_remove1 length_remove1)
  moreover have "0 < length (filter (\<lambda>h. snd h = i) hs)"
    using assms(3) by (auto simp: filter_empty_conv intro!: bexI [of _ "(p, i)"])
  ultimately have len: "int (length (filter (\<lambda>h. snd h = j) (remove1 (p, i) hs))) =
      int (length (filter (\<lambda>h. snd h = j) hs)) - (if j = i then 1 else 0)" for j
    by (cases "j = i") (auto simp: of_nat_diff Suc_le_eq)
  show ?thesis
    unfolding balanced_def
  proof (intro allI impI)
    fix j assume "valid (up s i) j"
    then have j: "valid s j" using up_valid [OF assms(2)] by simp
    then have "val s j + int (length (filter (\<lambda>h. snd h = j) hs)) = 1"
      using assms(1) by (simp add: balanced_def)
    then show "val (up s i) j + int (length (filter (\<lambda>h. snd h = j) (remove1 (p, i) hs))) = 1"
      unfolding len up_val [OF assms(2) j] by auto
  qed
qed

lemma one_holder:
  assumes "balanced s hs" "valid s i" "0 \<le> val s i"
  shows "length (filter (\<lambda>h. snd h = i) hs) \<le> 1"
  using assms by (auto simp: balanced_def)

lemma down_nonneg:
  assumes "\<forall>j. valid s j \<longrightarrow> 0 \<le> val s j" "valid s i" "down s i = Some s'"
  shows "\<forall>j. valid s' j \<longrightarrow> 0 \<le> val s' j"
  using assms down_val [OF assms(2,3)] down_valid [OF assms(2,3)] down_sleeps [OF assms(2)]
  by (auto simp: not_le)

lemma up_nonneg:
  assumes "\<forall>j. valid s j \<longrightarrow> 0 \<le> val s j" "valid s i"
  shows "\<forall>j. valid (up s i) j \<longrightarrow> 0 \<le> val (up s i) j"
  using assms up_val [OF assms(2)] up_valid [OF assms(2)] by auto

end

section \<open>The semaphore table satisfies it\<close>

definition sem_valid :: "sem_table \<Rightarrow> kernel \<Rightarrow> nat \<Rightarrow> bool" where
  "sem_valid t k i \<longleftrightarrow>
     i < 2 ^ 16 \<and> (case sem_sets k (semid t) of None \<Rightarrow> False | Some vs \<Rightarrow> i < length vs)"

definition sem_val :: "sem_table \<Rightarrow> kernel \<Rightarrow> nat \<Rightarrow> int" where
  "sem_val t k i = the (sem_sets k (semid t)) ! i"

definition sem_down :: "sem_table \<Rightarrow> kernel \<Rightarrow> nat \<Rightarrow> kernel option" where
  "sem_down t k i = (case P k t (int i) of Sleeps \<Rightarrow> None | Goes (ok, k') \<Rightarrow> Some k')"

definition sem_up :: "sem_table \<Rightarrow> kernel \<Rightarrow> nat \<Rightarrow> kernel" where
  "sem_up t k i = snd (V k t (int i))"

lemma sem_num_int [simp]: "i < 65536 \<Longrightarrow> sem_num (int i) = i"
  by (simp add: sem_num_def)

interpretation sem_locks: counting_locks "sem_valid t" "sem_val t" "sem_down t" "sem_up t" for t
proof unfold_locales
  show "sem_valid t s i \<Longrightarrow> sem_down t s i = None \<longleftrightarrow> sem_val t s i \<le> 0" for s i
    by (auto simp: sem_valid_def sem_val_def sem_down_def P_def split: option.splits)
  show "sem_valid t s i \<Longrightarrow> sem_down t s i = Some s' \<Longrightarrow> sem_valid t s' = sem_valid t s" for s i s'
    by (rule ext) (auto simp: sem_valid_def sem_down_def P_def split: option.splits if_splits)
  show "sem_valid t s i \<Longrightarrow> sem_down t s i = Some s' \<Longrightarrow> sem_valid t s j \<Longrightarrow>
      sem_val t s' j = (if j = i then sem_val t s i - 1 else sem_val t s j)" for s i s' j
    by (auto simp: sem_valid_def sem_val_def sem_down_def P_def split: option.splits if_splits)
  show "sem_valid t s i \<Longrightarrow> sem_valid t (sem_up t s i) = sem_valid t s" for s i
    by (rule ext) (auto simp: sem_valid_def sem_up_def V_def split: option.splits if_splits)
  show "sem_valid t s i \<Longrightarrow> sem_valid t s j \<Longrightarrow>
      sem_val t (sem_up t s i) j = (if j = i then sem_val t s i + 1 else sem_val t s j)" for s i j
    by (auto simp: sem_valid_def sem_val_def sem_up_def V_def split: option.splits if_splits)
qed

section \<open>Resetting\<close>

lemma reset_loop_sets:
  assumes "sem_sets k (semid t) = Some vs" "\<forall>n \<in> set ns. n < length vs"
  shows "reset_loop t ns k =
    (True, k\<lparr>sem_sets := (sem_sets k)(semid t \<mapsto> fold (\<lambda>n vs. vs[n := 1]) ns vs)\<rparr>)"
  using assms
proof (induction ns arbitrary: k vs)
  case Nil
  then show ?case by (simp add: fun_upd_idem)
next
  case (Cons n ns)
  then show ?case by (simp add: sem_setval_def del: fun_upd_apply) (simp cong: if_cong)
qed

lemma fold_ones:
  "length (fold (\<lambda>n vs. vs[n := 1]) ns vs) = length vs"
  "i < length vs \<Longrightarrow> fold (\<lambda>n vs. vs[n := 1]) ns vs ! i = (if i \<in> set ns then (1::int) else vs ! i)"
  by (induction ns arbitrary: vs) (auto simp: nth_list_update)

lemma ResetSem_vals:
  assumes "sem_sets k (semid t) = Some vs" "length vs = nat (blockSize t)"
  shows "ResetSem k t = (True, k\<lparr>sem_sets := (sem_sets k)(semid t \<mapsto> replicate (length vs) 1)\<rparr>)"
proof -
  have "fold (\<lambda>n vs. vs[n := 1]) [0..<nat (blockSize t)] vs = replicate (length vs) (1::int)"
    by (rule nth_equalityI) (use assms(2) in \<open>simp_all add: fold_ones\<close>)
  then show ?thesis
    using reset_loop_sets [OF assms(1), of "[0..<nat (blockSize t)]"] assms(2) by (simp add: ResetSem_def)
qed

end
