(* ===== verification/ShmTable.thy ===== *)
theory ShmTable
  imports SemTable Endian
begin

text \<open>
  The template \<^verbatim>\<open>W_ShmTable<T>\<close> (\<^verbatim>\<open>share_mem/w_shm_table.h\<close>): a table of items in a segment of
  its own. The operations take the size of \<open>T\<close> and move bytes; the two structs stored this way
  are encoded as the compiler lays them out. The locale \<open>item_array\<close> is what such a table
  promises: a write changes one item.
\<close>

section \<open>Items\<close>

record mem_item =
  shmIndex :: u32
  isMemFree :: bool
  isDataReady :: bool

record pid_item =
  pid :: u32
  isPidFree :: bool
  fifoPath :: cbuf

definition enc_bool :: "bool \<Rightarrow> byte" where
  "enc_bool b = (if b then 1 else 0)"

text \<open>The padding, which no code reads, is written as zeros.\<close>

definition enc_mem_item :: "mem_item \<Rightarrow> byte list" where
  "enc_mem_item x = le32 (shmIndex x) @ [enc_bool (isMemFree x), enc_bool (isDataReady x), 0, 0]"

definition dec_mem_item :: "byte list \<Rightarrow> mem_item" where
  "dec_mem_item b = \<lparr>shmIndex = of_le (take 4 b), isMemFree = (b ! 4 \<noteq> 0), isDataReady = (b ! 5 \<noteq> 0)\<rparr>"

definition enc_pid_item :: "pid_item \<Rightarrow> byte list" where
  "enc_pid_item x = le32 (pid x) @ enc_bool (isPidFree x) # fifoPath x @ [0, 0, 0]"

definition dec_pid_item :: "byte list \<Rightarrow> pid_item" where
  "dec_pid_item b = \<lparr>pid = of_le (take 4 b), isPidFree = (b ! 4 \<noteq> 0), fifoPath = take 256 (drop 5 b)\<rparr>"

definition sizeof_mem_item :: nat where
  "sizeof_mem_item = 8"

definition sizeof_pid_item :: nat where
  "sizeof_pid_item = 264"

section \<open>State\<close>

record shm_table =
  shm_table_conf :: "byte list"
  tbl_blockSize :: int
  tbl_shmid :: int
  tbl_shmaddr :: "int option"

definition tbl_Init :: "byte list \<Rightarrow> int \<Rightarrow> shm_table" where
  "tbl_Init conf n = \<lparr>shm_table_conf = conf, tbl_blockSize = n, tbl_shmid = 0, tbl_shmaddr = None\<rparr>"

section \<open>Creating and finding the segment\<close>

definition tbl_WriteShmid :: "kernel \<Rightarrow> shm_table \<Rightarrow> bool \<times> kernel" where
  "tbl_WriteShmid k t = write_conf k (shm_table_conf t) (conf_line (ascii ''shmid'') (tbl_shmid t))"

definition set_tbl_pair :: "byte list \<times> int \<Rightarrow> shm_table \<Rightarrow> shm_table" where
  "set_tbl_pair nv t = (if fst nv = ascii ''shmid'' then t\<lparr>tbl_shmid := snd nv\<rparr> else t)"

definition tbl_ReadShmid :: "kernel \<Rightarrow> shm_table \<Rightarrow> bool \<times> shm_table" where
  "tbl_ReadShmid k t =
     (let t0 = t\<lparr>tbl_shmid := 0\<rparr> in
      case conf_files k (shm_table_conf t) of
        None \<Rightarrow> (False, t0)
      | Some txt \<Rightarrow> (let t1 = fold set_tbl_pair (kv_pairs txt) t0 in (tbl_shmid t1 \<noteq> 0, t1)))"

definition tbl_CreateShm :: "nat \<Rightarrow> kernel \<Rightarrow> shm_table \<Rightarrow> bool \<times> kernel \<times> shm_table" where
  "tbl_CreateShm sizeof_T k t =
     (let (i, k1) = shmget k 0 (nat (tbl_blockSize t) * sizeof_T); t1 = t\<lparr>tbl_shmid := i\<rparr> in
      if i < 0 then (False, k1, t1)
      else (let (ok, k2) = tbl_WriteShmid k1 t1 in (ok, k2, t1)))"

definition tbl_AttachMem :: "kernel \<Rightarrow> shm_table \<Rightarrow> bool \<times> shm_table" where
  "tbl_AttachMem k t =
     (if tbl_shmid t = -1 then (False, t)
      else if segs k (tbl_shmid t) = None then (False, t)
      else (True, t\<lparr>tbl_shmaddr := Some (tbl_shmid t)\<rparr>))"

definition tbl_Destory :: "kernel \<Rightarrow> shm_table \<Rightarrow> bool \<times> kernel" where
  "tbl_Destory k t =
     (if tbl_shmid t = -1 then (False, k)
      else if tbl_shmaddr t = None then (False, k)
      else if segs k (tbl_shmid t) = None then (False, k)
      else (True, k\<lparr>segs := (segs k)(tbl_shmid t := None)\<rparr>))"

definition ShmWriteInit :: "nat \<Rightarrow> kernel \<Rightarrow> shm_table \<Rightarrow> bool \<times> kernel \<times> shm_table" where
  "ShmWriteInit sizeof_T k t =
     (let (ok, k1, t1) = tbl_CreateShm sizeof_T k t in
      if \<not> ok then (False, k1, t1)
      else (let (ok2, t2) = tbl_AttachMem k1 t1 in (ok2, k1, t2)))"

definition tbl_ShmReadInit :: "kernel \<Rightarrow> shm_table \<Rightarrow> bool \<times> shm_table" where
  "tbl_ShmReadInit k t =
     (let (ok, t1) = tbl_ReadShmid k t in if \<not> ok then (False, t1) else tbl_AttachMem k t1)"

section \<open>Items of the table\<close>

text \<open>\<open>None\<close>: the copy leaves the segment.\<close>

definition tbl_Write :: "nat \<Rightarrow> kernel \<Rightarrow> shm_table \<Rightarrow> byte list \<Rightarrow> int \<Rightarrow> (bool \<times> kernel) option" where
  "tbl_Write sizeof_T k t buf index =
     (if tbl_shmid t = -1 then Some (False, k)
      else if index > tbl_blockSize t then Some (False, k)
      else map_option (Pair True) (mem_write k (tbl_shmaddr t) (index * int sizeof_T) buf))"

definition tbl_Read :: "nat \<Rightarrow> kernel \<Rightarrow> shm_table \<Rightarrow> int \<Rightarrow> byte list option option" where
  "tbl_Read sizeof_T k t index =
     (if tbl_shmid t = -1 then Some None
      else if index > tbl_blockSize t then Some None
      else map_option Some (mem_read k (tbl_shmaddr t) (index * int sizeof_T) sizeof_T))"

section \<open>The contract of an array of items\<close>

locale item_array =
  fixes ok :: "'s \<Rightarrow> bool"
    and valid :: "'a \<Rightarrow> bool"
    and slots :: nat
    and put :: "'s \<Rightarrow> nat \<Rightarrow> 'a \<Rightarrow> 's option"
    and get :: "'s \<Rightarrow> nat \<Rightarrow> 'a"
  assumes put_ok: "ok s \<Longrightarrow> i < slots \<Longrightarrow> valid x \<Longrightarrow> \<exists>s'. put s i x = Some s' \<and> ok s'"
    and get_put: "ok s \<Longrightarrow> i < slots \<Longrightarrow> valid x \<Longrightarrow> put s i x = Some s' \<Longrightarrow> j < slots \<Longrightarrow>
      get s' j = (if j = i then x else get s j)"
begin

definition items :: "'s \<Rightarrow> 'a list" where
  "items s = map (get s) [0..<slots]"

lemma length_items [simp]: "length (items s) = slots"
  by (simp add: items_def)

lemma items_nth [simp]: "i < slots \<Longrightarrow> items s ! i = get s i"
  by (simp add: items_def)

lemma put_items:
  assumes "ok s" "i < slots" "valid x"
  shows "\<exists>s'. put s i x = Some s' \<and> ok s' \<and> items s' = (items s)[i := x]"
proof -
  obtain s' where s': "put s i x = Some s'" "ok s'" using put_ok [OF assms] by blast
  have "items s' = (items s)[i := x]"
    by (rule nth_equalityI) (simp_all add: get_put [OF assms s'(1)] nth_list_update)
  then show ?thesis using s' by blast
qed

lemma get_after_put: "ok s \<Longrightarrow> i < slots \<Longrightarrow> valid x \<Longrightarrow> put s i x = Some s' \<Longrightarrow> get s' i = x"
  by (simp add: get_put)

lemma put_put:
  assumes "ok s" "i < slots" "valid x" "valid y" "put s i x = Some s1" "put s1 i y = Some s2"
  shows "items s2 = (items s)[i := y]"
proof -
  obtain s1' where "put s i x = Some s1'" "ok s1'" "items s1' = (items s)[i := x]"
    using put_items [OF assms(1-3)] by blast
  then have s1: "ok s1" "items s1 = (items s)[i := x]" using assms(5) by simp_all
  then show ?thesis using put_items [OF s1(1) assms(2,4)] assms(6) by auto
qed

end

section \<open>The tables of the program\<close>

definition table_ready :: "nat \<Rightarrow> shm_table \<Rightarrow> kernel \<Rightarrow> bool" where
  "table_ready sizeof_T t k \<longleftrightarrow> tbl_shmid t \<noteq> -1 \<and> tbl_shmaddr t \<noteq> None
     \<and> (\<exists>b. segs k (the (tbl_shmaddr t)) = Some b \<and> length b = nat (tbl_blockSize t) * sizeof_T)"

definition tbl_put :: "nat \<Rightarrow> ('a \<Rightarrow> byte list) \<Rightarrow> shm_table \<Rightarrow> kernel \<Rightarrow> nat \<Rightarrow> 'a \<Rightarrow> kernel option" where
  "tbl_put sizeof_T enc t k i x = map_option snd (tbl_Write sizeof_T k t (enc x) (int i))"

definition tbl_get :: "nat \<Rightarrow> (byte list \<Rightarrow> 'a) \<Rightarrow> shm_table \<Rightarrow> kernel \<Rightarrow> nat \<Rightarrow> 'a" where
  "tbl_get sizeof_T dec t k i = dec (the (the (tbl_Read sizeof_T k t (int i))))"

lemma slot_bound: "i < n \<Longrightarrow> i * w + w \<le> n * (w::nat)"
  by (metis Suc_leI add.commute mult_Suc mult_le_mono1)

lemma slots_apart: "i \<noteq> j \<Longrightarrow> j * w + w \<le> i * w \<or> i * w + w \<le> j * (w::nat)"
  using slot_bound [of j i w] slot_bound [of i j w] by linarith

lemma tbl_Read_item:
  assumes "table_ready w t k" "i < nat (tbl_blockSize t)"
  shows "tbl_Read w k t (int i) =
    Some (Some (take w (drop (i * w) (the (segs k (the (tbl_shmaddr t)))))))"
proof -
  have "nat (int i * int w) = i * w" by (simp flip: of_nat_mult)
  then show ?thesis
    using assms slot_bound [OF assms(2), of w]
    by (auto simp: tbl_Read_def table_ready_def mem_read_def rd_bytes_def mult_less_0_iff)
qed

lemma tbl_Write_item:
  assumes r: "table_ready w t k" and i: "i < nat (tbl_blockSize t)" and x: "length x = w"
  shows "\<exists>k'. tbl_Write w k t x (int i) = Some (True, k') \<and> table_ready w t k'
    \<and> sem_sets k' = sem_sets k
    \<and> (\<forall>a. a \<noteq> the (tbl_shmaddr t) \<longrightarrow> segs k' a = segs k a)
    \<and> (\<forall>j < nat (tbl_blockSize t). tbl_Read w k' t (int j) =
        (if j = i then Some (Some x) else tbl_Read w k t (int j)))"
proof -
  obtain a b where a: "tbl_shmaddr t = Some a" "segs k a = Some b"
    "length b = nat (tbl_blockSize t) * w" "tbl_shmid t \<noteq> -1"
    using r by (auto simp: table_ready_def)
  have n: "nat (int i * int w) = i * w" by (simp flip: of_nat_mult)
  obtain b' where b': "wr_bytes b (i * w) x = Some b'" "length b' = length b"
    using slot_bound [OF i, of w] a(3) x by (auto simp: wr_bytes_def)
  let ?k = "k\<lparr>segs := (segs k)(a \<mapsto> b')\<rparr>"
  have w: "tbl_Write w k t x (int i) = Some (True, ?k)"
    using a i b' n by (simp add: tbl_Write_def mem_write_def mult_less_0_iff)
  have r': "table_ready w t ?k" using a b' by (simp add: table_ready_def)
  have "tbl_Read w ?k t (int j) = (if j = i then Some (Some x) else tbl_Read w k t (int j))"
    if j: "j < nat (tbl_blockSize t)" for j
  proof -
    have "rd_bytes b' (j * w) w = (if j = i then Some x else rd_bytes b (j * w) w)"
      using rd_bytes_wr_bytes_same [OF b'(1)] rd_bytes_wr_bytes_other [OF b'(1), of "j * w" w]
        slots_apart [of i j w] x by auto
    moreover have "j * w + w \<le> length b" using slot_bound [OF j, of w] a(3) by simp
    ultimately show ?thesis
      using tbl_Read_item [OF r' j] tbl_Read_item [OF r j] a b' x
      by (auto simp: rd_bytes_def split: if_splits)
  qed
  then show ?thesis using w r' a(1) by (intro exI [of _ ?k]) simp
qed

lemma le32_parts: "le32 v = [ucast v, ucast (drop_bit 8 v), ucast (drop_bit 16 v), ucast (drop_bit 24 v)]"
  by (simp add: le32_def numeral_eq_Suc drop_bit_drop_bit)

lemma dec_enc_mem_item: "dec_mem_item (enc_mem_item x) = x" "length (enc_mem_item x) = 8"
  using of_le_le(2) [of "shmIndex x"]
  by (simp_all add: dec_mem_item_def enc_mem_item_def enc_bool_def nth_append)

lemma dec_enc_pid_item:
  "length (fifoPath x) = 256 \<Longrightarrow> dec_pid_item (enc_pid_item x) = x"
  "length (fifoPath x) = 256 \<Longrightarrow> length (enc_pid_item x) = 264"
  using of_le_le(2) [of "pid x"]
  by (simp_all add: dec_pid_item_def enc_pid_item_def enc_bool_def nth_append)

interpretation mem_codec: byte_codec enc_mem_item dec_mem_item 8
  by unfold_locales (simp_all add: dec_enc_mem_item)

lemma tbl_array:
  assumes "\<And>x. valid x \<Longrightarrow> dec (enc x) = x \<and> length (enc x) = w"
  shows "item_array (table_ready w t) valid (nat (tbl_blockSize t)) (tbl_put w enc t) (tbl_get w dec t)"
proof
  fix s i x
  assume s: "table_ready w t s" "i < nat (tbl_blockSize t)" "valid x"
  then have l: "length (enc x) = w" and d: "dec (enc x) = x" using assms by simp_all
  obtain s' where s': "tbl_Write w s t (enc x) (int i) = Some (True, s')" "table_ready w t s'"
    "\<forall>j < nat (tbl_blockSize t). tbl_Read w s' t (int j) =
        (if j = i then Some (Some (enc x)) else tbl_Read w s t (int j))"
    using tbl_Write_item [OF s(1,2) l] by blast
  show "\<exists>s'. tbl_put w enc t s i x = Some s' \<and> table_ready w t s'"
    using s' by (simp add: tbl_put_def)
  fix s2 j assume "tbl_put w enc t s i x = Some s2" "j < nat (tbl_blockSize t)"
  then show "tbl_get w dec t s2 j = (if j = i then x else tbl_get w dec t s j)"
    using s' d by (simp add: tbl_put_def tbl_get_def)
qed

definition path_ok :: "pid_item \<Rightarrow> bool" where
  "path_ok x \<longleftrightarrow> length (fifoPath x) = 256"

interpretation mem_table: item_array "table_ready sizeof_mem_item t" "\<lambda>x. True"
  "nat (tbl_blockSize t)" "tbl_put sizeof_mem_item enc_mem_item t" "tbl_get sizeof_mem_item dec_mem_item t" for t
  by (rule tbl_array) (simp add: dec_enc_mem_item sizeof_mem_item_def)

interpretation pid_table: item_array "table_ready sizeof_pid_item t" path_ok
  "nat (tbl_blockSize t)" "tbl_put sizeof_pid_item enc_pid_item t" "tbl_get sizeof_pid_item dec_pid_item t" for t
  by (rule tbl_array) (simp add: dec_enc_pid_item sizeof_pid_item_def path_ok_def)

end
