(* ===== verification/RouteCtl.thy ===== *)
theory RouteCtl
  imports ShmTable
begin

text \<open>
  The routing tables (\<^verbatim>\<open>share_mem/w_route_ctl.cpp\<close>): which blocks are free or hold data and
  which reading processes are registered, both in shared tables with a semaphore per slot. A
  call may sleep in \<^verbatim>\<open>P\<close>; \<open>None\<close> is a copy outside of a segment. Every access to a slot is one
  \<open>locked\<close> step, so that two processes can be interleaved between them.
\<close>

section \<open>State\<close>

record route_ctl =
  pidShmTable :: shm_table
  pidSemTable :: sem_table
  memShmTable :: shm_table
  memSemTable :: sem_table

definition sem_pid_table_conf :: "byte list" where
  "sem_pid_table_conf = ascii ''conf/sem_pid_table.conf''"

definition shm_pid_table_conf :: "byte list" where
  "shm_pid_table_conf = ascii ''conf/shm_pid_table.conf''"

definition sem_mem_table_conf :: "byte list" where
  "sem_mem_table_conf = ascii ''conf/sem_mem_table.conf''"

definition shm_mem_table_conf :: "byte list" where
  "shm_mem_table_conf = ascii ''conf/shm_mem_table.conf''"

text \<open>A failed \<open>ShmReadInit\<close> of the memory table is only reported.\<close>

definition route_Init :: "kernel \<Rightarrow> route_ctl \<Rightarrow> bool \<times> route_ctl" where
  "route_Init k r =
     (let r1 = r\<lparr>pidSemTable := sem_Init sem_pid_table_conf process_size\<rparr>;
          (ok, t) = tbl_ShmReadInit k (tbl_Init shm_pid_table_conf process_size);
          r2 = r1\<lparr>pidShmTable := t\<rparr> in
      if \<not> ok then (False, r2)
      else
        (let (ok2, s) = sem_ReadInit k (pidSemTable r2); r3 = r2\<lparr>pidSemTable := s\<rparr> in
         if \<not> ok2 then (False, r3)
         else
           (let (ok3, t3) = tbl_ShmReadInit k (tbl_Init shm_mem_table_conf shm_block_size);
                (ok4, s4) = sem_ReadInit k (sem_Init sem_mem_table_conf shm_block_size) in
            (ok4, r3\<lparr>memShmTable := t3, memSemTable := s4\<rparr>))))"

section \<open>One slot under its lock\<close>

text \<open>\<open>f\<close> runs between \<^verbatim>\<open>P\<close> and \<^verbatim>\<open>V\<close>; their results are ignored.\<close>

definition locked :: "sem_table \<Rightarrow> int \<Rightarrow> (kernel \<Rightarrow> ('a \<times> kernel) option) \<Rightarrow> kernel \<Rightarrow>
    ('a \<times> kernel) waits option" where
  "locked s i f k =
     (case P k s i of
        Sleeps \<Rightarrow> Some Sleeps
      | Goes (_, k1) \<Rightarrow>
          (case f k1 of
             None \<Rightarrow> None
           | Some (x, k2) \<Rightarrow> (let (_, k3) = V k2 s i in Some (Goes (x, k3)))))"

definition read_slot :: "nat \<Rightarrow> shm_table \<Rightarrow> sem_table \<Rightarrow> int \<Rightarrow> kernel \<Rightarrow>
    (byte list option \<times> kernel) waits option" where
  "read_slot w t s i = locked s i (\<lambda>k. map_option (\<lambda>b. (b, k)) (tbl_Read w k t i))"

definition write_slot :: "nat \<Rightarrow> shm_table \<Rightarrow> sem_table \<Rightarrow> byte list \<Rightarrow> int \<Rightarrow> kernel \<Rightarrow>
    (bool \<times> kernel) waits option" where
  "write_slot w t s b i = locked s i (\<lambda>k. tbl_Write w k t b i)"

section \<open>Operations\<close>

definition SetPidItem :: "route_ctl \<Rightarrow> pid_item \<Rightarrow> int \<Rightarrow> kernel \<Rightarrow> (bool \<times> kernel) waits option" where
  "SetPidItem r item index =
     write_slot sizeof_pid_item (pidShmTable r) (pidSemTable r) (enc_pid_item item) index"

definition SetMemItem :: "route_ctl \<Rightarrow> mem_item \<Rightarrow> int \<Rightarrow> kernel \<Rightarrow> (bool \<times> kernel) waits option" where
  "SetMemItem r item index =
     write_slot sizeof_mem_item (memShmTable r) (memSemTable r) (enc_mem_item item) index"

text \<open>The loops over the slots; \<open>P\<close> and \<open>V\<close> that fail end them.\<close>

fun init_slots :: "nat \<Rightarrow> shm_table \<Rightarrow> sem_table \<Rightarrow> (nat \<Rightarrow> byte list) \<Rightarrow> nat list \<Rightarrow> kernel \<Rightarrow>
    (bool \<times> kernel) waits option" where
  "init_slots w t s f [] k = Some (Goes (True, k))"
| "init_slots w t s f (i # is) k =
     (case P k s (int i) of
        Sleeps \<Rightarrow> Some Sleeps
      | Goes (got, k1) \<Rightarrow>
          if \<not> got then Some (Goes (False, k1))
          else
            (case tbl_Write w k1 t (f i) (int i) of
               None \<Rightarrow> None
             | Some (ret, k2) \<Rightarrow>
                 (let (unlocked, k3) = V k2 s (int i) in
                  if \<not> unlocked then Some (Goes (False, k3))
                  else if \<not> ret then Some (Goes (False, k3))
                  else init_slots w t s f is k3)))"

definition fresh_mem_item :: "nat \<Rightarrow> mem_item" where
  "fresh_mem_item i = \<lparr>shmIndex = of_nat i, isMemFree = True, isDataReady = False\<rparr>"

definition fresh_pid_item :: pid_item where
  "fresh_pid_item = \<lparr>pid = -1, isPidFree = False, fifoPath = zeros 256\<rparr>"

definition InitMemTable :: "route_ctl \<Rightarrow> kernel \<Rightarrow> (bool \<times> kernel) waits option" where
  "InitMemTable r =
     init_slots sizeof_mem_item (memShmTable r) (memSemTable r) (\<lambda>i. enc_mem_item (fresh_mem_item i))
       [0..<nat shm_block_size]"

definition InitPidTable :: "route_ctl \<Rightarrow> kernel \<Rightarrow> (bool \<times> kernel) waits option" where
  "InitPidTable r =
     init_slots sizeof_pid_item (pidShmTable r) (pidSemTable r) (\<lambda>i. enc_pid_item fresh_pid_item)
       [0..<nat process_size]"

text \<open>
  The search loops read slot after slot into \<open>item\<close>, which keeps its value when a read fails,
  until one fits. \<open>Inl\<close> is the item found, \<open>Inr\<close> the last one looked at.
\<close>

fun search :: "nat \<Rightarrow> (byte list \<Rightarrow> 'a) \<Rightarrow> shm_table \<Rightarrow> sem_table \<Rightarrow> ('a \<Rightarrow> bool) \<Rightarrow> nat list \<Rightarrow> 'a \<Rightarrow>
    kernel \<Rightarrow> (('a + 'a) \<times> kernel) waits option" where
  "search w dec t s fits [] item k = Some (Goes (Inr item, k))"
| "search w dec t s fits (i # is) item k =
     (case read_slot w t s (int i) k of
        None \<Rightarrow> None
      | Some Sleeps \<Rightarrow> Some Sleeps
      | Some (Goes (b, k')) \<Rightarrow>
          (let item' = (case b of None \<Rightarrow> item | Some bs \<Rightarrow> dec bs) in
           if fits item' then Some (Goes (Inl item', k')) else search w dec t s fits is item' k'))"

definition found_or :: "('a \<Rightarrow> 'a) \<Rightarrow> (('a + 'a) \<times> kernel) waits option \<Rightarrow> ('a \<times> kernel) waits option" where
  "found_or mark x =
     (case x of
        None \<Rightarrow> None
      | Some Sleeps \<Rightarrow> Some Sleeps
      | Some (Goes (Inl i, k)) \<Rightarrow> Some (Goes (i, k))
      | Some (Goes (Inr i, k)) \<Rightarrow> Some (Goes (mark i, k)))"

text \<open>\<open>junk\<close> is the uninitialised local item.\<close>

definition GetFreePid :: "route_ctl \<Rightarrow> pid_item \<Rightarrow> kernel \<Rightarrow> (pid_item \<times> kernel) waits option" where
  "GetFreePid r junk k =
     found_or (\<lambda>i. i\<lparr>pid := -1\<rparr>)
       (search sizeof_pid_item dec_pid_item (pidShmTable r) (pidSemTable r) isPidFree
         [0..<nat process_size] junk k)"

definition GetFreeMem :: "route_ctl \<Rightarrow> mem_item \<Rightarrow> kernel \<Rightarrow> (mem_item \<times> kernel) waits option" where
  "GetFreeMem r junk k =
     found_or (\<lambda>i. i\<lparr>shmIndex := -1\<rparr>)
       (search sizeof_mem_item dec_mem_item (memShmTable r) (memSemTable r) isMemFree
         [0..<nat shm_block_size] junk k)"

definition GetDataReadyMem :: "route_ctl \<Rightarrow> mem_item \<Rightarrow> kernel \<Rightarrow> (mem_item \<times> kernel) waits option" where
  "GetDataReadyMem r junk k =
     found_or (\<lambda>i. i\<lparr>shmIndex := -1\<rparr>)
       (search sizeof_mem_item dec_mem_item (memShmTable r) (memSemTable r) isDataReady
         [0..<nat shm_block_size] junk k)"

text \<open>\<open>AddPidItem\<close>: the item, the search for a slot with pid -1, and the write.\<close>

definition pid_path :: "int \<Rightarrow> byte list option" where
  "pid_path p = wr_bytes (zeros 256) 0 (ascii ''conf/fifo_'' @ dec_int p @ [0])"

datatype slot = ReadFailed | Taken | Slot nat

fun find_slot :: "route_ctl \<Rightarrow> nat list \<Rightarrow> kernel \<Rightarrow> (slot \<times> kernel) waits option" where
  "find_slot r [] k = Some (Goes (Taken, k))"
| "find_slot r (i # is) k =
     (case read_slot sizeof_pid_item (pidShmTable r) (pidSemTable r) (int i) k of
        None \<Rightarrow> None
      | Some Sleeps \<Rightarrow> Some Sleeps
      | Some (Goes (None, k')) \<Rightarrow> Some (Goes (ReadFailed, k'))
      | Some (Goes (Some b, k')) \<Rightarrow>
          if pid (dec_pid_item b) = -1 then Some (Goes (Slot i, k')) else find_slot r is k')"

definition AddPidItem :: "route_ctl \<Rightarrow> int \<Rightarrow> kernel \<Rightarrow> (bool \<times> kernel) waits option" where
  "AddPidItem r p k =
     (case pid_path p of
        None \<Rightarrow> None
      | Some path \<Rightarrow>
          (case find_slot r [0..<nat process_size] k of
             None \<Rightarrow> None
           | Some Sleeps \<Rightarrow> Some Sleeps
           | Some (Goes (Slot i, k')) \<Rightarrow>
               SetPidItem r \<lparr>pid = of_int p, isPidFree = True, fifoPath = path\<rparr> (int i) k'
           | Some (Goes (_, k')) \<Rightarrow> Some (Goes (False, k'))))"

definition route_ResetSem :: "kernel \<Rightarrow> route_ctl \<Rightarrow> bool \<times> kernel" where
  "route_ResetSem k r =
     (let (ok, k1) = ResetSem k (pidSemTable r) in
      if \<not> ok then (False, k1) else ResetSem k1 (memSemTable r))"

section \<open>A router that is set up\<close>

definition free_locks :: "kernel \<Rightarrow> sem_table \<Rightarrow> nat \<Rightarrow> bool" where
  "free_locks k s n \<longleftrightarrow> sem_sets k (semid s) = Some (replicate n 1)"

definition routed :: "route_ctl \<Rightarrow> kernel \<Rightarrow> bool" where
  "routed r k \<longleftrightarrow> tbl_blockSize (pidShmTable r) = 2 \<and> table_ready sizeof_pid_item (pidShmTable r) k
     \<and> tbl_blockSize (memShmTable r) = 10 \<and> table_ready sizeof_mem_item (memShmTable r) k
     \<and> tbl_shmaddr (pidShmTable r) \<noteq> tbl_shmaddr (memShmTable r)
     \<and> free_locks k (pidSemTable r) 2 \<and> free_locks k (memSemTable r) 10
     \<and> semid (pidSemTable r) \<noteq> semid (memSemTable r)"

definition pids :: "route_ctl \<Rightarrow> kernel \<Rightarrow> pid_item list" where
  "pids r k = pid_table.items (pidShmTable r) k"

definition mems :: "route_ctl \<Rightarrow> kernel \<Rightarrow> mem_item list" where
  "mems r k = mem_table.items (memShmTable r) k"

section \<open>A slot under a free lock\<close>

text \<open>What runs under the lock does not look at the semaphores.\<close>

definition sem_blind :: "(kernel \<Rightarrow> ('a \<times> kernel) option) \<Rightarrow> bool" where
  "sem_blind f \<longleftrightarrow> (\<forall>k S. f (k\<lparr>sem_sets := S\<rparr>) = map_option (\<lambda>(x, k2). (x, k2\<lparr>sem_sets := S\<rparr>)) (f k))"

lemma sem_blind_kept: "sem_blind f \<Longrightarrow> f k = Some (x, k2) \<Longrightarrow> k2\<lparr>sem_sets := sem_sets k\<rparr> = k2"
  unfolding sem_blind_def by (erule allE [of _ k], erule allE [of _ "sem_sets k"]) simp

lemma P_replicate:
  assumes "free_locks k s n" "i < n" "n \<le> 65536"
  shows "P k s (int i) = Goes (True, k\<lparr>sem_sets := (sem_sets k)(semid s \<mapsto> (replicate n 1)[i := 0])\<rparr>)"
  using assms by (simp add: P_def free_locks_def)

lemma locked_free:
  assumes f: "sem_blind f" and free: "free_locks k s n" "i < n" "n \<le> 65536"
  shows "locked s (int i) f k = map_option Goes (f k)"
proof (cases "f k")
  case None
  then show ?thesis
    using f P_replicate [OF free] by (simp add: locked_def sem_blind_def)
next
  case (Some y)
  obtain x k2 where y: "y = (x, k2)" by (cases y)
  let ?S = "(sem_sets k)(semid s \<mapsto> (replicate n 1)[i := 0])"
  have "f (k\<lparr>sem_sets := ?S\<rparr>) = Some (x, k2\<lparr>sem_sets := ?S\<rparr>)"
    using f Some y by (simp add: sem_blind_def)
  moreover have "(replicate n (1::int))[i := 1] = replicate n 1"
    using free(2) by (intro nth_equalityI) (auto simp: nth_list_update)
  then have "V (k2\<lparr>sem_sets := ?S\<rparr>) s (int i) = (True, k2\<lparr>sem_sets := sem_sets k\<rparr>)"
    using free by (simp add: V_def free_locks_def fun_upd_idem)
  ultimately show ?thesis
    using P_replicate [OF free] Some y sem_blind_kept [OF f, of k x k2] by (simp add: locked_def)
qed

lemma sem_blind_read: "sem_blind (\<lambda>k. map_option (\<lambda>b. (b, k)) (tbl_Read w k t i))"
  by (simp add: sem_blind_def tbl_Read_def mem_read_def option.map_comp o_def)

lemma sem_blind_write: "sem_blind (\<lambda>k. tbl_Write w k t b i)"
  by (auto simp: sem_blind_def tbl_Write_def mem_write_def option.map_comp o_def split: Option.bind_splits)

lemma read_slot_free:
  assumes "table_ready w t k" "i < nat (tbl_blockSize t)" "free_locks k s n" "i < n" "n \<le> 65536"
  shows "\<exists>b. tbl_Read w k t (int i) = Some (Some b) \<and> read_slot w t s (int i) k = Some (Goes (Some b, k))"
  using tbl_Read_item [OF assms(1,2)] locked_free [OF sem_blind_read assms(3-5), of w t "int i"]
  by (simp add: read_slot_def)

lemma write_slot_free:
  assumes "free_locks k s n" "i < n" "n \<le> 65536"
  shows "write_slot w t s b (int i) k = map_option Goes (tbl_Write w k t b (int i))"
  using locked_free [OF sem_blind_write assms] by (simp add: write_slot_def)

lemma search_free:
  assumes "table_ready w t k" "free_locks k s n" "\<forall>i \<in> set is. i < n" "n = nat (tbl_blockSize t)" "n \<le> 65536"
  shows "\<exists>y. search w dec t s fits is item k = Some (Goes (y, k))
    \<and> y = (case List.find fits (map (tbl_get w dec t k) is) of
             Some x \<Rightarrow> Inl x | None \<Rightarrow> Inr (last (item # map (tbl_get w dec t k) is)))"
  using assms(3)
proof (induction "is" arbitrary: item)
  case (Cons i ns)
  then have i: "i < n" by simp
  obtain b where b: "tbl_Read w k t (int i) = Some (Some b)" "read_slot w t s (int i) k = Some (Goes (Some b, k))"
    using read_slot_free [OF assms(1) _ assms(2) i assms(5)] i assms(4) by blast
  then have g: "tbl_get w dec t k i = dec b" by (simp add: tbl_get_def)
  show ?case using Cons.IH [of "dec b"] Cons.prems b(2) g by (auto split: option.split)
qed simp

section \<open>The tables as lists\<close>

lemma routed_pid: "routed r k \<Longrightarrow> table_ready sizeof_pid_item (pidShmTable r) k"
  and routed_mem: "routed r k \<Longrightarrow> table_ready sizeof_mem_item (memShmTable r) k"
  by (simp_all add: routed_def)

lemma pids_map: "routed r k \<Longrightarrow> pids r k = map (tbl_get sizeof_pid_item dec_pid_item (pidShmTable r) k) [0..<2]"
  unfolding pids_def pid_table.items_def by (simp add: routed_def)

lemma mems_map: "routed r k \<Longrightarrow> mems r k = map (tbl_get sizeof_mem_item dec_mem_item (memShmTable r) k) [0..<10]"
  unfolding mems_def mem_table.items_def by (simp add: routed_def)

lemma route_lengths: "routed r k \<Longrightarrow> length (pids r k) = 2" "routed r k \<Longrightarrow> length (mems r k) = 10"
  by (simp_all add: pids_map mems_map)

lemma last_Cons_upt: "0 < n \<Longrightarrow> last (x # map f [0..<n]) = last (map f [0..<n])"
  by simp

lemma GetFreeMem_list:
  assumes "routed r k"
  shows "GetFreeMem r junk k = Some (Goes ((case List.find isMemFree (mems r k) of
    Some x \<Rightarrow> x | None \<Rightarrow> (last (mems r k))\<lparr>shmIndex := -1\<rparr>), k))"
  unfolding mems_map [OF assms]
  using search_free [OF routed_mem [OF assms], of "memSemTable r" 10 "[0..<10]" dec_mem_item isMemFree junk]
    assms
  by (auto simp: GetFreeMem_def found_or_def routed_def last_Cons_upt split: option.split)

lemma GetDataReadyMem_list:
  assumes "routed r k"
  shows "GetDataReadyMem r junk k = Some (Goes ((case List.find isDataReady (mems r k) of
    Some x \<Rightarrow> x | None \<Rightarrow> (last (mems r k))\<lparr>shmIndex := -1\<rparr>), k))"
  unfolding mems_map [OF assms]
  using search_free [OF routed_mem [OF assms], of "memSemTable r" 10 "[0..<10]" dec_mem_item isDataReady junk]
    assms
  by (auto simp: GetDataReadyMem_def found_or_def routed_def last_Cons_upt split: option.split)

lemma GetFreePid_list:
  assumes "routed r k"
  shows "GetFreePid r junk k = Some (Goes ((case List.find isPidFree (pids r k) of
    Some x \<Rightarrow> x | None \<Rightarrow> (last (pids r k))\<lparr>pid := -1\<rparr>), k))"
  unfolding pids_map [OF assms]
  using search_free [OF routed_pid [OF assms], of "pidSemTable r" 2 "[0..<2]" dec_pid_item isPidFree junk]
    assms
  by (auto simp: GetFreePid_def found_or_def routed_def last_Cons_upt split: option.split)

text \<open>Writing a slot changes one item of one table.\<close>

lemma other_table:
  assumes "\<forall>a. a \<noteq> the (tbl_shmaddr t) \<longrightarrow> segs k' a = segs k a" "tbl_shmaddr t \<noteq> tbl_shmaddr u"
    and "tbl_shmaddr t \<noteq> None" "table_ready v u k"
  shows "table_ready v u k' \<and> tbl_Read v k' u i = tbl_Read v k u i"
  using assms by (auto simp: table_ready_def tbl_Read_def mem_read_def)

lemma SetMemItem_list:
  assumes r: "routed r k" and i: "i < 10"
  shows "\<exists>k'. SetMemItem r x (int i) k = Some (Goes (True, k')) \<and> routed r k'
    \<and> mems r k' = (mems r k)[i := x] \<and> pids r k' = pids r k"
proof -
  let ?t = "memShmTable r" and ?u = "pidShmTable r"
  have n: "i < nat (tbl_blockSize ?t)" using r i by (simp add: routed_def)
  have l: "length (enc_mem_item x) = sizeof_mem_item" by (simp add: dec_enc_mem_item sizeof_mem_item_def)
  obtain k' where w: "tbl_Write sizeof_mem_item k ?t (enc_mem_item x) (int i) = Some (True, k')"
    and k': "table_ready sizeof_mem_item ?t k'" "sem_sets k' = sem_sets k"
      "\<forall>a. a \<noteq> the (tbl_shmaddr ?t) \<longrightarrow> segs k' a = segs k a"
    using tbl_Write_item [OF routed_mem [OF r] n l] by blast
  have a: "tbl_shmaddr ?t \<noteq> tbl_shmaddr ?u" "tbl_shmaddr ?t \<noteq> None"
    using r by (auto simp: routed_def table_ready_def)
  note o = other_table [OF k'(3) a routed_pid [OF r]]
  have rk: "routed r k'" using r k' o by (auto simp: routed_def free_locks_def)
  have "mems r k' = (mems r k)[i := x]"
    using mem_table.put_items [OF routed_mem [OF r] n, of x] w by (simp add: tbl_put_def mems_def pids_def)
  moreover have "pids r k' = pids r k"
    unfolding pids_map [OF rk] pids_map [OF r] using o by (simp add: tbl_get_def)
  moreover have "SetMemItem r x (int i) k = Some (Goes (True, k'))"
    using write_slot_free [of k "memSemTable r" 10 i] r i w by (simp add: SetMemItem_def routed_def)
  ultimately show ?thesis using rk by blast
qed

lemma SetPidItem_list:
  assumes r: "routed r k" and i: "i < 2" and x: "path_ok x"
  shows "\<exists>k'. SetPidItem r x (int i) k = Some (Goes (True, k')) \<and> routed r k'
    \<and> pids r k' = (pids r k)[i := x] \<and> mems r k' = mems r k"
proof -
  let ?t = "pidShmTable r" and ?u = "memShmTable r"
  have n: "i < nat (tbl_blockSize ?t)" using r i by (simp add: routed_def)
  have l: "length (enc_pid_item x) = sizeof_pid_item"
    using x by (simp add: dec_enc_pid_item sizeof_pid_item_def path_ok_def)
  obtain k' where w: "tbl_Write sizeof_pid_item k ?t (enc_pid_item x) (int i) = Some (True, k')"
    and k': "table_ready sizeof_pid_item ?t k'" "sem_sets k' = sem_sets k"
      "\<forall>a. a \<noteq> the (tbl_shmaddr ?t) \<longrightarrow> segs k' a = segs k a"
    using tbl_Write_item [OF routed_pid [OF r] n l] by blast
  have a: "tbl_shmaddr ?t \<noteq> tbl_shmaddr ?u" "tbl_shmaddr ?t \<noteq> None"
    using r by (auto simp: routed_def table_ready_def)
  note o = other_table [OF k'(3) a routed_mem [OF r]]
  have rk: "routed r k'" using r k' o by (auto simp: routed_def free_locks_def)
  have "pids r k' = (pids r k)[i := x]"
    using pid_table.put_items [OF routed_pid [OF r] n x] w by (simp add: tbl_put_def mems_def pids_def)
  moreover have "mems r k' = mems r k"
    unfolding mems_map [OF rk] mems_map [OF r] using o by (simp add: tbl_get_def)
  moreover have "SetPidItem r x (int i) k = Some (Goes (True, k'))"
    using write_slot_free [of k "pidSemTable r" 2 i] r i w by (simp add: SetPidItem_def routed_def)
  ultimately show ?thesis using rk by blast
qed

lemma find_slot_list:
  assumes r: "routed r k" and "\<forall>i \<in> set is. i < 2"
  shows "find_slot r is k = Some (Goes ((case List.find (\<lambda>i. pid (pids r k ! i) = -1) is of
    Some i \<Rightarrow> Slot i | None \<Rightarrow> Taken), k))"
  using assms(2)
proof (induction "is")
  case (Cons i ns)
  then have i: "i < 2" "i < nat (tbl_blockSize (pidShmTable r))" using r by (simp_all add: routed_def)
  obtain b where b: "tbl_Read sizeof_pid_item k (pidShmTable r) (int i) = Some (Some b)"
    "read_slot sizeof_pid_item (pidShmTable r) (pidSemTable r) (int i) k = Some (Goes (Some b, k))"
    using read_slot_free [OF routed_pid [OF r] i(2), of "pidSemTable r" 2] i(1) r by (auto simp: routed_def)
  then have "pids r k ! i = dec_pid_item b" using i by (simp add: pids_map [OF r] tbl_get_def)
  then show ?case using Cons b by simp
qed simp

section \<open>Setting the tables up\<close>

lemma init_slots_step:
  assumes "free_locks k s n" "i < n" "n \<le> 65536"
    and w: "tbl_Write w k t (f i) (int i) = Some (True, k2)"
  shows "init_slots w t s f (i # is) k = init_slots w t s f is k2"
proof -
  let ?S = "(sem_sets k)(semid s \<mapsto> (replicate n 1)[i := 0])"
  have "tbl_Write w (k\<lparr>sem_sets := ?S\<rparr>) t (f i) (int i) = Some (True, k2\<lparr>sem_sets := ?S\<rparr>)"
    using sem_blind_write [of w t "f i" "int i"] w by (simp add: sem_blind_def)
  moreover have "(replicate n (1::int))[i := 1] = replicate n 1"
    using assms(2) by (intro nth_equalityI) (auto simp: nth_list_update)
  then have "V (k2\<lparr>sem_sets := ?S\<rparr>) s (int i) = (True, k2\<lparr>sem_sets := sem_sets k\<rparr>)"
    using assms by (simp add: V_def free_locks_def fun_upd_idem)
  ultimately show ?thesis
    using P_replicate [OF assms(1-3)] sem_blind_kept [OF sem_blind_write w] by simp
qed

lemma write_slot_goes:
  assumes "write_slot w t s b (int i) k = Some (Goes (True, k'))" "free_locks k s n" "i < n" "n \<le> 65536"
  shows "tbl_Write w k t b (int i) = Some (True, k')"
  using assms(1) unfolding write_slot_free [OF assms(2-4)] by auto

lemma init_mem_slots:
  assumes "routed r k" "\<forall>i \<in> set ns. i < 10"
  shows "\<exists>k'. init_slots sizeof_mem_item (memShmTable r) (memSemTable r)
      (\<lambda>i. enc_mem_item (fresh_mem_item i)) ns k = Some (Goes (True, k')) \<and> routed r k' \<and> pids r k' = pids r k
    \<and> (\<forall>j < 10. mems r k' ! j = (if j \<in> set ns then fresh_mem_item j else mems r k ! j))"
  using assms
proof (induction ns arbitrary: k)
  case (Cons i ns)
  then have i: "i < 10" and free: "free_locks k (memSemTable r) 10" by (simp_all add: routed_def)
  obtain k1 where k1: "SetMemItem r (fresh_mem_item i) (int i) k = Some (Goes (True, k1))" "routed r k1"
    "mems r k1 = (mems r k)[i := fresh_mem_item i]" "pids r k1 = pids r k"
    using SetMemItem_list [OF Cons.prems(1) i, of "fresh_mem_item i"] by blast
  have w: "tbl_Write sizeof_mem_item k (memShmTable r) (enc_mem_item (fresh_mem_item i)) (int i) = Some (True, k1)"
    using write_slot_goes [OF _ free i] k1(1) by (simp add: SetMemItem_def)
  have step: "init_slots sizeof_mem_item (memShmTable r) (memSemTable r) (\<lambda>i. enc_mem_item (fresh_mem_item i))
      (i # ns) k = init_slots sizeof_mem_item (memShmTable r) (memSemTable r)
      (\<lambda>i. enc_mem_item (fresh_mem_item i)) ns k1"
    by (rule init_slots_step [OF free i]) (simp_all add: w)
  have "\<forall>i \<in> set ns. i < 10" using Cons.prems(2) by simp
  from Cons.IH [OF k1(2) this] show ?case
    unfolding step using k1 route_lengths(2) [OF Cons.prems(1)] by (auto simp: nth_list_update)
qed auto

lemma InitMemTable_list:
  assumes "routed r k"
  shows "\<exists>k'. InitMemTable r k = Some (Goes (True, k')) \<and> routed r k' \<and> pids r k' = pids r k
    \<and> mems r k' = map fresh_mem_item [0..<10]"
proof -
  have "\<forall>i \<in> set [0..<10]. i < (10::nat)" by simp
  from init_mem_slots [OF assms this] obtain k' where
    k': "InitMemTable r k = Some (Goes (True, k'))" "routed r k'" "pids r k' = pids r k"
    "\<forall>j < 10. mems r k' ! j = fresh_mem_item j"
    by (auto simp: InitMemTable_def)
  then have "mems r k' = map fresh_mem_item [0..<10]"
    by (intro nth_equalityI) (simp_all add: route_lengths)
  then show ?thesis using k' by blast
qed

lemma init_pid_slots:
  assumes "routed r k" "\<forall>i \<in> set ns. i < 2"
  shows "\<exists>k'. init_slots sizeof_pid_item (pidShmTable r) (pidSemTable r)
      (\<lambda>i. enc_pid_item fresh_pid_item) ns k = Some (Goes (True, k')) \<and> routed r k' \<and> mems r k' = mems r k
    \<and> (\<forall>j < 2. pids r k' ! j = (if j \<in> set ns then fresh_pid_item else pids r k ! j))"
  using assms
proof (induction ns arbitrary: k)
  case (Cons i ns)
  then have i: "i < 2" and free: "free_locks k (pidSemTable r) 2" by (simp_all add: routed_def)
  have ok: "path_ok fresh_pid_item" by (simp add: path_ok_def fresh_pid_item_def)
  obtain k1 where k1: "SetPidItem r fresh_pid_item (int i) k = Some (Goes (True, k1))" "routed r k1"
    "pids r k1 = (pids r k)[i := fresh_pid_item]" "mems r k1 = mems r k"
    using SetPidItem_list [OF Cons.prems(1) i ok] by blast
  have w: "tbl_Write sizeof_pid_item k (pidShmTable r) (enc_pid_item fresh_pid_item) (int i) = Some (True, k1)"
    using write_slot_goes [OF _ free i] k1(1) by (simp add: SetPidItem_def)
  have step: "init_slots sizeof_pid_item (pidShmTable r) (pidSemTable r) (\<lambda>i. enc_pid_item fresh_pid_item)
      (i # ns) k = init_slots sizeof_pid_item (pidShmTable r) (pidSemTable r)
      (\<lambda>i. enc_pid_item fresh_pid_item) ns k1"
    by (rule init_slots_step [OF free i]) (simp_all add: w)
  have "\<forall>i \<in> set ns. i < 2" using Cons.prems(2) by simp
  from Cons.IH [OF k1(2) this] show ?case
    unfolding step using k1 route_lengths(1) [OF Cons.prems(1)] by (auto simp: nth_list_update)
qed auto

lemma InitPidTable_list:
  assumes "routed r k"
  shows "\<exists>k'. InitPidTable r k = Some (Goes (True, k')) \<and> routed r k' \<and> mems r k' = mems r k
    \<and> pids r k' = [fresh_pid_item, fresh_pid_item]"
proof -
  have "\<forall>i \<in> set [0..<2]. i < (2::nat)" by simp
  from init_pid_slots [OF assms this] obtain k' where
    k': "InitPidTable r k = Some (Goes (True, k'))" "routed r k'" "mems r k' = mems r k"
    "\<forall>j < 2. pids r k' ! j = fresh_pid_item"
    by (auto simp: InitPidTable_def)
  then have "pids r k' = [fresh_pid_item, fresh_pid_item]"
    by (intro nth_equalityI) (auto simp: route_lengths less_2_cases_iff)
  then show ?thesis using k' by blast
qed

section \<open>Registering a process\<close>

definition registered :: "int \<Rightarrow> pid_item" where
  "registered p = \<lparr>pid = of_int p, isPidFree = True,
     fifoPath = ascii ''conf/fifo_'' @ dec_int p @ zeros (246 - length (dec_int p))\<rparr>"

lemma pid_path_registered:
  assumes "int_range p" shows "pid_path p = Some (fifoPath (registered p))" "path_ok (registered p)"
proof -
  have "\<bar>p\<bar> < 10 ^ 10" using assms by (simp add: int_range_def) linarith
  then have l: "length (dec_int p) \<le> 11" by (rule dec_int_length)
  then have "246 - length (dec_int p) = Suc (245 - length (dec_int p))" by linarith
  then have "zeros (246 - length (dec_int p)) = 0 # zeros (245 - length (dec_int p))" by (simp only: zeros_Suc)
  then show "pid_path p = Some (fifoPath (registered p))"
    using l by (simp add: pid_path_def registered_def wr_bytes_def)
  show "path_ok (registered p)" using l by (simp add: path_ok_def registered_def)
qed

lemma AddPidItem_list:
  assumes r: "routed r k" and p: "int_range p"
  shows "case List.find (\<lambda>i. pid (pids r k ! i) = -1) [0..<2] of
      None \<Rightarrow> AddPidItem r p k = Some (Goes (False, k))
    | Some i \<Rightarrow> \<exists>k'. AddPidItem r p k = Some (Goes (True, k')) \<and> routed r k'
        \<and> pids r k' = (pids r k)[i := registered p] \<and> mems r k' = mems r k"
proof -
  have f: "find_slot r [0..<2] k = Some (Goes ((case List.find (\<lambda>i. pid (pids r k ! i) = -1) [0..<2] of
      Some i \<Rightarrow> Slot i | None \<Rightarrow> Taken), k))"
    by (rule find_slot_list [OF r]) simp
  note pp = pid_path_registered [OF p]
  have reg: "\<lparr>pid = of_int p, isPidFree = True, fifoPath = fifoPath (registered p)\<rparr> = registered p"
    by (simp add: registered_def)
  show ?thesis
  proof (cases "List.find (\<lambda>i. pid (pids r k ! i) = -1) [0..<2]")
    case None
    then show ?thesis using f pp(1) by (simp add: AddPidItem_def)
  next
    case (Some i)
    then have "i < 2" by (auto simp: find_Some_iff)
    from SetPidItem_list [OF r this pp(2)] show ?thesis
      using f pp(1) Some reg by (auto simp: AddPidItem_def)
  qed
qed

end
