(* ===== verification/RouteProps.thy ===== *)
theory RouteProps
  imports RouteCtl
begin

text \<open>
  Properties of the routing tables: the scans are searches in a list, the life of a block's
  entry, registering a process, and two processes that register at the same time.
\<close>

section \<open>Sample values\<close>

definition sample_route :: route_ctl where
  "sample_route = \<lparr>
     pidShmTable = \<lparr>shm_table_conf = shm_pid_table_conf, tbl_blockSize = 2, tbl_shmid = 1, tbl_shmaddr = Some 1\<rparr>,
     pidSemTable = \<lparr>sem_conf = sem_pid_table_conf, blockSize = 2, semid = 1, semkey = 11\<rparr>,
     memShmTable = \<lparr>shm_table_conf = shm_mem_table_conf, tbl_blockSize = 10, tbl_shmid = 2, tbl_shmaddr = Some 2\<rparr>,
     memSemTable = \<lparr>sem_conf = sem_mem_table_conf, blockSize = 10, semid = 2, semkey = 12\<rparr>\<rparr>"

definition route_kernel :: kernel where
  "route_kernel = \<lparr>segs = [1 \<mapsto> zeros 528, 2 \<mapsto> zeros 80], shm_keys = Map.empty, next_shm = 3,
     shm_max = 100000, sem_sets = [1 \<mapsto> replicate 2 1, 2 \<mapsto> replicate 10 1], sem_keys = Map.empty,
     next_sem = 3, conf_files = Map.empty, conf_writable = True\<rparr>"

lemma sample_routed: "routed sample_route route_kernel"
  by (simp add: routed_def sample_route_def route_kernel_def table_ready_def free_locks_def
      sizeof_pid_item_def sizeof_mem_item_def)

section \<open>Scans\<close>

text \<open>C23: On tables that are set up, the three searches return the first entry of the list with the
  flag they look for, whatever the uninitialised local item held, and mark the item with -1 when
  there is none; they leave the kernel, locks included, as it was.\<close>

theorem scans_are_searches:
  assumes "routed r k"
  shows "GetFreeMem r junk k = Some (Goes ((case List.find isMemFree (mems r k) of
        Some x \<Rightarrow> x | None \<Rightarrow> (last (mems r k))\<lparr>shmIndex := -1\<rparr>), k))
    \<and> GetDataReadyMem r junk k = Some (Goes ((case List.find isDataReady (mems r k) of
        Some x \<Rightarrow> x | None \<Rightarrow> (last (mems r k))\<lparr>shmIndex := -1\<rparr>), k))
    \<and> GetFreePid r pjunk k = Some (Goes ((case List.find isPidFree (pids r k) of
        Some x \<Rightarrow> x | None \<Rightarrow> (last (pids r k))\<lparr>pid := -1\<rparr>), k))"
  using GetFreeMem_list [OF assms] GetDataReadyMem_list [OF assms] GetFreePid_list [OF assms] by simp

theorem scans_are_searches_witness:
  "GetFreeMem sample_route (fresh_mem_item 3) route_kernel = Some (Goes ((case List.find isMemFree
        (mems sample_route route_kernel) of
        Some x \<Rightarrow> x | None \<Rightarrow> (last (mems sample_route route_kernel))\<lparr>shmIndex := -1\<rparr>), route_kernel))
    \<and> GetFreePid sample_route fresh_pid_item route_kernel = Some (Goes ((case List.find isPidFree
        (pids sample_route route_kernel) of
        Some x \<Rightarrow> x | None \<Rightarrow> (last (pids sample_route route_kernel))\<lparr>pid := -1\<rparr>), route_kernel))"
  using scans_are_searches [OF sample_routed] by blast

section \<open>The life of an entry\<close>

text \<open>After \<open>InitMemTable\<close> every block is free and none has data; when the entry of a block is
  then set to used and ready, \<open>GetDataReadyMem\<close> returns that entry and \<open>GetFreeMem\<close> the first of
  the others; the table of processes is not touched.\<close>

theorem entry_lifecycle:
  assumes "routed r k" "i < 10"
  shows "\<exists>k1 k2 j. InitMemTable r k = Some (Goes (True, k1))
    \<and> GetFreeMem r junk k1 = Some (Goes (fresh_mem_item 0, k1))
    \<and> GetDataReadyMem r junk k1 = Some (Goes ((fresh_mem_item 9)\<lparr>shmIndex := -1\<rparr>, k1))
    \<and> SetMemItem r \<lparr>shmIndex = of_nat i, isMemFree = False, isDataReady = True\<rparr> (int i) k1 = Some (Goes (True, k2))
    \<and> GetDataReadyMem r junk k2 = Some (Goes (\<lparr>shmIndex = of_nat i, isMemFree = False, isDataReady = True\<rparr>, k2))
    \<and> GetFreeMem r junk k2 = Some (Goes (fresh_mem_item j, k2)) \<and> j = (if i = 0 then 1 else 0)
    \<and> pids r k2 = pids r k"
proof -
  let ?x = "\<lparr>shmIndex = of_nat i, isMemFree = False, isDataReady = True\<rparr>"
  obtain k1 where k1: "InitMemTable r k = Some (Goes (True, k1))" "routed r k1" "pids r k1 = pids r k"
    "mems r k1 = map fresh_mem_item [0..<10]"
    using InitMemTable_list [OF assms(1)] by blast
  obtain k2 where k2: "SetMemItem r ?x (int i) k1 = Some (Goes (True, k2))" "routed r k2"
    "mems r k2 = (mems r k1)[i := ?x]" "pids r k2 = pids r k1"
    using SetMemItem_list [OF k1(2) assms(2), of ?x] by blast
  have u: "[0..<10] = [0, 1, 2, 3, 4, 5, 6, 7, 8, 9::nat]" by (simp add: upt_rec)
  have m1: "mems r k1 = map fresh_mem_item [0, 1, 2, 3, 4, 5, 6, 7, 8, 9]" using k1(4) unfolding u .
  have i: "i \<in> {0, 1, 2, 3, 4, 5, 6, 7, 8, 9}" using assms(2) by (simp add: less_Suc_eq numeral_eq_Suc)
  have ready: "List.find isDataReady (mems r k2) = Some ?x"
    using i unfolding k2(3) m1 by (auto simp: fresh_mem_item_def)
  have free: "List.find isMemFree (mems r k2) = Some (fresh_mem_item (if i = 0 then 1 else 0))"
    using i unfolding k2(3) m1 by (auto simp: fresh_mem_item_def)
  have "GetFreeMem r junk k1 = Some (Goes (fresh_mem_item 0, k1))"
    "GetDataReadyMem r junk k1 = Some (Goes ((fresh_mem_item 9)\<lparr>shmIndex := -1\<rparr>, k1))"
    unfolding GetFreeMem_list [OF k1(2)] GetDataReadyMem_list [OF k1(2)] m1 by (simp_all add: fresh_mem_item_def)
  moreover have "GetDataReadyMem r junk k2 = Some (Goes (?x, k2))"
    "GetFreeMem r junk k2 = Some (Goes (fresh_mem_item (if i = 0 then 1 else 0), k2))"
    unfolding GetFreeMem_list [OF k2(2)] GetDataReadyMem_list [OF k2(2)] ready free by simp_all
  ultimately show ?thesis using k1 k2 by auto
qed

theorem entry_lifecycle_witness:
  "\<exists>k1 k2 j. InitMemTable sample_route route_kernel = Some (Goes (True, k1))
    \<and> GetFreeMem sample_route (fresh_mem_item 5) k1 = Some (Goes (fresh_mem_item 0, k1))
    \<and> GetDataReadyMem sample_route (fresh_mem_item 5) k1 = Some (Goes ((fresh_mem_item 9)\<lparr>shmIndex := -1\<rparr>, k1))
    \<and> SetMemItem sample_route \<lparr>shmIndex = of_nat 4, isMemFree = False, isDataReady = True\<rparr> (int 4) k1
        = Some (Goes (True, k2))
    \<and> GetDataReadyMem sample_route (fresh_mem_item 5) k2
        = Some (Goes (\<lparr>shmIndex = of_nat 4, isMemFree = False, isDataReady = True\<rparr>, k2))
    \<and> GetFreeMem sample_route (fresh_mem_item 5) k2 = Some (Goes (fresh_mem_item j, k2))
    \<and> j = (if (4 :: nat) = 0 then 1 else 0)
    \<and> pids sample_route k2 = pids sample_route route_kernel"
  by (rule entry_lifecycle [OF sample_routed]) simp

section \<open>Registering\<close>

text \<open>\<open>AddPidItem\<close> puts the process, with the path of its pipe, into the first slot whose pid is
  -1 and changes nothing else; when there is none it reports failure and changes nothing.\<close>

theorem registering:
  assumes "routed r k" "int_range p"
  shows "case List.find (\<lambda>i. pid (pids r k ! i) = -1) [0..<2] of
      None \<Rightarrow> AddPidItem r p k = Some (Goes (False, k))
    | Some i \<Rightarrow> \<exists>k'. AddPidItem r p k = Some (Goes (True, k')) \<and> routed r k'
        \<and> pids r k' = (pids r k)[i := registered p] \<and> mems r k' = mems r k"
  by (rule AddPidItem_list [OF assms])

theorem registering_witness:
  "case List.find (\<lambda>i. pid (pids sample_route route_kernel ! i) = -1) [0..<2] of
      None \<Rightarrow> AddPidItem sample_route 77 route_kernel = Some (Goes (False, route_kernel))
    | Some i \<Rightarrow> \<exists>k'. AddPidItem sample_route 77 route_kernel = Some (Goes (True, k')) \<and> routed sample_route k'
        \<and> pids sample_route k' = (pids sample_route route_kernel)[i := registered 77]
        \<and> mems sample_route k' = mems sample_route route_kernel"
  by (rule registering [OF sample_routed]) (simp add: int_range_def)

text \<open>The slot is chosen and written under separate locks: when two processes choose before one of
  them writes, both take the same slot, both writes succeed, and the first process is gone from
  the table.\<close>

theorem registration_race:
  assumes "routed r k" "int_range p" "int_range q"
    and free: "List.find (\<lambda>i. pid (pids r k ! i) = -1) [0..<2] = Some i"
  shows "find_slot r [0..<2] k = Some (Goes (Slot i, k))
    \<and> (\<exists>k1 k2. SetPidItem r (registered p) (int i) k = Some (Goes (True, k1))
        \<and> SetPidItem r (registered q) (int i) k1 = Some (Goes (True, k2))
        \<and> pids r k2 = (pids r k)[i := registered q])"
proof -
  have i: "i < 2" using free by (auto simp: find_Some_iff)
  obtain k1 where k1: "SetPidItem r (registered p) (int i) k = Some (Goes (True, k1))" "routed r k1"
    "pids r k1 = (pids r k)[i := registered p]"
    using SetPidItem_list [OF assms(1) i pid_path_registered(2) [OF assms(2)]] by blast
  obtain k2 where "SetPidItem r (registered q) (int i) k1 = Some (Goes (True, k2))"
    "pids r k2 = (pids r k1)[i := registered q]"
    using SetPidItem_list [OF k1(2) i pid_path_registered(2) [OF assms(3)]] by blast
  moreover have "find_slot r [0..<2] k = Some (Goes (Slot i, k))"
    using find_slot_list [OF assms(1), of "[0..<2]"] free by simp
  ultimately show ?thesis using k1 by auto
qed

theorem registration_race_witness:
  "\<exists>k0. InitPidTable sample_route route_kernel = Some (Goes (True, k0))
    \<and> find_slot sample_route [0..<2] k0 = Some (Goes (Slot 0, k0))
    \<and> (\<exists>k1 k2. SetPidItem sample_route (registered 7) (int 0) k0 = Some (Goes (True, k1))
        \<and> SetPidItem sample_route (registered 8) (int 0) k1 = Some (Goes (True, k2))
        \<and> pids sample_route k2 = (pids sample_route k0)[0 := registered 8])"
proof -
  obtain k0 where k0: "InitPidTable sample_route route_kernel = Some (Goes (True, k0))" "routed sample_route k0"
    "pids sample_route k0 = [fresh_pid_item, fresh_pid_item]"
    using InitPidTable_list [OF sample_routed] by blast
  have "List.find (\<lambda>i. pid (pids sample_route k0 ! i) = -1) [0..<2] = Some 0"
    unfolding k0(3) by (simp add: upt_rec fresh_pid_item_def)
  with registration_race [OF k0(2), of 7 8 0] k0(1) show ?thesis by (simp add: int_range_def)
qed

section \<open>Sequences of operations\<close>

datatype route_op = DoInitMem | DoInitPid | DoSetMem mem_item nat | DoSetPid pid_item nat | DoAddPid int
  | DoFreeMem mem_item | DoReadyMem mem_item | DoFreePid pid_item

definition after :: "('a \<times> kernel) waits option \<Rightarrow> kernel waits option" where
  "after x = map_option (\<lambda>y. case y of Sleeps \<Rightarrow> Sleeps | Goes (_, k) \<Rightarrow> Goes k) x"

fun route_do :: "route_ctl \<Rightarrow> route_op \<Rightarrow> kernel \<Rightarrow> kernel waits option" where
  "route_do r DoInitMem k = after (InitMemTable r k)"
| "route_do r DoInitPid k = after (InitPidTable r k)"
| "route_do r (DoSetMem x i) k = after (SetMemItem r x (int i) k)"
| "route_do r (DoSetPid x i) k = after (SetPidItem r x (int i) k)"
| "route_do r (DoAddPid p) k = after (AddPidItem r p k)"
| "route_do r (DoFreeMem junk) k = after (GetFreeMem r junk k)"
| "route_do r (DoReadyMem junk) k = after (GetDataReadyMem r junk k)"
| "route_do r (DoFreePid junk) k = after (GetFreePid r junk k)"

fun route_ops :: "route_ctl \<Rightarrow> route_op list \<Rightarrow> kernel \<Rightarrow> kernel waits option" where
  "route_ops r [] k = Some (Goes k)"
| "route_ops r (x # xs) k =
     (case route_do r x k of None \<Rightarrow> None | Some Sleeps \<Rightarrow> Some Sleeps | Some (Goes k') \<Rightarrow> route_ops r xs k')"

fun op_ok :: "route_op \<Rightarrow> bool" where
  "op_ok (DoSetMem x i) \<longleftrightarrow> i < 10"
| "op_ok (DoSetPid x i) \<longleftrightarrow> i < 2 \<and> path_ok x"
| "op_ok (DoAddPid p) \<longleftrightarrow> int_range p"
| "op_ok _ \<longleftrightarrow> True"

lemma after_goes: "x = Some (Goes (y, k)) \<Longrightarrow> after x = Some (Goes k)"
  by (simp add: after_def)

lemma route_do_routed:
  assumes "routed r k" "op_ok x"
  shows "\<exists>k'. route_do r x k = Some (Goes k') \<and> routed r k'"
proof (cases x)
  case (DoAddPid p)
  then show ?thesis
    using AddPidItem_list [OF assms(1), of p] assms by (auto simp: after_def split: option.splits)
qed (use assms InitMemTable_list [OF assms(1)] InitPidTable_list [OF assms(1)]
    SetMemItem_list [OF assms(1)] SetPidItem_list [OF assms(1)] GetFreeMem_list [OF assms(1)]
    GetDataReadyMem_list [OF assms(1)] GetFreePid_list [OF assms(1)] in \<open>fastforce simp: after_def\<close>)+

text \<open>C24: Every sequence of operations of one process, with slots of the tables and paths of 256
  bytes, runs to its end: no operation sleeps or copies outside of a segment, and the tables and
  locks are well formed afterwards.\<close>

theorem operations_keep_routed:
  assumes "routed r k" "\<forall>x \<in> set ops. op_ok x"
  shows "\<exists>k'. route_ops r ops k = Some (Goes k') \<and> routed r k'"
  using assms
proof (induction ops arbitrary: k)
  case (Cons x xs)
  then obtain k1 where "route_do r x k = Some (Goes k1)" "routed r k1"
    using route_do_routed [of r k x] by auto
  then show ?case using Cons by simp
qed simp

theorem operations_keep_routed_witness:
  "\<exists>k'. route_ops sample_route [DoInitMem, DoInitPid, DoAddPid 5, DoSetMem (fresh_mem_item 3) 9,
      DoReadyMem (fresh_mem_item 0), DoAddPid 6, DoAddPid 7] route_kernel = Some (Goes k') \<and> routed sample_route k'"
  by (rule operations_keep_routed [OF sample_routed]) (simp add: int_range_def)

end
