(* ===== verification/DataRecv.thy ===== *)
theory DataRecv
  imports SemTable
begin

text \<open>
  The writer and the readers of the shared blocks (\<^verbatim>\<open>share_mem/w_datarecv.cpp\<close>) and the named
  pipes between them (\<^verbatim>\<open>share_mem/w_fifo_ctl.cpp\<close>). A call is a function of the kernel, the
  object and what the pipe does; it may sleep in \<^verbatim>\<open>P\<close>, and is undefined (\<open>None\<close>) when
  it leaves the segment.
\<close>

section \<open>Pipes\<close>

text \<open>Which system call of a pipe operation fails.\<close>

datatype fifo_env = MkfifoFails | OpenFails | TransferFails | FifoOk

definition INT_LEN :: nat where
  "INT_LEN = 32"

text \<open>The result and the bytes put into the pipe.\<close>

definition FifoWrite :: "fifo_env \<Rightarrow> int \<Rightarrow> (int \<times> byte list option) option" where
  "FifoWrite env data =
     (case env of
        MkfifoFails \<Rightarrow> Some (-1, None)
      | OpenFails \<Rightarrow> Some (-1, None)
      | _ \<Rightarrow>
          do {
            buf \<leftarrow> wr_bytes (zeros INT_LEN) 0 (dec_int data @ [0]);
            Some (if env = TransferFails then (-1, None) else (int INT_LEN, Some buf))
          })"

text \<open>\<open>got\<close> is what \<^verbatim>\<open>read\<close> delivers into \<open>raw\<close>; a failed \<^verbatim>\<open>mkfifo\<close> returns false, that is 0.\<close>

definition FifoRead :: "fifo_env \<Rightarrow> cbuf \<Rightarrow> byte list \<Rightarrow> int option" where
  "FifoRead env raw got =
     (case env of
        MkfifoFails \<Rightarrow> Some 0
      | OpenFails \<Rightarrow> Some (-1)
      | TransferFails \<Rightarrow> Some (-1)
      | FifoOk \<Rightarrow>
          (let g = take INT_LEN got in
           map_option atoi (c_str (g @ drop (length g) raw) 0)))"

section \<open>State\<close>

record data_recv =
  dr_index :: int
  dr_id :: int
  w_shmctl :: shm_ctl
  w_semtable :: sem_table

definition sem_table_conf :: "byte list" where
  "sem_table_conf = ascii ''conf/sem_table.conf''"

definition W_DataRecv :: data_recv where
  "W_DataRecv = \<lparr>dr_index = 0, dr_id = 0, w_shmctl = W_ShmCtl, w_semtable = sem_Init [] 0\<rparr>"

definition GetFifoName :: "data_recv \<Rightarrow> byte list" where
  "GetFifoName d = ascii ''fifo_'' @ dec_int (dr_id d)"

section \<open>Operations\<close>

text \<open>Every process that attaches resets the semaphores.\<close>

definition ShmReadInit :: "kernel \<Rightarrow> data_recv \<Rightarrow> bool \<times> kernel \<times> data_recv" where
  "ShmReadInit k d =
     (let (ok, c1) = ReadShmid k (w_shmctl d); d1 = d\<lparr>w_shmctl := c1\<rparr> in
      if \<not> ok then (False, k, d1)
      else
        (let (ok2, c2) = AttachMem k c1; d2 = d1\<lparr>w_shmctl := c2\<rparr> in
         if \<not> ok2 then (False, k, d2)
         else
           (let (ok3, t) = sem_ReadInit k (sem_Init sem_table_conf shm_block_size);
                d3 = d2\<lparr>w_semtable := t\<rparr> in
            if \<not> ok3 then (False, k, d3)
            else (let (ok4, k4) = ResetSem k t in (ok4, k4, d3)))))"

definition ensure_init :: "kernel \<Rightarrow> data_recv \<Rightarrow> bool \<times> kernel \<times> data_recv" where
  "ensure_init k d = (if HasShm (w_shmctl d) then (True, k, d) else ShmReadInit k d)"

text \<open>The result, the state, and what went into which pipe.\<close>

type_synonym write_result = "bool \<times> kernel \<times> data_recv \<times> (byte list \<times> byte list) option"

definition WriteData :: "fifo_env \<Rightarrow> kernel \<Rightarrow> data_recv \<Rightarrow> byte list \<Rightarrow> write_result waits option" where
  "WriteData env k d buf =
     (let (ok, k1, d1) = ensure_init k d in
      if \<not> ok then Some (Goes (False, k1, d1, None))
      else
        (let d2 = d1\<lparr>dr_index := (dr_index d1 + 1) mod shm_block_size\<rparr> in
         case P k1 (w_semtable d2) (dr_index d2) of
           Sleeps \<Rightarrow> Some Sleeps
         | Goes (_, k2) \<Rightarrow>
             (case Write k2 (w_shmctl d2) buf (dr_index d2) of
                None \<Rightarrow> None
              | Some (flag, k3) \<Rightarrow>
                  (let (_, k4) = V k3 (w_semtable d2) (dr_index d2) in
                   if \<not> flag then Some (Goes (False, k4, d2, None))
                   else
                     (let d3 = d2\<lparr>dr_id := (dr_id d2 + 1) mod process_size\<rparr> in
                      case FifoWrite env (dr_index d3) of
                        None \<Rightarrow> None
                      | Some (r, out) \<Rightarrow>
                          if r = -1 then Some (Goes (False, k4, d3, None))
                          else Some (Goes (True, k4, d3, map_option (Pair (GetFifoName d3)) out)))))))"

text \<open>The buffer is \<open>Some\<close> when \<^verbatim>\<open>Read\<close> filled it.\<close>

type_synonym read_result = "bool \<times> kernel \<times> data_recv \<times> cbuf option"

definition ReadData :: "fifo_env \<Rightarrow> cbuf \<Rightarrow> byte list \<Rightarrow> kernel \<Rightarrow> data_recv \<Rightarrow> int \<Rightarrow>
    read_result waits option" where
  "ReadData env raw got k d len =
     (let (ok, k1, d1) = ensure_init k d in
      if \<not> ok then Some (Goes (False, k1, d1, None))
      else
        (case FifoRead env raw got of
           None \<Rightarrow> None
         | Some index \<Rightarrow>
             if index = -1 then Some (Goes (False, k1, d1, None))
             else
               (case P k1 (w_semtable d1) index of
                  Sleeps \<Rightarrow> Some Sleeps
                | Goes (_, k2) \<Rightarrow>
                    (case Read k2 (w_shmctl d1) len index of
                       None \<Rightarrow> None
                     | Some r \<Rightarrow>
                         (let (_, k3) = V k2 (w_semtable d1) index in
                          Some (Goes (r \<noteq> None, k3, d1, r)))))))"

section \<open>A kernel that is set up\<close>

definition locks_free :: "kernel \<Rightarrow> sem_table \<Rightarrow> bool" where
  "locks_free k t \<longleftrightarrow> sem_sets k (semid t) = Some (replicate 10 1)"

definition ready :: "kernel \<Rightarrow> data_recv \<Rightarrow> bool" where
  "ready k d \<longleftrightarrow> HasShm (w_shmctl d) \<and> attached k (w_shmctl d) \<and> locks_free k (w_semtable d)"

lemma P_V_free:
  assumes "locks_free k t" "i < 10"
  shows "\<exists>k2. P k t (int i) = Goes (True, k2) \<and> segs k2 = segs k \<and> conf_files k2 = conf_files k
    \<and> sem_sets k2 (semid t) = Some ((replicate 10 1)[i := 0])"
  using assms by (simp add: P_def locks_free_def)

lemma V_frees:
  assumes "sem_sets k (semid t) = Some ((replicate 10 1)[i := 0])" "i < 10"
  shows "\<exists>k2. V k t (int i) = (True, k2) \<and> segs k2 = segs k \<and> conf_files k2 = conf_files k
    \<and> locks_free k2 t"
proof -
  have "(replicate 10 (1::int))[i := 1] = replicate 10 1"
    using assms(2) by (intro nth_equalityI) (auto simp: nth_list_update)
  then show ?thesis using assms by (simp add: V_def locks_free_def)
qed

lemma attached_cong: "segs k' = segs k \<Longrightarrow> attached k' c = attached k c \<and> block k' c = block k c"
  by (auto simp: attached_def block_def)

lemma Write_sems: "Write k c d i = Some (ok, k') \<Longrightarrow> sem_sets k' = sem_sets k"
  by (auto simp: Write_def mem_write_def split: if_splits Option.bind_splits)

lemma ensure_ready: "ready k d \<Longrightarrow> ensure_init k d = (True, k, d)"
  by (simp add: ready_def ensure_init_def)

text \<open>The 32 bytes that carry an index through a pipe.\<close>

definition fifo_bytes :: "int \<Rightarrow> byte list" where
  "fifo_bytes i = dec_int i @ zeros (32 - length (dec_int i))"

lemma fifo_bytes_split:
  assumes "length (dec_int i) < 32"
  shows "fifo_bytes i = dec_int i @ 0 # zeros (31 - length (dec_int i))"
proof -
  have "32 - length (dec_int i) = Suc (31 - length (dec_int i))" using assms by linarith
  then show ?thesis by (simp only: fifo_bytes_def zeros_Suc)
qed

lemma FifoWrite_ok:
  assumes "length (dec_int i) < 32"
  shows "FifoWrite FifoOk i = Some (32, Some (fifo_bytes i))"
  using assms by (simp add: FifoWrite_def INT_LEN_def wr_bytes_def fifo_bytes_split)

lemma FifoRead_bytes:
  assumes "length (dec_int i) < 32"
  shows "FifoRead FifoOk raw (fifo_bytes i) = Some i"
proof -
  have "length (fifo_bytes i) = 32" using assms by (simp add: fifo_bytes_def)
  moreover have "c_str (fifo_bytes i @ drop 32 raw) 0 = Some (dec_int i)"
    using c_str_app0 [OF dec_int_no_nul] by (simp add: fifo_bytes_split [OF assms])
  ultimately show ?thesis
    using atoi_dec_int [of "[]"] by (simp add: FifoRead_def INT_LEN_def)
qed

lemma dec_int_small: "i < 10 \<Longrightarrow> length (dec_int (int i)) < 32"
  by (subst dec_int_def, subst (1 2) dec_nat.simps) simp

section \<open>One message\<close>

lemma WriteData_ready:
  assumes r: "ready k d" and len: "length buf \<le> 8192"
    and i: "i = nat ((dr_index d + 1) mod 10)"
  shows "\<exists>k'. WriteData FifoOk k d buf =
      Some (Goes (True, k', d\<lparr>dr_index := int i, dr_id := (dr_id d + 1) mod 2\<rparr>,
        Some (ascii ''fifo_'' @ dec_int ((dr_id d + 1) mod 2), fifo_bytes (int i))))
    \<and> ready k' d \<and> block k' (w_shmctl d) i = buf @ drop (length buf) (block k (w_shmctl d) i)
    \<and> (\<forall>j < 10. j \<noteq> i \<longrightarrow> block k' (w_shmctl d) j = block k (w_shmctl d) j)"
proof -
  let ?t = "w_semtable d" and ?c = "w_shmctl d"
  have i10: "i < 10" and ii: "int i = (dr_index d + 1) mod 10" unfolding i by simp_all
  have f: "locks_free k ?t" and att: "attached k ?c" using r by (simp_all add: ready_def)
  obtain k2 where p: "P k ?t (int i) = Goes (True, k2)" "segs k2 = segs k"
    and s2: "sem_sets k2 (semid ?t) = Some ((replicate 10 1)[i := 0])"
    using P_V_free [OF f i10] by blast
  have att2: "attached k2 ?c" "block k2 ?c = block k ?c" using att attached_cong [OF p(2)] by simp_all
  obtain k3 where w: "Write k2 ?c buf (int i) = Some (True, k3)" "attached k3 ?c"
    "block k3 ?c i = buf @ drop (length buf) (block k ?c i)"
    "\<forall>j < 10. j \<noteq> i \<longrightarrow> block k3 ?c j = block k ?c j"
    using Write_block [OF att2(1) i10 len] att2(2) by auto
  have s3: "sem_sets k3 (semid ?t) = Some ((replicate 10 1)[i := 0])"
    using Write_sems [OF w(1)] s2 by simp
  obtain k4 where v: "V k3 ?t (int i) = (True, k4)" "segs k4 = segs k3" "locks_free k4 ?t"
    using V_frees [OF s3 i10] by blast
  have "attached k4 ?c" "block k4 ?c = block k3 ?c" using w(2) attached_cong [OF v(2)] by simp_all
  then have "ready k4 d" using r v(3) by (simp add: ready_def)
  moreover have "WriteData FifoOk k d buf =
      Some (Goes (True, k4, d\<lparr>dr_index := int i, dr_id := (dr_id d + 1) mod 2\<rparr>,
        Some (ascii ''fifo_'' @ dec_int ((dr_id d + 1) mod 2), fifo_bytes (int i))))"
    using p(1) w(1) v(1) FifoWrite_ok [OF dec_int_small [OF i10]]
    by (simp add: WriteData_def ensure_ready [OF r] ii [symmetric] GetFifoName_def)
  ultimately show ?thesis using w \<open>block k4 ?c = block k3 ?c\<close> by auto
qed

lemma ReadData_ready:
  assumes r: "ready k d" and i: "i < 10"
  shows "\<exists>k'. ReadData FifoOk raw (fifo_bytes (int i)) k d 8192 =
      Some (Goes (True, k', d, Some (block k (w_shmctl d) i)))
    \<and> ready k' d \<and> block k' (w_shmctl d) = block k (w_shmctl d)"
proof -
  let ?t = "w_semtable d" and ?c = "w_shmctl d"
  have f: "locks_free k ?t" and att: "attached k ?c" using r by (simp_all add: ready_def)
  obtain k2 where p: "P k ?t (int i) = Goes (True, k2)" "segs k2 = segs k"
    and s2: "sem_sets k2 (semid ?t) = Some ((replicate 10 1)[i := 0])"
    using P_V_free [OF f i] by blast
  have att2: "attached k2 ?c" "block k2 ?c = block k ?c" using att attached_cong [OF p(2)] by simp_all
  obtain k3 where v: "V k2 ?t (int i) = (True, k3)" "segs k3 = segs k2" "locks_free k3 ?t"
    using V_frees [OF s2 i] by blast
  have att3: "attached k3 ?c" "block k3 ?c = block k ?c"
    using att2 attached_cong [OF v(2)] by simp_all
  then have "ready k3 d" using r v(3) by (simp add: ready_def)
  moreover have "ReadData FifoOk raw (fifo_bytes (int i)) k d 8192 =
      Some (Goes (True, k3, d, Some (block k ?c i)))"
    using p(1) v(1) FifoRead_bytes [OF dec_int_small [OF i]] Read_block [OF att2(1) i] att2(2)
    by (simp add: ReadData_def ensure_ready [OF r])
  ultimately show ?thesis using att3 by blast
qed

end
