(* ===== verification/NewShm.thy ===== *)
theory NewShm
  imports RouteProps DataRecv
begin

text \<open>
  The program that sets the shared memory up (\<^verbatim>\<open>shm_app/w_new_shm.cpp\<close>). Each call of
  \<^verbatim>\<open>time(NULL)\<close> is an argument.
\<close>

definition new_shm :: "kernel \<Rightarrow> int \<Rightarrow> bool \<times> kernel" where
  "new_shm k now =
     (let (ok, c) = CreateShmkey k now W_ShmCtl in
      if \<not> ok then (False, k) else (let (ok2, k2, _) = CreateShm k c in (ok2, k2)))"

definition new_sem :: "kernel \<Rightarrow> int \<Rightarrow> int \<Rightarrow> bool \<times> kernel" where
  "new_sem k now1 now2 =
     (let (ok1, k1, _) = ShmWriteInit sizeof_pid_item k (tbl_Init shm_pid_table_conf process_size) in
      if \<not> ok1 then (False, k1)
      else
        (let (ok2, k2, _) = sem_WriteInit k1 now1 (sem_Init sem_pid_table_conf process_size) in
         if \<not> ok2 then (False, k2)
         else
           (let (ok3, k3, _) = ShmWriteInit sizeof_mem_item k2 (tbl_Init shm_mem_table_conf shm_block_size) in
            if \<not> ok3 then (False, k3)
            else (let (ok4, k4, _) = sem_WriteInit k3 now2 (sem_Init sem_mem_table_conf shm_block_size) in
                  (ok4, k4)))))"

definition new_sem2 :: "kernel \<Rightarrow> int \<Rightarrow> bool \<times> kernel" where
  "new_sem2 k now = (let (ok, k1, _) = sem_WriteInit k now (sem_Init sem_table_conf shm_block_size) in (ok, k1))"

definition new_main :: "kernel \<Rightarrow> int \<Rightarrow> int \<Rightarrow> int \<times> kernel" where
  "new_main k now1 now2 =
     (let (ok, k1) = new_shm k now1 in
      if \<not> ok then (1, k1)
      else (let (ok2, k2) = new_sem2 k1 now2 in (if ok2 then 0 else 1, k2)))"

section \<open>Creating a set of semaphores\<close>

lemma ReadSemid_missing:
  "conf_files k (sem_conf t) = None \<Longrightarrow> ReadSemid k t = (False, t\<lparr>semid := 0, semkey := 0\<rparr>)"
  by (simp add: ReadSemid_def)

lemma ReadSemid_lines:
  assumes "conf_files k (sem_conf t) =
      Some (conf_line (ascii ''semid'') i @ conf_line (ascii ''semkey'') q)"
    and "int_range i" "int_range q"
  shows "ReadSemid k t = (i \<noteq> 0 \<and> q \<noteq> 0, t\<lparr>semid := i, semkey := q\<rparr>)"
  using assms by (simp add: ReadSemid_def kv_pairs_conf set_sem_pair_def Let_def)

text \<open>With no id file and a key not in use, a new set is made and every value set to 1.\<close>

lemma sem_WriteInit_fresh:
  assumes "conf_writable k" "conf_files k (sem_conf t) = None" "now \<noteq> 0" "sem_keys k now = None"
    and "0 \<le> next_sem k"
  shows "\<exists>k'. sem_WriteInit k now t = (True, k', t\<lparr>semid := next_sem k, semkey := now\<rparr>)
    \<and> sem_sets k' = (sem_sets k)(next_sem k \<mapsto> replicate (nat (blockSize t)) 1)
    \<and> sem_keys k' = (sem_keys k)(now \<mapsto> next_sem k) \<and> conf_writable k' \<and> segs k' = segs k
    \<and> next_sem k' = next_sem k + 1 \<and> next_shm k' = next_shm k \<and> shm_max k' = shm_max k
    \<and> conf_files k' = (conf_files k)(sem_conf t \<mapsto>
        conf_line (ascii ''semid'') (next_sem k) @ conf_line (ascii ''semkey'') now)"
proof -
  let ?ta = "t\<lparr>semid := 0, semkey := now\<rparr>" and ?t = "t\<lparr>semid := next_sem k, semkey := now\<rparr>"
  let ?line = "conf_line (ascii ''semid'') 0 @ conf_line (ascii ''semkey'') now"
  let ?k1 = "k\<lparr>conf_files := (conf_files k)(sem_conf t \<mapsto> ?line)\<rparr>"
  have 1: "CreateSemkey k now t = (True, ?ta)" "WriteSemid k ?ta = (True, ?k1)"
    using assms(1) ReadSemid_missing [OF assms(2)]
    by (simp_all add: CreateSemkey_def WriteSemid_def write_conf_def)
  let ?k2 = "?k1\<lparr>sem_sets := (sem_sets k)(next_sem k \<mapsto> replicate (nat (blockSize t)) 0),
      next_sem := next_sem k + 1, sem_keys := (sem_keys k)(now \<mapsto> next_sem k)\<rparr>"
  have 2: "semget ?k1 now (nat (blockSize t)) = (next_sem k, ?k2)"
    using assms(3,4) by (simp add: semget_def)
  let ?k3 = "?k2\<lparr>conf_files := (conf_files k)(sem_conf t \<mapsto>
      conf_line (ascii ''semid'') (next_sem k) @ conf_line (ascii ''semkey'') now)\<rparr>"
  have 3: "WriteSemid ?k2 ?t = (True, ?k3)" using assms(1) by (simp add: WriteSemid_def write_conf_def)
  have 4: "ResetSem ?k3 ?t = (True, ?k3\<lparr>sem_sets := (sem_sets k)(next_sem k \<mapsto>
      replicate (nat (blockSize t)) 1)\<rparr>)"
    using ResetSem_vals [of ?k3 ?t] by simp
  have "CreateSem ?k1 ?ta = (True, ?k3\<lparr>sem_sets := (sem_sets k)(next_sem k \<mapsto>
      replicate (nat (blockSize t)) 1)\<rparr>, ?t)"
  proof -
    have f: "semkey ?ta = now" "blockSize ?ta = blockSize t" "?ta\<lparr>semid := next_sem k\<rparr> = ?t"
      "(next_sem k < 0) = False" using assms(5) by simp_all
    show ?thesis unfolding CreateSem_def f(1,2) 2 Let_def prod.case f(3,4) 3 4 by simp
  qed
  then show ?thesis using 1 assms(1) by (simp add: sem_WriteInit_def)
qed

text \<open>With a key in use by a smaller set, the creation fails.\<close>

lemma sem_WriteInit_clash:
  assumes "conf_files k (sem_conf t) = None" "now \<noteq> 0" "sem_keys k now = Some i"
    and "sem_sets k i = Some vs" "length vs < nat (blockSize t)"
  shows "fst (sem_WriteInit k now t) = False"
  using assms ReadSemid_missing [OF assms(1)]
  by (auto simp: sem_WriteInit_def CreateSemkey_def WriteSemid_def write_conf_def CreateSem_def semget_def)

section \<open>Creating a segment\<close>

lemma CreateShm_new:
  assumes "conf_writable k" "shmkey c = 0 \<or> shm_keys k (shmkey c) = None" "81920 \<le> shm_max k" "0 \<le> next_shm k"
  shows "\<exists>k'. CreateShm k c = (True, k', c\<lparr>shmid := next_shm k\<rparr>)
    \<and> segs k' (next_shm k) = Some (zeros 81920)
    \<and> conf_files k' = (conf_files k)(shmid_conf \<mapsto>
        conf_line (ascii ''shmid'') (next_shm k) @ conf_line (ascii ''shmkey'') (shmkey c))
    \<and> conf_writable k' \<and> sem_sets k' = sem_sets k \<and> sem_keys k' = sem_keys k \<and> next_sem k' = next_sem k"
  using assms
  by (cases "shmkey c = 0")
    (simp_all add: CreateShm_def shmget_def new_segment_def Let_def WriteShmid_def write_conf_def)

lemma ShmWriteInit_new:
  assumes "conf_writable k" "nat (tbl_blockSize t) * w \<le> shm_max k" "0 \<le> next_shm k"
  shows "\<exists>k' t'. ShmWriteInit w k t = (True, k', t')
    \<and> segs k' = (segs k)(next_shm k \<mapsto> zeros (nat (tbl_blockSize t) * w)) \<and> next_shm k' = next_shm k + 1
    \<and> shm_max k' = shm_max k
    \<and> conf_files k' = (conf_files k)(shm_table_conf t \<mapsto> conf_line (ascii ''shmid'') (next_shm k))
    \<and> conf_writable k' \<and> sem_sets k' = sem_sets k \<and> sem_keys k' = sem_keys k \<and> next_sem k' = next_sem k"
  using assms
  by (simp add: ShmWriteInit_def tbl_CreateShm_def shmget_def new_segment_def Let_def tbl_WriteShmid_def
      write_conf_def tbl_AttachMem_def)

lemma tbl_ShmReadInit_line:
  assumes "conf_files k (shm_table_conf t) = Some (conf_line (ascii ''shmid'') i)" "int_range i" "i \<noteq> 0" "i \<noteq> -1"
    and "segs k i \<noteq> None"
  shows "tbl_ShmReadInit k t = (True, t\<lparr>tbl_shmid := i, tbl_shmaddr := Some i\<rparr>)"
proof -
  have "kv_pairs (conf_line (ascii ''shmid'') i) = [(ascii ''shmid'', i)]"
    using kv_pairs_line [OF id_words(1) assms(2), of "[]"] by (simp add: conf_line_def)
  then show ?thesis
    using assms by (simp add: tbl_ShmReadInit_def tbl_ReadShmid_def set_tbl_pair_def tbl_AttachMem_def)
qed

text \<open>A system where nothing has been set up yet.\<close>

definition fresh_kernel :: "kernel \<Rightarrow> bool" where
  "fresh_kernel k \<longleftrightarrow> conf_writable k \<and> conf_files k = Map.empty \<and> 81920 \<le> shm_max k
     \<and> 0 < next_shm k \<and> int_range (next_shm k + 1) \<and> 0 < next_sem k \<and> int_range (next_sem k + 1)"

lemma conf_names_distinct [simp]:
  "shmid_conf \<noteq> sem_table_conf" "sem_table_conf \<noteq> shmid_conf"
  "shm_pid_table_conf \<noteq> sem_pid_table_conf" "shm_pid_table_conf \<noteq> shm_mem_table_conf"
  "shm_pid_table_conf \<noteq> sem_mem_table_conf" "sem_pid_table_conf \<noteq> shm_mem_table_conf"
  "sem_pid_table_conf \<noteq> sem_mem_table_conf" "shm_mem_table_conf \<noteq> sem_mem_table_conf"
  "sem_pid_table_conf \<noteq> shm_pid_table_conf" "shm_mem_table_conf \<noteq> shm_pid_table_conf"
  "sem_mem_table_conf \<noteq> shm_pid_table_conf" "shm_mem_table_conf \<noteq> sem_pid_table_conf"
  "sem_mem_table_conf \<noteq> sem_pid_table_conf" "sem_mem_table_conf \<noteq> shm_mem_table_conf"
  by (simp_all add: shmid_conf_def sem_table_conf_def shm_pid_table_conf_def sem_pid_table_conf_def
      shm_mem_table_conf_def sem_mem_table_conf_def ascii_def)

section \<open>The set-up program and the processes after it\<close>

lemma setup_attach:
  assumes k: "fresh_kernel k" and now: "shm_keys k now1 = None" "sem_keys k now2 = None"
    and t: "0 < now1" "0 < now2" "int_range now1" "int_range now2"
  shows "\<exists>k1 c t. new_main k now1 now2 = (0, k1)
    \<and> (\<forall>i. ShmReadInit k1 (W_DataRecv\<lparr>dr_id := i\<rparr>)
        = (True, k1, W_DataRecv\<lparr>dr_id := i, w_shmctl := c, w_semtable := t\<rparr>))
    \<and> (\<forall>i. ready k1 (W_DataRecv\<lparr>dr_id := i, w_shmctl := c, w_semtable := t\<rparr>))
    \<and> (\<forall>i < 10. block k1 c i = zeros 8192)"
proof -
  have "CreateShmkey k now1 W_ShmCtl = (True, W_ShmCtl\<lparr>shmid := 0, shmkey := now1\<rparr>)"
    using k by (simp add: fresh_kernel_def CreateShmkey_def ReadShmid_def)
  moreover have "conf_writable k" "81920 \<le> shm_max k" "0 \<le> next_shm k" using k by (simp_all add: fresh_kernel_def)
  with CreateShm_new [of k "W_ShmCtl\<lparr>shmid := 0, shmkey := now1\<rparr>"] now(1) obtain ka where
    ka: "CreateShm k (W_ShmCtl\<lparr>shmid := 0, shmkey := now1\<rparr>) = (True, ka, W_ShmCtl\<lparr>shmid := next_shm k, shmkey := now1\<rparr>)"
    "segs ka (next_shm k) = Some (zeros 81920)" "conf_writable ka" "sem_keys ka = sem_keys k" "next_sem ka = next_sem k"
    "conf_files ka = (conf_files k)(shmid_conf \<mapsto>
      conf_line (ascii ''shmid'') (next_shm k) @ conf_line (ascii ''shmkey'') now1)"
    by auto
  ultimately have a: "new_shm k now1 = (True, ka)" by (simp add: new_shm_def)
  let ?s = "sem_Init sem_table_conf shm_block_size"
  have "conf_files ka (sem_conf ?s) = None" using ka(6) k by (simp add: sem_Init_def fresh_kernel_def)
  from sem_WriteInit_fresh [OF ka(3) this, of now2] ka(4,5) now(2) t(2) k obtain kb where
    kb: "sem_WriteInit ka now2 ?s = (True, kb, ?s\<lparr>semid := next_sem k, semkey := now2\<rparr>)"
    "sem_sets kb (next_sem k) = Some (replicate 10 1)" "segs kb = segs ka"
    "conf_files kb = (conf_files ka)(sem_table_conf \<mapsto>
      conf_line (ascii ''semid'') (next_sem k) @ conf_line (ascii ''semkey'') now2)"
    by (auto simp: fresh_kernel_def sem_Init_def)
  have main: "new_main k now1 now2 = (0, kb)" using a kb(1) by (simp add: new_main_def new_sem2_def)
  let ?c = "W_ShmCtl\<lparr>shmid := next_shm k, shmkey := now1\<rparr>"
  have ids: "int_range (next_shm k)" "int_range (next_sem k)" "0 < next_shm k" "0 < next_sem k"
    using k by (auto simp: fresh_kernel_def int_range_def)
  have r: "ReadShmid kb W_ShmCtl = (True, ?c)"
    using kb(4) ka(6) ids t(1,3)
    by (simp add: ReadShmid_def kv_pairs_conf set_pair_def Let_def)
  let ?t = "?s\<lparr>semid := next_sem k, semkey := now2\<rparr>"
  have s: "sem_ReadInit kb ?s = (True, ?t)"
    using kb(4) ids t(2,4) by (simp add: sem_ReadInit_def ReadSemid_lines sem_Init_def)
  have "sem_sets kb (semid ?t) = Some (replicate 10 1)" using kb(2) by simp
  then have z: "ResetSem kb ?t = (True, kb)"
    using ResetSem_vals [of kb ?t "replicate 10 1"] by (simp add: sem_Init_def fun_upd_idem)
  let ?c2 = "?c\<lparr>shmaddr := Some (next_shm k)\<rparr>"
  have att: "AttachMem kb ?c = (True, ?c2)"
    using kb(3) ka(2) ids by (simp add: AttachMem_def)
  have "w_shmctl (W_DataRecv\<lparr>dr_id := i\<rparr>) = W_ShmCtl" for i by (simp add: W_DataRecv_def)
  then have "ShmReadInit kb (W_DataRecv\<lparr>dr_id := i\<rparr>)
      = (True, kb, W_DataRecv\<lparr>dr_id := i, w_shmctl := ?c2, w_semtable := ?t\<rparr>)" for i
    using r att s z unfolding ShmReadInit_def by simp
  moreover have "ready kb (W_DataRecv\<lparr>dr_id := i, w_shmctl := ?c2, w_semtable := ?t\<rparr>)" for i
    using kb(2,3) ka(2) ids t(1) by (simp add: ready_def HasShm_def attached_def locks_free_def)
  moreover have "block kb ?c2 i = zeros 8192" if "i < 10" for i
    using kb(3) ka(2) that by (simp add: block_def)
  ultimately show ?thesis using main by blast
qed

text \<open>On a fresh system the set-up program succeeds, and the processes that come after it find the
  shared blocks: a writer or reader attaches, with every lock free and every block zero.\<close>

theorem setup_serves_readers:
  assumes k: "fresh_kernel k" and now: "shm_keys k now1 = None" "sem_keys k now2 = None"
    and t: "0 < now1" "0 < now2" "int_range now1" "int_range now2"
  shows "\<exists>k1 k2 d. new_main k now1 now2 = (0, k1) \<and> ShmReadInit k1 W_DataRecv = (True, k2, d)
    \<and> ready k2 d \<and> (\<forall>i < 10. block k2 (w_shmctl d) i = zeros 8192)"
proof -
  obtain k1 c t where "new_main k now1 now2 = (0, k1)" "\<forall>i < 10. block k1 c i = zeros 8192"
    and a: "\<forall>i. ShmReadInit k1 (W_DataRecv\<lparr>dr_id := i\<rparr>)
        = (True, k1, W_DataRecv\<lparr>dr_id := i, w_shmctl := c, w_semtable := t\<rparr>)"
      "\<forall>i. ready k1 (W_DataRecv\<lparr>dr_id := i, w_shmctl := c, w_semtable := t\<rparr>)"
    using setup_attach [OF assms] by blast
  moreover have "W_DataRecv\<lparr>dr_id := 0\<rparr> = W_DataRecv" by (simp add: W_DataRecv_def)
  ultimately show ?thesis using a [THEN spec, of 0] by (intro exI [of _ k1] exI conjI) auto
qed

definition empty_kernel :: kernel where
  "empty_kernel = \<lparr>segs = Map.empty, shm_keys = Map.empty, next_shm = 1, shm_max = 100000,
     sem_sets = Map.empty, sem_keys = Map.empty, next_sem = 1, conf_files = Map.empty, conf_writable = True\<rparr>"

lemma fresh_empty: "fresh_kernel empty_kernel"
  by (simp add: fresh_kernel_def empty_kernel_def int_range_def)

theorem setup_serves_readers_witness:
  "\<exists>k1 k2 d. new_main empty_kernel 1000 1001 = (0, k1) \<and> ShmReadInit k1 W_DataRecv = (True, k2, d)
    \<and> ready k2 d \<and> (\<forall>i < 10. block k2 (w_shmctl d) i = zeros 8192)"
  by (rule setup_serves_readers [OF fresh_empty]) (simp_all add: empty_kernel_def int_range_def)

section \<open>The routing tables\<close>

text \<open>The first half of \<open>new_sem\<close>: the tables and the set of the processes.\<close>

lemma new_sem_half:
  assumes k: "fresh_kernel k" and now: "sem_keys k now1 = None" "0 < now1"
  shows "\<exists>k1 t1 k2 t2 k3 t3. ShmWriteInit sizeof_pid_item k (tbl_Init shm_pid_table_conf process_size) = (True, k1, t1)
    \<and> sem_WriteInit k1 now1 (sem_Init sem_pid_table_conf process_size) = (True, k2, t2)
    \<and> ShmWriteInit sizeof_mem_item k2 (tbl_Init shm_mem_table_conf shm_block_size) = (True, k3, t3)
    \<and> segs k3 (next_shm k) = Some (zeros 528) \<and> segs k3 (next_shm k + 1) = Some (zeros 80)
    \<and> sem_sets k3 (next_sem k) = Some (replicate 2 1) \<and> sem_keys k3 = (sem_keys k)(now1 \<mapsto> next_sem k)
    \<and> next_sem k3 = next_sem k + 1 \<and> conf_writable k3
    \<and> conf_files k3 = [shm_pid_table_conf \<mapsto> conf_line (ascii ''shmid'') (next_shm k),
        sem_pid_table_conf \<mapsto> conf_line (ascii ''semid'') (next_sem k) @ conf_line (ascii ''semkey'') now1,
        shm_mem_table_conf \<mapsto> conf_line (ascii ''shmid'') (next_shm k + 1)]"
proof -
  let ?pt = "tbl_Init shm_pid_table_conf process_size" and ?mt = "tbl_Init shm_mem_table_conf shm_block_size"
  let ?ps = "sem_Init sem_pid_table_conf process_size"
  have w: "conf_writable k" "conf_files k = Map.empty" "0 \<le> next_shm k" "0 \<le> next_sem k" "81920 \<le> shm_max k"
    using k by (simp_all add: fresh_kernel_def)
  have sz: "nat (tbl_blockSize ?pt) * sizeof_pid_item = 528" "nat (tbl_blockSize ?mt) * sizeof_mem_item = 80"
    by (simp_all add: tbl_Init_def sizeof_pid_item_def sizeof_mem_item_def)
  then have le: "nat (tbl_blockSize ?pt) * sizeof_pid_item \<le> shm_max k" using w(5) by linarith
  obtain k1 t1 where 1: "ShmWriteInit sizeof_pid_item k ?pt = (True, k1, t1)"
    "segs k1 = (segs k)(next_shm k \<mapsto> zeros 528)" "next_shm k1 = next_shm k + 1" "shm_max k1 = shm_max k"
    "conf_files k1 = [shm_pid_table_conf \<mapsto> conf_line (ascii ''shmid'') (next_shm k)]"
    "conf_writable k1" "sem_sets k1 = sem_sets k" "sem_keys k1 = sem_keys k" "next_sem k1 = next_sem k"
    using ShmWriteInit_new [OF w(1) le w(3)] w(2) by (auto simp: tbl_Init_def sizeof_pid_item_def)
  have n: "conf_files k1 (sem_conf ?ps) = None" using 1(5) by (simp add: sem_Init_def)
  obtain k2 t2 where 2: "sem_WriteInit k1 now1 ?ps = (True, k2, t2)"
    "sem_sets k2 (next_sem k) = Some (replicate 2 1)" "sem_keys k2 = (sem_keys k)(now1 \<mapsto> next_sem k)"
    "conf_writable k2" "segs k2 = segs k1" "next_sem k2 = next_sem k + 1" "next_shm k2 = next_shm k + 1"
    "shm_max k2 = shm_max k"
    "conf_files k2 = (conf_files k1)(sem_pid_table_conf \<mapsto>
        conf_line (ascii ''semid'') (next_sem k) @ conf_line (ascii ''semkey'') now1)"
    using sem_WriteInit_fresh [OF 1(6) n, of now1] 1 now w(4) by (auto simp: sem_Init_def)
  have le2: "nat (tbl_blockSize ?mt) * sizeof_mem_item \<le> shm_max k2" "0 \<le> next_shm k2"
    using sz w(3,5) 2(7,8) by simp_all
  obtain k3 t3 where 3: "ShmWriteInit sizeof_mem_item k2 ?mt = (True, k3, t3)"
    "segs k3 = (segs k2)(next_shm k + 1 \<mapsto> zeros 80)" "conf_writable k3" "sem_sets k3 = sem_sets k2"
    "sem_keys k3 = sem_keys k2" "next_sem k3 = next_sem k2"
    "conf_files k3 = (conf_files k2)(shm_mem_table_conf \<mapsto> conf_line (ascii ''shmid'') (next_shm k + 1))"
    using ShmWriteInit_new [OF 2(4) le2] 2(7) by (auto simp: tbl_Init_def sizeof_mem_item_def)
  show ?thesis
    by (intro exI [of _ k1] exI [of _ t1] exI [of _ k2] exI [of _ t2] exI [of _ k3] exI [of _ t3])
      (use 1 2 3 in simp)
qed

text \<open>The two sets of semaphores get their keys from the clock. When both are made within one
  second, the second one, which is larger, meets the first under the same key, and the set-up of
  the routing tables fails on a fresh system.\<close>

theorem same_second_clash:
  assumes "fresh_kernel k" "sem_keys k now = None" "0 < now"
  shows "\<not> fst (new_sem k now now)"
proof -
  obtain k1 t1 k2 t2 k3 t3 where
    h: "ShmWriteInit sizeof_pid_item k (tbl_Init shm_pid_table_conf process_size) = (True, k1, t1)"
    "sem_WriteInit k1 now (sem_Init sem_pid_table_conf process_size) = (True, k2, t2)"
    "ShmWriteInit sizeof_mem_item k2 (tbl_Init shm_mem_table_conf shm_block_size) = (True, k3, t3)"
    "sem_sets k3 (next_sem k) = Some (replicate 2 1)" "sem_keys k3 now = Some (next_sem k)"
    "conf_files k3 sem_mem_table_conf = None"
    using new_sem_half [OF assms] by (auto simp: fun_upd_def)
  let ?s = "sem_Init sem_mem_table_conf shm_block_size"
  have "fst (sem_WriteInit k3 now ?s) = False"
    by (rule sem_WriteInit_clash [where vs = "replicate 2 1"]) (use h(4-6) assms(3) in \<open>simp_all add: sem_Init_def\<close>)
  then show ?thesis using h(1-3) unfolding new_sem_def by (auto split: prod.splits)
qed

theorem same_second_clash_witness: "\<not> fst (new_sem empty_kernel 1000 1000)"
  by (rule same_second_clash [OF fresh_empty]) (simp_all add: empty_kernel_def)

text \<open>C22: With two different seconds it succeeds, and a router that initialises itself afterwards finds
  both tables and all locks free.\<close>

theorem setup_serves_router:
  assumes k: "fresh_kernel k" and now: "sem_keys k now1 = None" "sem_keys k now2 = None" "now1 \<noteq> now2"
    and t: "0 < now1" "0 < now2" "int_range now1" "int_range now2"
  shows "\<exists>k' r'. new_sem k now1 now2 = (True, k') \<and> route_Init k' r = (True, r') \<and> routed r' k'"
proof -
  obtain k1 t1 k2 t2 k3 t3 where
    h: "ShmWriteInit sizeof_pid_item k (tbl_Init shm_pid_table_conf process_size) = (True, k1, t1)"
    "sem_WriteInit k1 now1 (sem_Init sem_pid_table_conf process_size) = (True, k2, t2)"
    "ShmWriteInit sizeof_mem_item k2 (tbl_Init shm_mem_table_conf shm_block_size) = (True, k3, t3)"
    and s3: "segs k3 (next_shm k) = Some (zeros 528)" "segs k3 (next_shm k + 1) = Some (zeros 80)"
    "sem_sets k3 (next_sem k) = Some (replicate 2 1)" "sem_keys k3 = (sem_keys k)(now1 \<mapsto> next_sem k)"
    "next_sem k3 = next_sem k + 1" "conf_writable k3"
    and f3: "conf_files k3 = [shm_pid_table_conf \<mapsto> conf_line (ascii ''shmid'') (next_shm k),
        sem_pid_table_conf \<mapsto> conf_line (ascii ''semid'') (next_sem k) @ conf_line (ascii ''semkey'') now1,
        shm_mem_table_conf \<mapsto> conf_line (ascii ''shmid'') (next_shm k + 1)]"
    using new_sem_half [OF k now(1) t(1)] by blast
  let ?s = "sem_Init sem_mem_table_conf shm_block_size"
  have "conf_files k3 (sem_conf ?s) = None" using f3 by (simp add: sem_Init_def)
  from sem_WriteInit_fresh [OF s3(6) this, of now2] s3 now t(2) k obtain k4 t4 where
    4: "sem_WriteInit k3 now2 ?s = (True, k4, t4)" "segs k4 = segs k3"
    "sem_sets k4 = (sem_sets k3)(next_sem k + 1 \<mapsto> replicate 10 1)"
    and f4: "conf_files k4 = (conf_files k3)(sem_mem_table_conf \<mapsto>
        conf_line (ascii ''semid'') (next_sem k + 1) @ conf_line (ascii ''semkey'') now2)"
    by (auto simp: fresh_kernel_def sem_Init_def)
  have new: "new_sem k now1 now2 = (True, k4)" using h 4(1) by (simp add: new_sem_def)
  let ?p = "next_shm k" and ?q = "next_sem k"
  have ids: "0 < ?p" "int_range ?p" "int_range (?p + 1)" "0 < ?q" "int_range ?q" "int_range (?q + 1)"
    using k by (auto simp: fresh_kernel_def int_range_def)
  have files: "conf_files k4 shm_pid_table_conf = Some (conf_line (ascii ''shmid'') ?p)"
    "conf_files k4 shm_mem_table_conf = Some (conf_line (ascii ''shmid'') (?p + 1))"
    "conf_files k4 sem_pid_table_conf = Some (conf_line (ascii ''semid'') ?q @ conf_line (ascii ''semkey'') now1)"
    "conf_files k4 sem_mem_table_conf = Some (conf_line (ascii ''semid'') (?q + 1) @ conf_line (ascii ''semkey'') now2)"
    unfolding f4 f3 by simp_all
  have seg: "segs k4 ?p = Some (zeros 528)" "segs k4 (?p + 1) = Some (zeros 80)" using 4(2) s3 by simp_all
  define pt where "pt = (tbl_Init shm_pid_table_conf process_size)\<lparr>tbl_shmid := ?p, tbl_shmaddr := Some ?p\<rparr>"
  define mt where "mt = (tbl_Init shm_mem_table_conf shm_block_size)\<lparr>tbl_shmid := ?p + 1, tbl_shmaddr := Some (?p + 1)\<rparr>"
  define ps where "ps = (sem_Init sem_pid_table_conf process_size)\<lparr>semid := ?q, semkey := now1\<rparr>"
  define ms where "ms = (sem_Init sem_mem_table_conf shm_block_size)\<lparr>semid := ?q + 1, semkey := now2\<rparr>"
  have tables: "tbl_ShmReadInit k4 (tbl_Init shm_pid_table_conf process_size) = (True, pt)"
    "tbl_ShmReadInit k4 (tbl_Init shm_mem_table_conf shm_block_size) = (True, mt)"
    unfolding pt_def mt_def using files seg ids
    by (intro tbl_ShmReadInit_line; simp add: tbl_Init_def)+
  have sems: "sem_ReadInit k4 (sem_Init sem_pid_table_conf process_size) = (True, ps)"
    "sem_ReadInit k4 (sem_Init sem_mem_table_conf shm_block_size) = (True, ms)"
    unfolding ps_def ms_def sem_ReadInit_def using files ids t
    by (simp_all add: ReadSemid_lines sem_Init_def)
  let ?r = "r\<lparr>pidSemTable := ps, pidShmTable := pt, memShmTable := mt, memSemTable := ms\<rparr>"
  have "route_Init k4 r = (True, ?r)"
    using tables sems by (simp add: route_Init_def)
  moreover have "routed ?r k4"
    using seg ids 4(3) s3(3) unfolding pt_def mt_def ps_def ms_def
    by (simp add: routed_def table_ready_def free_locks_def tbl_Init_def sem_Init_def
        sizeof_pid_item_def sizeof_mem_item_def)
  ultimately show ?thesis using new by blast
qed

theorem setup_serves_router_witness:
  "\<exists>k' r'. new_sem empty_kernel 1000 1001 = (True, k') \<and> route_Init k' sample_route = (True, r') \<and> routed r' k'"
  by (rule setup_serves_router [OF fresh_empty]) (simp_all add: empty_kernel_def int_range_def)

end
