(* ===== verification/StorageServer.thy ===== *)
theory StorageServer
  imports PendingSpec
begin

text \<open>
  The storage server's message loop (\<^verbatim>\<open>storage_server/storage_server.cpp\<close>). A connection is
  the list of chunks that successive \<^verbatim>\<open>read\<close>s can return; a read takes what one chunk has,
  up to the size asked for, and leaves the rest of its buffer as it was (\<open>junk\<close> is what the
  stack holds). \<open>None\<close> is undefined behaviour; an abort, a thread that waits and a thread
  that spins are values.
\<close>

section \<open>Reading\<close>

definition PACKAGE_SIZE :: nat where
  "PACKAGE_SIZE = 8192"

type_synonym sock = "byte list list"

fun sock_read :: "sock \<Rightarrow> nat \<Rightarrow> byte list \<times> sock" where
  "sock_read [] n = ([], [])"
| "sock_read (c # cs) n = (take n c, if length c \<le> n then cs else drop n c # cs)"

definition fill :: "cbuf \<Rightarrow> byte list \<Rightarrow> cbuf" where
  "fill b got = got @ drop (length got) b"

section \<open>Messages\<close>

definition MSG_NEW_FILE :: byte where
  "MSG_NEW_FILE = 0x4e"

definition MSG_FILE_DATA :: byte where
  "MSG_FILE_DATA = 0x44"

definition MSG_FILE_END :: byte where
  "MSG_FILE_END = 0x45"

definition SS_GetFileHeader :: "cbuf \<Rightarrow> sock \<Rightarrow> store \<Rightarrow> (sock \<times> store) option" where
  "SS_GetFileHeader junk k0 st =
     (let (g1, k1) = sock_read k0 20;
          (_, k2) = sock_read k1 20;
          (g3, k3) = sock_read k2 8;
          file_size = be64toh (of_le (fill (le64 (-1)) g3));
          (_, k4) = sock_read k3 2;
          (_, k5) = sock_read k4 (PACKAGE_SIZE - 1 - 20 - 20 - 8 - 2)
      in do {
        fid \<leftarrow> FileID_of (fill (take 20 junk) g1);
        st' \<leftarrow> SS_SetPendingFileSize st fid file_size;
        Some (k5, st')
      })"

definition SS_CloseFile :: "cbuf \<Rightarrow> sock \<Rightarrow> store \<Rightarrow> (sock \<times> closing) option" where
  "SS_CloseFile junk k0 st =
     (let (g1, k1) = sock_read k0 20;
          (_, k2) = sock_read k1 (PACKAGE_SIZE - 1 - 30)
      in do {
        fid \<leftarrow> FileID_of (fill (take 20 junk) g1);
        c \<leftarrow> SS_ClosePendingFile st fid;
        Some (k2, c)
      })"

datatype 'a checked = Aborts | Runs 'a

text \<open>
  \<^verbatim>\<open>read\<close> with a negative \<^verbatim>\<open>neglect\<close> is a read of unbounded size into \<^verbatim>\<open>buffer\<close>.
\<close>

definition SS_GetFileData :: "cbuf \<Rightarrow> sock \<Rightarrow> store \<Rightarrow> (sock \<times> store) checked option" where
  "SS_GetFileData junk k0 st =
     (let (g1, k1) = sock_read k0 20;
          (_, k2) = sock_read k1 20;
          (g3, k3) = sock_read k2 8;
          offset = be64toh (of_le (fill (zeros 8) g3));
          (g4, k4) = sock_read k3 2;
          data_len = unat (ntohs (of_le (fill (zeros 2) g4)))
      in if PACKAGE_SIZE \<le> data_len then Some Aborts
      else
        (let (g5, k5) = sock_read k4 data_len in
         do {
           fid \<leftarrow> FileID_of (fill (take 20 junk) g1);
           st' \<leftarrow> SS_WriteData2PendingFile st fid (take data_len (fill (take PACKAGE_SIZE junk) g5)) offset;
           if PACKAGE_SIZE - 1 - 50 < data_len then None
           else Some (Runs (snd (sock_read k5 (PACKAGE_SIZE - 1 - 50 - data_len)), st'))
         }))"

section \<open>The loop of a thread\<close>

text \<open>
  The default branch reads until \<open>msg\<close> differs from none of the three types at once;
  \<open>resync\<close> is \<open>k\<close> turns of it, \<open>Some\<close> when the condition has become false.
\<close>

fun resync :: "nat \<Rightarrow> sock \<Rightarrow> byte \<Rightarrow> (byte \<times> sock) option" where
  "resync 0 s msg = None"
| "resync (Suc k) s msg =
     (if msg \<noteq> MSG_NEW_FILE \<or> msg \<noteq> MSG_FILE_DATA \<or> msg \<noteq> MSG_FILE_END
      then (let (g, s') = sock_read s 1 in resync k s' (hd (g @ [msg])))
      else Some (msg, s))"

text \<open>The condition holds for every byte, since the types differ from each other.\<close>

lemma resync_never: "resync k s msg = None"
  by (induction k arbitrary: s msg) (auto simp: MSG_NEW_FILE_def MSG_FILE_DATA_def split: prod.split)

datatype served = EndOfStream store | Blocks ptr sock store | AbortsIn store | Spins store

definition sock_size :: "sock \<Rightarrow> nat" where
  "sock_size s = sum_list (map (\<lambda>c. Suc (length c)) s)"

lemma sock_read_size: "sock_size (snd (sock_read s n)) \<le> sock_size s"
  by (cases s) (auto simp: sock_size_def)

lemma sock_read_sizeD: "sock_read s n = (g, s') \<Longrightarrow> sock_size s' \<le> sock_size s"
  using sock_read_size [of s n] by simp

lemma sock_read_got: "sock_read s n = (g, s') \<Longrightarrow> g \<noteq> [] \<Longrightarrow> sock_size s' < sock_size s"
  by (cases s) (auto simp: sock_size_def split: if_splits)

lemma SS_GetFileHeader_size:
  "SS_GetFileHeader junk k st = Some (k', st') \<Longrightarrow> sock_size k' \<le> sock_size k"
  by (auto simp: SS_GetFileHeader_def Let_def split: prod.splits Option.bind_splits
      dest!: sock_read_sizeD)

lemma SS_CloseFile_size:
  "SS_CloseFile junk k st = Some (k', c) \<Longrightarrow> sock_size k' \<le> sock_size k"
  by (auto simp: SS_CloseFile_def Let_def split: prod.splits Option.bind_splits
      dest!: sock_read_sizeD)

lemma SS_GetFileData_size:
  "SS_GetFileData junk k st = Some (Runs (k', st')) \<Longrightarrow> sock_size k' \<le> sock_size k"
  by (auto simp: SS_GetFileData_def Let_def split: prod.splits Option.bind_splits if_splits
      dest!: sock_read_sizeD intro: order_trans [OF sock_read_size])

text \<open>
  \<^verbatim>\<open>thread_main\<close> on one connection. A read of 0 bytes ends it. What the stack holds at a
  call is arbitrary: \<open>junk\<close> may depend on the point in the stream.
\<close>

function serve :: "(sock \<Rightarrow> cbuf) \<Rightarrow> sock \<Rightarrow> store \<Rightarrow> served option" where
  "serve junk s st =
     (case sock_read s 1 of
        (msg # _, s1) \<Rightarrow>
          if msg = MSG_NEW_FILE then
            (case SS_GetFileHeader (junk s1) s1 st of
               None \<Rightarrow> None | Some (s2, st') \<Rightarrow> serve junk s2 st')
          else if msg = MSG_FILE_END then
            (case SS_CloseFile (junk s1) s1 st of
               None \<Rightarrow> None
             | Some (s2, Waiting fp st') \<Rightarrow> Some (Blocks fp s2 st')
             | Some (s2, Closed st') \<Rightarrow> serve junk s2 st')
          else if msg = MSG_FILE_DATA then
            (case SS_GetFileData (junk s1) s1 st of
               None \<Rightarrow> None
             | Some Aborts \<Rightarrow> Some (AbortsIn st)
             | Some (Runs (s2, st')) \<Rightarrow> serve junk s2 st')
          else Some (Spins st)
      | ([], _) \<Rightarrow> Some (EndOfStream st))"
  by pat_completeness auto
termination
proof (relation "measure (\<lambda>(junk, s, st). sock_size s)", goal_cases)
  case 1
  then show ?case by simp
next
  case (2 junk s st x s1 msg xs y s2 st')
  then have "sock_read s 1 = (msg # xs, s1)" "SS_GetFileHeader (junk s1) s1 st = Some (s2, st')"
    by auto
  then show ?case using sock_read_got [of s 1] SS_GetFileHeader_size by fastforce
next
  case (3 junk s st x s1 msg xs y s2 c st')
  then have "sock_read s 1 = (msg # xs, s1)" "SS_CloseFile (junk s1) s1 st = Some (s2, Closed st')"
    by auto
  then show ?case using sock_read_got [of s 1] SS_CloseFile_size by fastforce
next
  case (4 junk s st x s1 msg xs y c s2 st')
  then have "sock_read s 1 = (msg # xs, s1)" "SS_GetFileData (junk s1) s1 st = Some (Runs (s2, st'))"
    by auto
  then show ?case using sock_read_got [of s 1] SS_GetFileData_size by fastforce
qed

declare serve.simps [simp del]

text \<open>
  One turn of the inner loop, for a scheduler that switches between the threads: the
  connection is closed by its client, the thread goes on with the next message, waits in a
  close with the object \<open>fp\<close>, is aborted by the \<^verbatim>\<open>assert\<close>, or spins.
\<close>

datatype turn = TurnEnds | TurnGoes sock store | TurnWaits ptr sock store | TurnAborts | TurnSpins

definition serve_turn :: "(sock \<Rightarrow> cbuf) \<Rightarrow> sock \<Rightarrow> store \<Rightarrow> turn option" where
  "serve_turn junk s st =
     (case sock_read s 1 of
        (msg # _, s1) \<Rightarrow>
          if msg = MSG_NEW_FILE then
            map_option (\<lambda>(s2, st'). TurnGoes s2 st') (SS_GetFileHeader (junk s1) s1 st)
          else if msg = MSG_FILE_END then
            map_option (\<lambda>(s2, c). case c of Waiting fp st' \<Rightarrow> TurnWaits fp s2 st' | Closed st' \<Rightarrow> TurnGoes s2 st')
              (SS_CloseFile (junk s1) s1 st)
          else if msg = MSG_FILE_DATA then
            map_option (\<lambda>x. case x of Aborts \<Rightarrow> TurnAborts | Runs (s2, st') \<Rightarrow> TurnGoes s2 st')
              (SS_GetFileData (junk s1) s1 st)
          else Some TurnSpins
      | ([], _) \<Rightarrow> Some TurnEnds)"

lemma serve_by_turn:
  "serve junk s st =
     (case serve_turn junk s st of
        None \<Rightarrow> None
      | Some TurnEnds \<Rightarrow> Some (EndOfStream st)
      | Some (TurnGoes s' st') \<Rightarrow> serve junk s' st'
      | Some (TurnWaits fp s' st') \<Rightarrow> Some (Blocks fp s' st')
      | Some TurnAborts \<Rightarrow> Some (AbortsIn st)
      | Some TurnSpins \<Rightarrow> Some (Spins st))"
  by (subst serve.simps)
    (auto simp: serve_turn_def split: list.split option.split prod.split closing.split checked.split)

lemma serve_turn_size:
  assumes "serve_turn junk s st = Some (TurnGoes s' st')" shows "sock_size s' < sock_size s"
proof -
  obtain m g s1 where r: "sock_read s 1 = (m # g, s1)"
    using assms by (auto simp: serve_turn_def split: prod.splits list.splits)
  have "sock_size s' \<le> sock_size s1"
  proof (cases "m = MSG_NEW_FILE")
    case True
    then show ?thesis using assms r SS_GetFileHeader_size by (auto simp: serve_turn_def)
  next
    case new: False
    show ?thesis
    proof (cases "m = MSG_FILE_END")
      case True
      then obtain s2 c where "SS_CloseFile (junk s1) s1 st = Some (s2, c)"
        "(case c of Waiting fp st2 \<Rightarrow> TurnWaits fp s2 st2 | Closed st2 \<Rightarrow> TurnGoes s2 st2) = TurnGoes s' st'"
        using assms r new by (auto simp: serve_turn_def split: if_splits)
      then show ?thesis using SS_CloseFile_size by (cases c) auto
    next
      case False
      then obtain x where "SS_GetFileData (junk s1) s1 st = Some x"
        "(case x of Aborts \<Rightarrow> TurnAborts | Runs (s2, st2) \<Rightarrow> TurnGoes s2 st2) = TurnGoes s' st'"
        using assms r new by (auto simp: serve_turn_def split: if_splits)
      then show ?thesis using SS_GetFileData_size by (cases x) auto
    qed
  qed
  also have "\<dots> < sock_size s" using sock_read_got [OF r] by simp
  finally show ?thesis .
qed

end
