(* ===== verification/StorageFacts.thy ===== *)
theory StorageFacts
  imports StorageServer
begin

text \<open>
  Messages as the clients build them, packed into blocks of 8192 bytes, and what the storage
  server does with a stream of such packages when every read is full.
\<close>

section \<open>Messages and packages\<close>

definition header_msg :: "file_id \<Rightarrow> u64 \<Rightarrow> byte list \<Rightarrow> byte list" where
  "header_msg fid sz name =
     MSG_NEW_FILE # sha1sum fid @ zeros 20 @ be64 sz @ be16 (of_nat (length name)) @ name"

definition data_msg :: "file_id \<Rightarrow> u64 \<Rightarrow> byte list \<Rightarrow> byte list" where
  "data_msg fid off d =
     MSG_FILE_DATA # sha1sum fid @ zeros 20 @ be64 off @ be16 (of_nat (length d)) @ d"

definition end_msg :: "file_id \<Rightarrow> byte list" where
  "end_msg fid = MSG_FILE_END # sha1sum fid @ zeros 20 @ zeros 10"

text \<open>A block that held \<open>old\<close> after a message was copied to its front.\<close>

definition package :: "cbuf \<Rightarrow> byte list \<Rightarrow> cbuf" where
  "package old m = fill old m"

lemma length_package [simp]: "length m \<le> length old \<Longrightarrow> length (package old m) = length old"
  by (simp add: package_def fill_def)

text \<open>A connection whose remaining bytes have all arrived.\<close>

definition arrived :: "byte list \<Rightarrow> sock" where
  "arrived b = (if b = [] then [] else [b])"

lemma sock_read_arrived: "n = length a \<Longrightarrow> sock_read (arrived (a @ b)) n = (a, arrived b)"
  by (auto simp: arrived_def)

lemma sock_read_arrived_Cons: "sock_read (arrived (x # b)) (Suc 0) = ([x], arrived b)"
  using sock_read_arrived [of 1 "[x]" b] by simp

lemma fill_whole: "length b = length g \<Longrightarrow> fill b g = g"
  by (simp add: fill_def)

lemma FileID_of_sha: "ok_id fid \<Longrightarrow> FileID_of (sha1sum fid) = Some fid"
  using FileID_of_ok [of "sha1sum fid" "[]"] by simp

section \<open>Handlers on full reads\<close>

lemma GetFileHeader_arrived:
  assumes fid: "ok_id fid" and x: "length x = 8141" and f: "length f = 2" and j: "20 \<le> length junk"
  shows "SS_GetFileHeader junk (arrived (sha1sum fid @ zeros 20 @ be64 sz @ f @ x @ rest)) st =
    map_option (\<lambda>st'. (arrived rest, st')) (SS_SetPendingFileSize st fid sz)"
proof -
  have r: "sock_read (arrived (sha1sum fid @ zeros 20 @ be64 sz @ f @ x @ rest)) 20
      = (sha1sum fid, arrived (zeros 20 @ be64 sz @ f @ x @ rest))"
    "sock_read (arrived (zeros 20 @ be64 sz @ f @ x @ rest)) 20
      = (zeros 20, arrived (be64 sz @ f @ x @ rest))"
    "sock_read (arrived (be64 sz @ f @ x @ rest)) 8 = (be64 sz, arrived (f @ x @ rest))"
    "sock_read (arrived (f @ x @ rest)) 2 = (f, arrived (x @ rest))"
    "sock_read (arrived (x @ rest)) 8141 = (x, arrived rest)"
    using fid x f by (simp_all add: sock_read_arrived)
  show ?thesis
    using fid j
    by (simp add: SS_GetFileHeader_def r fill_whole FileID_of_sha PACKAGE_SIZE_def
        map_conv_bind_option o_def)
qed

lemma CloseFile_arrived:
  assumes fid: "ok_id fid" and x: "length x = 8161" and j: "20 \<le> length junk"
  shows "SS_CloseFile junk (arrived (sha1sum fid @ x @ rest)) st =
    map_option (\<lambda>c. (arrived rest, c)) (SS_ClosePendingFile st fid)"
proof -
  have r: "sock_read (arrived (sha1sum fid @ x @ rest)) 20 = (sha1sum fid, arrived (x @ rest))"
    "sock_read (arrived (x @ rest)) 8161 = (x, arrived rest)"
    using fid x by (simp_all add: sock_read_arrived)
  show ?thesis
    using fid j
    by (simp add: SS_CloseFile_def r fill_whole FileID_of_sha PACKAGE_SIZE_def
        map_conv_bind_option o_def)
qed

lemma GetFileData_arrived:
  assumes fid: "ok_id fid" and d: "length d + length x = 8141" and j: "8192 \<le> length junk"
  shows "SS_GetFileData junk
      (arrived (sha1sum fid @ zeros 20 @ be64 off @ be16 (of_nat (length d)) @ d @ x @ rest)) st =
    map_option (\<lambda>st'. Runs (arrived rest, st')) (SS_WriteData2PendingFile st fid d off)"
proof -
  let ?l = "be16 (of_nat (length d))"
  have r: "sock_read (arrived (sha1sum fid @ zeros 20 @ be64 off @ ?l @ d @ x @ rest)) 20
      = (sha1sum fid, arrived (zeros 20 @ be64 off @ ?l @ d @ x @ rest))"
    "sock_read (arrived (zeros 20 @ be64 off @ ?l @ d @ x @ rest)) 20
      = (zeros 20, arrived (be64 off @ ?l @ d @ x @ rest))"
    "sock_read (arrived (be64 off @ ?l @ d @ x @ rest)) 8 = (be64 off, arrived (?l @ d @ x @ rest))"
    "sock_read (arrived (?l @ d @ x @ rest)) 2 = (?l, arrived (d @ x @ rest))"
    "sock_read (arrived (d @ x @ rest)) (length d) = (d, arrived (x @ rest))"
    "sock_read (arrived (x @ rest)) (8141 - length d) = (x, arrived rest)"
    using fid d by (simp_all add: sock_read_arrived)
  have len: "unat (of_nat (length d) :: u16) = length d"
    using d by (simp add: unat_of_nat)
  show ?thesis
    using fid j d
    by (simp add: SS_GetFileData_def r fill_whole FileID_of_sha PACKAGE_SIZE_def len
        map_conv_bind_option o_def) (simp add: fill_def)
qed

section \<open>Packages\<close>

definition big :: "(sock \<Rightarrow> cbuf) \<Rightarrow> bool" where
  "big junk \<longleftrightarrow> (\<forall>s. PACKAGE_SIZE \<le> length (junk s))"

lemma big_junk: "big junk \<Longrightarrow> 20 \<le> length (junk s)"
  unfolding big_def PACKAGE_SIZE_def by (erule allE [of _ s]) linarith

lemma turn_header:
  assumes "big junk" "ok_id fid" "length old = PACKAGE_SIZE"
    and "length (header_msg fid sz name) \<le> PACKAGE_SIZE"
  shows "serve_turn junk (arrived (package old (header_msg fid sz name) @ rest)) st =
    map_option (TurnGoes (arrived rest)) (SS_SetPendingFileSize st fid sz)"
proof -
  let ?x = "name @ drop (51 + length name) old"
  have p: "package old (header_msg fid sz name) @ rest = MSG_NEW_FILE # sha1sum fid @ zeros 20
      @ be64 sz @ be16 (of_nat (length name)) @ ?x @ rest"
    using assms(2) by (simp add: package_def fill_def header_msg_def)
  have x: "length ?x = 8141"
    using assms by (simp add: header_msg_def PACKAGE_SIZE_def)
  note j = big_junk [OF assms(1)]
  note g = GetFileHeader_arrived [OF assms(2) x _ j, of "be16 (of_nat (length name))", simplified]
  show ?thesis
    unfolding p serve_turn_def by (simp add: sock_read_arrived_Cons g option.map_comp o_def)
qed

lemma serve_header:
  assumes "big junk" "ok_id fid" "length old = PACKAGE_SIZE"
    and "length (header_msg fid sz name) \<le> PACKAGE_SIZE"
  shows "serve junk (arrived (package old (header_msg fid sz name) @ rest)) st =
    Option.bind (SS_SetPendingFileSize st fid sz) (serve junk (arrived rest))"
  by (subst serve_by_turn) (simp add: turn_header [OF assms] split: option.split Option.bind_split)

lemma turn_data:
  assumes "big junk" "ok_id fid" "length old = PACKAGE_SIZE" "length d \<le> 8141"
  shows "serve_turn junk (arrived (package old (data_msg fid off d) @ rest)) st =
    map_option (TurnGoes (arrived rest)) (SS_WriteData2PendingFile st fid d off)"
proof -
  let ?x = "drop (51 + length d) old"
  have p: "package old (data_msg fid off d) @ rest = MSG_FILE_DATA # sha1sum fid @ zeros 20
      @ be64 off @ be16 (of_nat (length d)) @ d @ ?x @ rest"
    using assms(2) by (simp add: package_def fill_def data_msg_def)
  have "length d + length ?x = 8141"
    using assms by (simp add: PACKAGE_SIZE_def)
  then show ?thesis
    unfolding p serve_turn_def using assms(1,2)
    by (simp add: sock_read_arrived_Cons GetFileData_arrived big_def PACKAGE_SIZE_def
        MSG_NEW_FILE_def MSG_FILE_DATA_def MSG_FILE_END_def option.map_comp o_def)
qed

lemma serve_data:
  assumes "big junk" "ok_id fid" "length old = PACKAGE_SIZE" "length d \<le> 8141"
  shows "serve junk (arrived (package old (data_msg fid off d) @ rest)) st =
    Option.bind (SS_WriteData2PendingFile st fid d off) (serve junk (arrived rest))"
  by (subst serve_by_turn) (simp add: turn_data [OF assms] split: option.split Option.bind_split)

lemma turn_end:
  assumes "big junk" "ok_id fid" "length old = PACKAGE_SIZE"
  shows "serve_turn junk (arrived (package old (end_msg fid) @ rest)) st =
    map_option (\<lambda>c. case c of
        Waiting fp st' \<Rightarrow> TurnWaits fp (arrived (drop 8182 old @ rest)) st'
      | Closed st' \<Rightarrow> TurnGoes (arrived (drop 8182 old @ rest)) st') (SS_ClosePendingFile st fid)"
proof -
  let ?x = "zeros 20 @ zeros 10 @ take 8131 (drop 51 old)"
  have p: "package old (end_msg fid) @ rest =
      MSG_FILE_END # sha1sum fid @ ?x @ drop 8182 old @ rest"
  proof -
    have "drop 51 old @ rest = take 8131 (drop 51 old) @ drop 8182 old @ rest"
      using append_take_drop_id [of 8131 "drop 51 old"] by (simp flip: append_assoc)
    then show ?thesis using assms(2) by (simp add: package_def fill_def end_msg_def)
  qed
  have x: "length ?x = 8161" using assms(3) by (simp add: PACKAGE_SIZE_def)
  note g = CloseFile_arrived [OF assms(2) x big_junk [OF assms(1)], simplified]
  show ?thesis
    unfolding p serve_turn_def
    by (simp add: sock_read_arrived_Cons g MSG_NEW_FILE_def MSG_FILE_END_def option.map_comp o_def)
qed

lemma serve_end:
  assumes "big junk" "ok_id fid" "length old = PACKAGE_SIZE"
  shows "serve junk (arrived (package old (end_msg fid) @ rest)) st =
    (case SS_ClosePendingFile st fid of
       None \<Rightarrow> None
     | Some (Waiting fp st') \<Rightarrow> Some (Blocks fp (arrived (drop 8182 old @ rest)) st')
     | Some (Closed st') \<Rightarrow> serve junk (arrived (drop 8182 old @ rest)) st')"
  by (subst serve_by_turn) (simp add: turn_end [OF assms] split: option.split closing.split)

definition msg_types :: "byte set" where
  "msg_types = {MSG_NEW_FILE, MSG_FILE_DATA, MSG_FILE_END}"

lemma turn_unknown:
  "b \<notin> msg_types \<Longrightarrow> sock_read s 1 = (b # g, s1) \<Longrightarrow> serve_turn junk s st = Some TurnSpins"
  by (simp add: serve_turn_def msg_types_def)

lemma serve_unknown:
  assumes "b \<noteq> MSG_NEW_FILE" "b \<noteq> MSG_FILE_DATA" "b \<noteq> MSG_FILE_END"
  shows "serve junk (arrived (b # rest)) st = Some (Spins st)"
  using assms by (subst serve_by_turn) (simp add: turn_unknown msg_types_def sock_read_arrived_Cons)

lemma serve_end_of_stream: "serve junk (arrived []) st = Some (EndOfStream st)"
  by (subst serve.simps) (simp add: arrived_def)

end
