(* ===== verification/Upload.thy ===== *)
theory Upload
  imports StorageFacts "HOL-Library.Multiset"
begin

text \<open>
  A whole upload at the storage server: the size is set, the pieces are written in the order
  they arrive, and the file is closed. The file on disk is then the file that was cut into the
  pieces, whatever the order; until the last byte is there the closing thread waits.
\<close>

section \<open>Writing all pieces\<close>

fun write_all :: "store \<Rightarrow> file_id \<Rightarrow> (nat \<times> byte list) list \<Rightarrow> store option" where
  "write_all st fid [] = Some st"
| "write_all st fid (x # xs) =
     (case SS_WriteData2PendingFile st fid (snd x) (of_nat (fst x)) of
        None \<Rightarrow> None | Some st' \<Rightarrow> write_all st' fid xs)"

definition total :: "(nat \<times> byte list) list \<Rightarrow> nat" where
  "total ps = sum_list (map (\<lambda>x. length (snd x)) ps)"

lemma disk_contents: "contents st fid = c \<Longrightarrow> disk st (file_name fid) \<noteq> None \<Longrightarrow>
    disk st (file_name fid) = Some c"
  by (auto simp: contents_def split: option.splits)

lemma write_all_map:
  assumes "store_inv st" "ok_id fid" "\<forall>x \<in> set ps. fst x < 2 ^ 64"
  shows "\<exists>st'. write_all st fid ps = Some st' \<and> store_inv st'
    \<and> file_size (entry_of st' fid) = file_size (entry_of st fid)
    \<and> dl_size (entry_of st' fid) = dl_size (entry_of st fid) + of_nat (total ps)
    \<and> (ps \<noteq> [] \<longrightarrow> pending st' fid \<noteq> None)
    \<and> (\<forall>k. k \<noteq> fid \<longrightarrow> pending st' k = pending st k)
    \<and> (ps \<noteq> [] \<longrightarrow> disk st' = (disk st)(file_name fid \<mapsto> splices (contents st fid) ps))
    \<and> (ps = [] \<longrightarrow> st' = st)"
  using assms
proof (induction ps arbitrary: st)
  case Nil
  then show ?case by (simp add: total_def)
next
  case (Cons x xs)
  have off: "unat (of_nat (fst x) :: u64) = fst x"
    using Cons.prems(3) by (simp add: unat_of_nat)
  obtain st1 fd where w: "SS_WriteData2PendingFile st fid (snd x) (of_nat (fst x)) = Some st1"
    and i1: "store_inv st1"
    and m1: "pending st1 = (pending st)(fid \<mapsto> (entry_of st fid)
        \<lparr>opened_fd := fd, dl_size := dl_size (entry_of st fid) + of_nat (length (snd x))\<rparr>)"
    and d1: "disk st1 = (disk st)(file_name fid \<mapsto> splice (contents st fid) (fst x) (snd x))"
    using WriteData_map [OF Cons.prems(1,2), of "snd x" "of_nat (fst x)"] off by auto
  obtain st' where s: "write_all st1 fid xs = Some st'" "store_inv st'"
    "file_size (entry_of st' fid) = file_size (entry_of st1 fid)"
    "dl_size (entry_of st' fid) = dl_size (entry_of st1 fid) + of_nat (total xs)"
    "xs \<noteq> [] \<longrightarrow> pending st' fid \<noteq> None"
    "\<forall>k. k \<noteq> fid \<longrightarrow> pending st' k = pending st1 k"
    "xs \<noteq> [] \<longrightarrow> disk st' = (disk st1)(file_name fid \<mapsto> splices (contents st1 fid) xs)"
    "xs = [] \<longrightarrow> st' = st1"
  proof -
    have "\<forall>x \<in> set xs. fst x < 2 ^ 64" using Cons.prems(3) by simp
    from Cons.IH [OF i1 Cons.prems(2) this] show thesis using that by blast
  qed
  have c1: "contents st1 fid = splice (contents st fid) (fst x) (snd x)"
    by (simp add: contents_def d1)
  have e1: "file_size (entry_of st1 fid) = file_size (entry_of st fid)"
    "dl_size (entry_of st1 fid) = dl_size (entry_of st fid) + of_nat (length (snd x))"
    by (simp_all add: entry_of_def m1)
  have d': "disk st' = (disk st)(file_name fid \<mapsto> splices (contents st fid) (x # xs))"
    using s(7,8) d1 c1 by (cases "xs = []") (simp_all add: splices_def)
  have "pending st' fid \<noteq> None" using s(5,8) m1 by (cases "xs = []") auto
  moreover have "dl_size (entry_of st' fid) = dl_size (entry_of st fid) + of_nat (total (x # xs))"
    using s(4) e1(2) by (simp add: total_def add.assoc)
  moreover have "\<forall>k. k \<noteq> fid \<longrightarrow> pending st' k = pending st k" using s(6) m1 by simp
  ultimately show ?case
    using w s(1,2,3) d' e1(1) by (auto simp del: fun_upd_apply)
qed

lemma splice_order_free:
  assumes "\<forall>x \<in> set ps. piece_of c x" "\<forall>i < length c. covers ps i"
  shows "splices [] ps = c"
  using splices_whole assms by blast

definition pieces_of :: "byte list \<Rightarrow> (nat \<times> byte list) list \<Rightarrow> bool" where
  "pieces_of c ps \<longleftrightarrow> ps \<noteq> [] \<and> (\<forall>x \<in> set ps. piece_of c x) \<and> (\<forall>i < length c. covers ps i)
     \<and> total ps = length c \<and> length c < 2 ^ 64"

lemma piece_offset: "pieces_of c ps \<Longrightarrow> x \<in> set ps \<Longrightarrow> fst x < 2 ^ 64"
  by (fastforce simp: pieces_of_def piece_of_def)

lemma pieces_of_perm:
  assumes "pieces_of c ps" "mset qs = mset ps"
  shows "pieces_of c qs"
proof -
  have set: "set qs = set ps" using assms(2) by (rule mset_eq_setD)
  then have cov: "covers qs i = covers ps i" for i by (simp add: covers_def)
  have t: "total xs = (\<Sum>x \<in># mset xs. length (snd x))" for xs
    unfolding total_def by (metis mset_map sum_mset_sum_list)
  have "qs \<noteq> []" using assms by (auto simp: pieces_of_def)
  then show ?thesis
    using assms(1) unfolding pieces_of_def set cov t [of qs] assms(2) t [of ps, symmetric] by blast
qed

text \<open>After the size is set and all pieces are written, close finds the sizes equal.\<close>

lemma upload_closes:
  assumes inv: "store_inv st" and fid: "ok_id fid"
    and none: "pending st fid = None" "disk st (file_name fid) = None"
    and ps: "pieces_of c ps"
  shows "\<exists>st1 st2 st3. SS_SetPendingFileSize st fid (of_nat (length c)) = Some st1
    \<and> write_all st1 fid ps = Some st2 \<and> SS_ClosePendingFile st2 fid = Some (Closed st3)
    \<and> store_inv st3 \<and> pending st3 = pending st \<and> disk st3 = (disk st)(file_name fid \<mapsto> c)"
proof -
  obtain st1 where s1: "SS_SetPendingFileSize st fid (of_nat (length c)) = Some st1"
    and i1: "store_inv st1"
    and m1: "pending st1 = (pending st)(fid \<mapsto> (entry_of st fid)\<lparr>file_size := of_nat (length c)\<rparr>)"
    and f1: "same_files st st1"
    using SetPendingFileSize_map [OF inv fid] by blast
  have e1: "file_size (entry_of st1 fid) = of_nat (length c)" "dl_size (entry_of st1 fid) = 0"
    using none by (simp_all add: entry_of_def m1 fresh_pfile_def)
  have c1: "contents st1 fid = []" using none f1 by (simp add: contents_def same_files_def)
  have "\<forall>x \<in> set ps. fst x < 2 ^ 64" using piece_offset [OF ps] by blast
  from write_all_map [OF i1 fid this] obtain st2 where s2: "write_all st1 fid ps = Some st2"
    and i2: "store_inv st2"
    and e2: "file_size (entry_of st2 fid) = of_nat (length c)"
      "dl_size (entry_of st2 fid) = of_nat (length c)"
    and m2: "\<forall>k. k \<noteq> fid \<longrightarrow> pending st2 k = pending st k"
    and d2: "disk st2 = (disk st)(file_name fid \<mapsto> splices [] ps)"
    using e1 c1 f1 m1 ps by (auto simp: pieces_of_def same_files_def)
  have "splices [] ps = c" using ps splices_whole by (simp add: pieces_of_def)
  moreover obtain st3 where "SS_ClosePendingFile st2 fid = Some (Closed st3)" "store_inv st3"
    "pending st3 = (pending st2)(fid := None)" "disk st3 = disk st2"
    using ClosePendingFile_map [OF i2 fid] e2 by auto
  moreover from this have "pending st3 = pending st" using m2 none by auto
  ultimately show ?thesis using s1 s2 d2 by auto
qed

text \<open>Before the last piece, it waits.\<close>

lemma upload_waits:
  assumes inv: "store_inv st" and fid: "ok_id fid" and none: "pending st fid = None"
    and ps: "\<forall>x \<in> set ps. fst x < 2 ^ 64" "total ps < n" "n < 2 ^ 64"
  shows "\<exists>st1 st2 p st3. SS_SetPendingFileSize st fid (of_nat n) = Some st1
    \<and> write_all st1 fid ps = Some st2 \<and> SS_ClosePendingFile st2 fid = Some (Waiting p st3)"
proof -
  obtain st1 where s1: "SS_SetPendingFileSize st fid (of_nat n) = Some st1"
    and i1: "store_inv st1"
    and m1: "pending st1 = (pending st)(fid \<mapsto> (entry_of st fid)\<lparr>file_size := of_nat n\<rparr>)"
    using SetPendingFileSize_map [OF inv fid] by blast
  have e1: "file_size (entry_of st1 fid) = of_nat n" "dl_size (entry_of st1 fid) = 0"
    using none by (simp_all add: entry_of_def m1 fresh_pfile_def)
  from write_all_map [OF i1 fid ps(1)] obtain st2 where s2: "write_all st1 fid ps = Some st2"
    and i2: "store_inv st2"
    and e2: "file_size (entry_of st2 fid) = of_nat n" "dl_size (entry_of st2 fid) = of_nat (total ps)"
    using e1 by auto
  have "(of_nat n :: u64) \<noteq> of_nat (total ps)"
    using ps by (simp add: word_of_nat_eq_iff take_bit_nat_eq_self)
  then show ?thesis using ClosePendingFile_map [OF i2 fid] e2 s1 s2 by auto
qed

section \<open>An upload as a stream of packages\<close>

text \<open>Each message lies at the front of a block of its own; \<open>olds\<close> is what the blocks held.\<close>

definition packages :: "cbuf list \<Rightarrow> byte list list \<Rightarrow> byte list" where
  "packages olds ms = concat (map2 package olds ms)"

lemma packages_simps [simp]:
  "packages olds [] = []" "packages (b # olds) (m # ms) = package b m @ packages olds ms"
  by (simp_all add: packages_def)

lemma packages_append:
  "length olds = length ms \<Longrightarrow> packages (olds @ olds') (ms @ ms') = packages olds ms @ packages olds' ms'"
  by (simp add: packages_def)

definition data_msgs :: "file_id \<Rightarrow> (nat \<times> byte list) list \<Rightarrow> byte list list" where
  "data_msgs fid ps = map (\<lambda>x. data_msg fid (of_nat (fst x)) (snd x)) ps"

definition blocks :: "cbuf list \<Rightarrow> bool" where
  "blocks olds \<longleftrightarrow> (\<forall>b \<in> set olds. length b = PACKAGE_SIZE)"

lemma blocks_simps [simp]:
  "blocks []" "blocks (b # olds) \<longleftrightarrow> length b = PACKAGE_SIZE \<and> blocks olds"
  "blocks (as @ bs) \<longleftrightarrow> blocks as \<and> blocks bs"
  by (auto simp: blocks_def)

lemma serve_data_packages:
  assumes "big junk" "ok_id fid" "length olds = length ps" "blocks olds"
    and "\<forall>x \<in> set ps. length (snd x) \<le> 8141"
  shows "serve junk (arrived (packages olds (data_msgs fid ps) @ rest)) st =
    Option.bind (write_all st fid ps) (serve junk (arrived rest))"
  using assms(3-5)
proof (induction olds ps arbitrary: st rule: list_induct2)
  case (Cons b olds x xs)
  then have b: "length b = PACKAGE_SIZE" and x: "length (snd x) \<le> 8141" by simp_all
  show ?case
    using Cons
      serve_data [OF assms(1,2) b x, of "of_nat (fst x)" "packages olds (data_msgs fid xs) @ rest"]
    by (simp add: data_msgs_def split: Option.bind_split option.split)
qed (simp add: data_msgs_def)

definition upload_parts :: "file_id \<Rightarrow> byte list \<Rightarrow> byte list \<Rightarrow> (nat \<times> byte list) list \<Rightarrow>
    byte list list" where
  "upload_parts fid name c ps =
     header_msg fid (of_nat (length c)) name # data_msgs fid ps @ [end_msg fid]"

lemma serve_upload:
  assumes j: "big junk" and olds: "length olds = length ps" "blocks (b1 # olds @ [b2])"
    and inv: "store_inv st" and fid: "ok_id fid"
    and none: "pending st fid = None" "disk st (file_name fid) = None"
    and ps: "pieces_of c ps" "\<forall>x \<in> set ps. length (snd x) \<le> 8141"
    and name: "length name \<le> 8141"
  shows "\<exists>st'. store_inv st' \<and> pending st' = pending st \<and> disk st' = (disk st)(file_name fid \<mapsto> c)
    \<and> serve junk (arrived (packages (b1 # olds @ [b2]) (upload_parts fid name c ps) @ rest)) st
      = serve junk (arrived (drop 8182 b2 @ rest)) st'"
proof -
  obtain st1 st2 st3 where s: "SS_SetPendingFileSize st fid (of_nat (length c)) = Some st1"
    "write_all st1 fid ps = Some st2" "SS_ClosePendingFile st2 fid = Some (Closed st3)"
    and f: "store_inv st3" "pending st3 = pending st" "disk st3 = (disk st)(file_name fid \<mapsto> c)"
    using upload_closes [OF inv fid none ps(1)] by blast
  have h: "length (header_msg fid (of_nat (length c)) name) \<le> PACKAGE_SIZE"
    using fid name by (simp add: header_msg_def PACKAGE_SIZE_def)
  have b: "length b1 = PACKAGE_SIZE" "blocks olds" "length b2 = PACKAGE_SIZE" using olds(2) by simp_all
  have l: "length olds = length (data_msgs fid ps)" using olds(1) by (simp add: data_msgs_def)
  have "serve junk (arrived (packages (b1 # olds @ [b2]) (upload_parts fid name c ps) @ rest)) st
      = serve junk (arrived (drop 8182 b2 @ rest)) st3"
    using s
    by (simp add: upload_parts_def packages_append [OF l] serve_header [OF j fid b(1) h]
        serve_data_packages [OF j fid olds(1) b(2) ps(2)] serve_end [OF j fid b(3)])
  then show ?thesis using f by blast
qed

end
