(* ===== verification/TransferClient.thy ===== *)
theory TransferClient
  imports Upload
begin

text \<open>
  The file sender (\<^verbatim>\<open>transfer_export/src/client/client.cpp\<close>): the header, the data in pieces
  of at most 8141 bytes, and the end message, each one \<^verbatim>\<open>write\<close>. The file, the output of
  \<^verbatim>\<open>sha1sum\<close> and the contents of uninitialised buffers are arguments. Assertions are on in
  the build (\<^verbatim>\<open>CONFIG_TRANSFER_DEBUG=y\<close>).
\<close>

section \<open>Messages\<close>

text \<open>
  \<open>file\<close> is what \<^verbatim>\<open>stat\<close> and \<^verbatim>\<open>fopen\<close> see; \<open>raw\<close> is \<^verbatim>\<open>buf[512]\<close>. The result is the
  return code, the bytes written and \<^verbatim>\<open>*p_id\<close>.
\<close>

definition SendFileHeader :: "cbuf \<Rightarrow> cbuf \<Rightarrow> byte list \<Rightarrow> byte list \<Rightarrow> byte list option \<Rightarrow>
    (int \<times> byte list list \<times> file_id option) checked option" where
  "SendFileHeader raw raw40 sha1sum_out file_path file =
     (if \<not> 1 + 20 + 2 + length file_path + 8 \<le> 512 then Some Aborts
      else
        (case file of
           None \<Rightarrow> Some (Runs (-1, [], None))
         | Some c \<Rightarrow>
             do {
               b1 \<leftarrow> wr_byte raw 0 MSG_NEW_FILE;
               fid \<leftarrow> GenerateFileID sha1sum_out raw40;
               (err, dumped) \<leftarrow> Dump2Net fid (Some (b1, 1)) True;
               (b2, len) \<leftarrow> dumped;
               b3 \<leftarrow> wr_bytes b2 (1 + len) (le64 (htobe64 (of_nat (length c))));
               b4 \<leftarrow> wr_bytes b3 (1 + len + 8) (le16 (htons (of_nat (length file_path))));
               b5 \<leftarrow> wr_bytes b4 (1 + len + 8 + 2) file_path;
               out \<leftarrow> rd_bytes b5 0 (1 + len + 8 + 2 + length file_path);
               Some (Runs (0, [out], Some fid))
             }))"

text \<open>The \<^verbatim>\<open>do\<close> loop of \<open>SendFileData\<close>; \<^verbatim>\<open>feof\<close> holds after a short read.\<close>

function data_loop :: "byte list \<Rightarrow> cbuf \<Rightarrow> nat \<Rightarrow> byte list list option" where
  "data_loop c buf offset =
     (let len = PACKAGE_SIZE - 41 - 10;
          d = take len (drop offset c);
          nread = length d
      in case wr_bytes buf 41 (le64 (htobe64 (of_nat offset))) of
           None \<Rightarrow> None
         | Some b1 \<Rightarrow>
             (case wr_bytes b1 51 d of
                None \<Rightarrow> None
              | Some b2 \<Rightarrow>
                  (case wr_bytes b2 49 (le16 (htons (of_nat nread))) of
                     None \<Rightarrow> None
                   | Some b3 \<Rightarrow>
                       (case rd_bytes b3 0 (41 + 10 + nread) of
                          None \<Rightarrow> None
                        | Some out \<Rightarrow>
                            if nread < len then Some [out]
                            else map_option ((#) out) (data_loop c b3 (offset + nread))))))"
  by pat_completeness auto
termination
  by (relation "measure (\<lambda>(c, buf, offset). length c - offset)")
    (auto simp: PACKAGE_SIZE_def min_def split: if_splits)

declare data_loop.simps [simp del]

definition SendFileData :: "cbuf \<Rightarrow> byte list option \<Rightarrow> file_id \<Rightarrow> (int \<times> byte list list) option" where
  "SendFileData raw file fid =
     (case file of
        None \<Rightarrow> Some (-1, [])
      | Some c \<Rightarrow>
          do {
            b1 \<leftarrow> wr_byte raw 0 MSG_FILE_DATA;
            (err, dumped) \<leftarrow> Dump2Net fid (Some (b1, 1)) True;
            (b2, len) \<leftarrow> dumped;
            outs \<leftarrow> data_loop c b2 0;
            Some (0, outs)
          })"

definition SendFileEnd :: "cbuf \<Rightarrow> file_id \<Rightarrow> (int \<times> byte list list) option" where
  "SendFileEnd raw fid =
     do {
       b1 \<leftarrow> wr_byte raw 0 MSG_FILE_END;
       (err, dumped) \<leftarrow> Dump2Net fid (Some (b1, 1)) True;
       (b2, len) \<leftarrow> dumped;
       b3 \<leftarrow> wr_bytes b2 (1 + len) (zeros 10);
       out \<leftarrow> rd_bytes b3 0 (1 + len + 10);
       Some (0, [out])
     }"

datatype sending = SendReturns int "byte list list" | SendExits int "byte list list" | SendAborts

text \<open>\<open>raw\<close> holds the uninitialised buffers of the three calls and of \<^verbatim>\<open>GenerateFileID\<close>.\<close>

definition SendFile :: "bool \<Rightarrow> cbuf \<times> cbuf \<times> cbuf \<times> cbuf \<Rightarrow> byte list \<Rightarrow> byte list \<Rightarrow>
    byte list option \<Rightarrow> sending option" where
  "SendFile connected raw sha1sum_out file_path file =
     (let (raw1, raw40, raw2, raw3) = raw in
      if \<not> connected then Some (SendReturns (-1) [])
      else
        (case SendFileHeader raw1 raw40 sha1sum_out file_path file of
           None \<Rightarrow> None
         | Some Aborts \<Rightarrow> Some SendAborts
         | Some (Runs (err, w1, fid)) \<Rightarrow>
             if err \<noteq> 0 then Some (SendExits 1 w1)
             else do {
               i \<leftarrow> fid;
               (err2, w2) \<leftarrow> SendFileData raw2 file i;
               if err2 \<noteq> 0 then Some (SendExits 1 (w1 @ w2))
               else do {
                 (err3, w3) \<leftarrow> SendFileEnd raw3 i;
                 if err3 \<noteq> 0 then Some (SendExits 1 (w1 @ w2 @ w3))
                 else Some (SendReturns 0 (w1 @ w2 @ w3))
               }
             }))"

section \<open>What is sent\<close>

text \<open>The pieces of a file from an offset on; the last one is shorter than 8141 bytes.\<close>

function client_pieces :: "byte list \<Rightarrow> nat \<Rightarrow> (nat \<times> byte list) list" where
  "client_pieces c offset =
     (let d = take 8141 (drop offset c) in
      if length d < 8141 then [(offset, d)] else (offset, d) # client_pieces c (offset + 8141))"
  by pat_completeness auto
termination
  by (relation "measure (\<lambda>(c, offset). length c - offset)") (auto simp: min_def split: if_splits)

declare client_pieces.simps [simp del]

lemma client_pieces_induct [case_names step]:
  assumes "\<And>offset. (\<not> length (take 8141 (drop offset c)) < 8141 \<Longrightarrow> P (offset + 8141)) \<Longrightarrow> P offset"
  shows "P offset"
proof (induction "length c - offset" arbitrary: offset rule: less_induct)
  case less
  show ?case
    by (rule assms, rule less) (auto simp: min_def split: if_splits)
qed

lemma client_pieces_size: "x \<in> set (client_pieces c offset) \<Longrightarrow> length (snd x) \<le> 8141"
proof (induction offset rule: client_pieces_induct [of c])
  case (step offset)
  then show ?case
    by (subst (asm) client_pieces.simps) (auto simp: Let_def split: if_splits)
qed

lemma client_pieces_piece:
  "offset \<le> length c \<Longrightarrow> x \<in> set (client_pieces c offset) \<Longrightarrow> piece_of c x"
proof (induction offset rule: client_pieces_induct [of c])
  case (step offset)
  have p: "piece_of c (offset, take 8141 (drop offset c))"
    using step.prems(1) by (simp add: piece_of_def min_def) linarith
  show ?case
  proof (cases "length (take 8141 (drop offset c)) < 8141")
    case True
    then show ?thesis
      using step.prems(2) p
      by (subst (asm) client_pieces.simps) (auto simp: Let_def min_def split: if_splits)
  next
    case False
    then have "offset + 8141 \<le> length c" by (auto simp: min_def split: if_splits)
    then show ?thesis
      using step p False by (subst (asm) (2) client_pieces.simps) (auto simp: Let_def)
  qed
qed

lemma client_pieces_covers:
  "offset \<le> i \<Longrightarrow> i < length c \<Longrightarrow> covers (client_pieces c offset) i"
proof (induction offset rule: client_pieces_induct [of c])
  case (step offset)
  show ?case
  proof (cases "i < offset + 8141")
    case True
    then have "i < offset + length (take 8141 (drop offset c))" using step.prems by simp
    then show ?thesis
      using step.prems by (subst client_pieces.simps) (auto simp: Let_def covers_def)
  next
    case False
    then have "\<not> length (take 8141 (drop offset c)) < 8141" using step.prems by simp
    then show ?thesis
      using step False by (subst client_pieces.simps) (auto simp: Let_def covers_def)
  qed
qed

lemma client_pieces_total: "offset \<le> length c \<Longrightarrow> total (client_pieces c offset) = length c - offset"
proof (induction offset rule: client_pieces_induct [of c])
  case (step offset)
  show ?case
  proof (cases "length (take 8141 (drop offset c)) < 8141")
    case True
    then show ?thesis by (subst client_pieces.simps) (simp add: total_def min_def split: if_splits)
  next
    case False
    then have "offset + 8141 \<le> length c" by (auto simp: min_def split: if_splits)
    then show ?thesis
      using step False by (subst client_pieces.simps) (simp add: Let_def total_def)
  qed
qed

lemma client_pieces_of: "length c < 2 ^ 64 \<Longrightarrow> pieces_of c (client_pieces c 0)"
proof -
  assume "length c < 2 ^ 64"
  moreover have "client_pieces c 0 \<noteq> []" by (subst client_pieces.simps) (simp add: Let_def)
  ultimately show ?thesis
    using client_pieces_piece [of 0 c] client_pieces_covers [of 0 _ c] client_pieces_total [of 0 c]
    by (simp add: pieces_of_def)
qed

section \<open>The writes of the sender\<close>

lemma wr_byte_first: "raw \<noteq> [] \<Longrightarrow> wr_byte raw 0 x = Some (x # tl raw)"
  by (cases raw) (simp_all add: wr_byte_def)

lemma wr_at:
  "i = length a \<Longrightarrow> length x \<le> length b \<Longrightarrow> wr_bytes (a @ b) i x = Some ((a @ x) @ drop (length x) b)"
  by (simp add: wr_bytes_def)

lemma le_be: "le64 (htobe64 w) = be64 w" "le16 (htons v) = be16 v"
  by (simp_all add: le64_htobe64 le16_htons)

text \<open>The type byte and the identity at the front of a buffer.\<close>

lemma Dump2Net_front:
  assumes "ok_id fid" "41 \<le> length raw"
  shows "Dump2Net fid (Some (x # tl raw, 1)) True =
    Some (0, Some ((x # sha1sum fid @ zeros 20) @ drop 41 raw, 40))"
  using Dump2Net_bytes [OF assms(1), of "[x]" 1 "tl raw"] assms(2)
  by (simp add: drop_Suc [symmetric] drop_tl [symmetric] numeral_eq_Suc)

lemma SendFileHeader_bytes:
  assumes fid: "ok_id fid" and raw: "length raw = 512" "length raw40 = 40"
    and name: "length path \<le> 461"
  shows "SendFileHeader raw raw40 (hex (sha1sum fid) @ more_out) path (Some c) =
    Some (Runs (0, [header_msg fid (of_nat (length c)) path], Some fid))"
proof -
  let ?h = "MSG_NEW_FILE # sha1sum fid @ zeros 20"
  have l: "length ?h = 41" using fid by simp
  note w = wr_byte_first [of raw MSG_NEW_FILE] GenerateFileID_hex [OF fid raw(2), of more_out]
    Dump2Net_front [OF fid, of raw MSG_NEW_FILE]
  have w1: "wr_bytes (?h @ drop 41 raw) 41 (be64 (of_nat (length c)))
      = Some ((?h @ be64 (of_nat (length c))) @ drop 8 (drop 41 raw))"
    using wr_at [of 41 ?h "be64 (of_nat (length c))" "drop 41 raw"] l raw by simp
  have w2: "wr_bytes ((?h @ be64 (of_nat (length c))) @ drop 8 (drop 41 raw)) 49
        (be16 (of_nat (length path)))
      = Some ((?h @ be64 (of_nat (length c)) @ be16 (of_nat (length path))) @ drop 2 (drop 49 raw))"
    using wr_at [of 49 "?h @ be64 (of_nat (length c))" "be16 (of_nat (length path))" "drop 49 raw"]
      l raw by simp
  have w3: "wr_bytes ((?h @ be64 (of_nat (length c)) @ be16 (of_nat (length path)))
        @ drop 2 (drop 49 raw)) 51 path
      = Some (header_msg fid (of_nat (length c)) path @ drop (length path) (drop 51 raw))"
    using wr_at [of 51 "?h @ be64 (of_nat (length c)) @ be16 (of_nat (length path))" path "drop 51 raw"]
      l raw name by (simp add: header_msg_def)
  have "length (header_msg fid (of_nat (length c)) path) = 51 + length path"
    using fid by (simp add: header_msg_def)
  then have r: "rd_bytes (header_msg fid (of_nat (length c)) path @ drop (length path) (drop 51 raw))
      0 (51 + length path) = Some (header_msg fid (of_nat (length c)) path)"
    by (intro rd_bytes_app0) simp
  have ne: "raw \<noteq> []" "length path \<le> 481" using raw name by auto
  show ?thesis
    using ne raw w w1 w2 w3 r by (simp add: SendFileHeader_def le_be)
qed

lemma data_loop_bytes:
  assumes h: "length h = 41" and b: "length b = 8151" and h': "h = MSG_FILE_DATA # sha1sum fid @ zeros 20"
  shows "data_loop c (h @ b) offset =
    Some (map (\<lambda>x. data_msg fid (of_nat (fst x)) (snd x)) (client_pieces c offset))"
  using b
proof (induction offset arbitrary: b rule: client_pieces_induct [of c])
  case (step offset)
  define d where "d = take 8141 (drop offset c)"
  have d: "length d \<le> 8141" and ml: "min (length c - offset) 8141 = length d"
    by (simp_all add: d_def)
  let ?o = "be64 (of_nat offset)" and ?n = "be16 (of_nat (length d))"
  have w1: "wr_bytes (h @ b) 41 ?o = Some ((h @ ?o) @ drop 8 b)"
    using wr_at [of 41 h ?o b] h step.prems by simp
  obtain f b2 where f: "drop 8 b = f @ b2" "length f = 2" "length b2 = 8141"
  proof (rule that [of "take 2 (drop 8 b)" "drop 2 (drop 8 b)"])
    show "drop 8 b = take 2 (drop 8 b) @ drop 2 (drop 8 b)" by (rule append_take_drop_id [symmetric])
  qed (use step.prems in simp_all)
  have w2: "wr_bytes ((h @ ?o) @ f @ b2) 51 d = Some ((h @ ?o) @ f @ d @ drop (length d) b2)"
    using wr_at [of 51 "h @ ?o @ f" d b2] h f d by simp
  have w3: "wr_bytes ((h @ ?o) @ f @ d @ drop (length d) b2) 49 ?n
      = Some ((h @ ?o) @ ?n @ d @ drop (length d) b2)"
    using wr_bytes_app [of 49 "h @ ?o" ?n f "d @ drop (length d) b2"] h f by simp
  have r: "rd_bytes ((h @ ?o) @ ?n @ d @ drop (length d) b2) 0 (51 + length d)
      = Some (h @ ?o @ ?n @ d)"
    using rd_bytes_app0 [of "51 + length d" "h @ ?o @ ?n @ d" "drop (length d) b2"] h by simp
  have msg: "h @ ?o @ ?n @ d = data_msg fid (of_nat offset) d" by (simp add: data_msg_def h')
  have once: "data_loop c (h @ b) offset =
      (if length d < 8141 then Some [data_msg fid (of_nat offset) d]
       else map_option ((#) (data_msg fid (of_nat offset) d))
         (data_loop c ((h @ ?o) @ ?n @ d @ drop (length d) b2) (offset + length d)))"
    using w1 w2 w3 r f(1) msg ml
    by (subst data_loop.simps) (simp add: le_be PACKAGE_SIZE_def Let_def d_def [symmetric])
  show ?case
  proof (cases "length d < 8141")
    case True
    then show ?thesis using once by (subst client_pieces.simps) (simp add: d_def [symmetric])
  next
    case False
    then have "length d = 8141" using d by simp
    moreover have "length (?o @ ?n @ d @ drop (length d) b2) = 8151" using f d by simp
    moreover have "\<not> length (take 8141 (drop offset c)) < 8141" using False by (simp add: d_def)
    ultimately show ?thesis
      using once step.IH [of "?o @ ?n @ d @ drop (length d) b2"] False
      by (subst client_pieces.simps) (simp add: d_def [symmetric])
  qed
qed

lemma SendFileData_bytes:
  assumes fid: "ok_id fid" and raw: "length raw = PACKAGE_SIZE"
  shows "SendFileData raw (Some c) fid =
    Some (0, map (\<lambda>x. data_msg fid (of_nat (fst x)) (snd x)) (client_pieces c 0))"
proof -
  have "raw \<noteq> []" "41 \<le> length raw" using raw by (auto simp: PACKAGE_SIZE_def)
  then show ?thesis
    using data_loop_bytes [of "MSG_FILE_DATA # sha1sum fid @ zeros 20" "drop 41 raw" fid c 0]
      wr_byte_first [of raw] Dump2Net_front [OF fid, of raw] raw fid
    by (simp add: SendFileData_def PACKAGE_SIZE_def)
qed

lemma data_msg_lengths:
  assumes "ok_id fid" "offset \<le> length c"
  shows "map length (map (\<lambda>x. data_msg fid (of_nat (fst x)) (snd x)) (client_pieces c offset))
    = replicate ((length c - offset) div 8141) 8192 @ [51 + (length c - offset) mod 8141]"
  using assms(2)
proof (induction offset rule: client_pieces_induct [of c])
  case (step offset)
  have m: "length (data_msg fid x d) = 51 + length d" for x d
    using assms(1) by (simp add: data_msg_def ok_id_def)
  show ?case
  proof (cases "length (take 8141 (drop offset c)) < 8141")
    case True
    then have "length c - offset < 8141" by (simp add: min_def split: if_splits)
    then show ?thesis using True by (subst client_pieces.simps) (simp add: m)
  next
    case False
    then have n: "offset + 8141 \<le> length c" by (auto simp: min_def split: if_splits)
    then have q: "(length c - offset) div 8141 = Suc ((length c - (offset + 8141)) div 8141)"
      "(length c - offset) mod 8141 = (length c - (offset + 8141)) mod 8141"
      by (simp_all add: le_div_geq le_mod_geq)
    have "length (take 8141 (drop offset c)) = 8141" using n by simp
    then show ?thesis
      using step.IH [OF False n] False unfolding q by (subst client_pieces.simps) (simp add: m)
  qed
qed

lemma SendFileEnd_bytes:
  assumes fid: "ok_id fid" and raw: "length raw = 512"
  shows "SendFileEnd raw fid = Some (0, [end_msg fid])"
proof -
  let ?h = "MSG_FILE_END # sha1sum fid @ zeros 20"
  have ne: "raw \<noteq> []" "41 \<le> length raw" using raw by auto
  have w: "wr_bytes (?h @ drop 41 raw) 41 (zeros 10) = Some ((?h @ zeros 10) @ drop 51 raw)"
    using wr_at [of 41 ?h "zeros 10" "drop 41 raw"] fid raw by simp
  have r: "rd_bytes ((?h @ zeros 10) @ drop 51 raw) 0 51 = Some (end_msg fid)"
    using rd_bytes_app0 [of 51 "?h @ zeros 10" "drop 51 raw"] fid by (simp add: end_msg_def)
  show ?thesis
    using w r wr_byte_first [OF ne(1)] Dump2Net_front [OF fid ne(2)]
    by (simp add: SendFileEnd_def)
qed

definition upload_msgs :: "file_id \<Rightarrow> byte list \<Rightarrow> byte list \<Rightarrow> byte list list" where
  "upload_msgs fid path c =
     header_msg fid (of_nat (length c)) path
     # map (\<lambda>x. data_msg fid (of_nat (fst x)) (snd x)) (client_pieces c 0) @ [end_msg fid]"

lemma SendFile_msgs:
  assumes "ok_id fid" "length path \<le> 461"
    and "length raw1 = 512" "length raw40 = 40" "length raw2 = PACKAGE_SIZE" "length raw3 = 512"
  shows "SendFile True (raw1, raw40, raw2, raw3) (hex (sha1sum fid) @ more_out) path (Some c) =
    Some (SendReturns 0 (upload_msgs fid path c))"
  using assms
  by (simp add: SendFile_def SendFileHeader_bytes SendFileData_bytes SendFileEnd_bytes
      upload_msgs_def)

end
