(* ===== verification/TransferProps.thy ===== *)
theory TransferProps
  imports TransferClient
begin

text \<open>
  Properties of the file transfer: the hash lists and the table of pending files, file names,
  the upload of a file from the client to the disk of the storage server, and the inputs and
  schedules that break it.
\<close>

section \<open>Sample values\<close>

lemma nodes_init_loop [simp]: "nodes (init_loop k m) = nodes m"
  by (induction k) (simp_all add: INIT_HLIST_HEAD_def set_first_def)

lemma init_loop_lists: "i < k \<Longrightarrow> hlist (init_loop k m) i []"
  by (induction k) (auto simp: INIT_HLIST_HEAD_def set_first_def hlist_def less_Suc_eq)

lemma InitHashTable_inv:
  assumes "objs st = Map.empty" "nodes (mem st) = Map.empty" "fds st = Map.empty"
    and "0 < brk st" "0 \<le> next_fd st"
  shows "store_inv (InitHashTable st) \<and> pending (InitHashTable st) = Map.empty"
proof -
  have B: "buckets_ok (InitHashTable st) (\<lambda>i. [])"
    using assms init_loop_lists [of _ 256 "mem st"]
    by (auto simp: buckets_ok_def InitHashTable_def ids_unique_def)
  have "pending (InitHashTable st) = Map.empty"
    using assms by (intro pending_eqI [OF B]) (auto simp: InitHashTable_def)
  moreover have "table_inv (InitHashTable st)" using B by (auto simp: table_inv_def)
  ultimately show ?thesis using assms by (auto simp: store_inv_def InitHashTable_def)
qed

definition sample_store :: store where
  "sample_store = InitHashTable
     \<lparr>mem = \<lparr>heads = (\<lambda>h. 0), nodes = Map.empty\<rparr>, objs = Map.empty, brk = 1,
      disk = Map.empty, fds = Map.empty, next_fd = 3\<rparr>"

definition sample_id :: file_id where
  "sample_id = \<lparr>sha1sum = replicate 20 0xab\<rparr>"

lemma sample_store: "store_inv sample_store" "pending sample_store = Map.empty"
  "disk sample_store = Map.empty"
  using InitHashTable_inv [of "\<lparr>mem = \<lparr>heads = (\<lambda>h. 0), nodes = Map.empty\<rparr>, objs = Map.empty,
      brk = 1, disk = Map.empty, fds = Map.empty, next_fd = 3\<rparr>"]
  by (simp_all add: sample_store_def) (simp add: InitHashTable_def)

lemma ok_sample_id [simp]: "ok_id sample_id"
  by (simp add: ok_id_def sample_id_def)

definition zero_raw :: "cbuf \<times> cbuf \<times> cbuf \<times> cbuf" where
  "zero_raw = (zeros 512, zeros 40, zeros PACKAGE_SIZE, zeros 512)"

section \<open>Uploads\<close>

lemma upload_msgs_parts: "upload_msgs fid path c = upload_parts fid path c (client_pieces c 0)"
  by (simp add: upload_msgs_def upload_parts_def data_msgs_def)

lemma blocks_of_upload:
  assumes "length olds = length (upload_parts fid path c ps)"
  obtains b1 bs b2 where "olds = b1 # bs @ [b2]" "length bs = length ps"
proof -
  have "length olds = Suc (Suc (length ps))" using assms by (simp add: upload_parts_def data_msgs_def)
  then obtain b1 os where o: "olds = b1 # os" "length os = Suc (length ps)" by (cases olds) auto
  then have "os = butlast os @ [last os]" by (cases os) auto
  then show thesis using that [of b1 "butlast os" "last os"] o by auto
qed

lemma upload_stores:
  assumes "ok_id fid" "length path \<le> 461" "length c < 2 ^ 64"
    and "store_inv st" "pending st fid = None" "disk st (file_name fid) = None" "big junk"
    and "length raw1 = 512" "length raw40 = 40" "length raw2 = PACKAGE_SIZE" "length raw3 = 512"
    and "length olds = length (upload_msgs fid path c)" "blocks olds"
  shows "\<exists>msgs st'.
      SendFile True (raw1, raw40, raw2, raw3) (hex (sha1sum fid) @ rest_out) path (Some c)
        = Some (SendReturns 0 msgs) \<and> msgs = upload_msgs fid path c
    \<and> serve junk (arrived (packages olds msgs @ rest)) st
        = serve junk (arrived (drop 8182 (last olds) @ rest)) st'
    \<and> disk st' = (disk st)(file_name fid \<mapsto> c) \<and> pending st' = pending st \<and> store_inv st'"
proof -
  have p: "pieces_of c (client_pieces c 0)" "\<forall>x \<in> set (client_pieces c 0). length (snd x) \<le> 8141"
    using client_pieces_of [OF assms(3)] client_pieces_size by blast+
  obtain b1 bs b2 where o: "olds = b1 # bs @ [b2]" "length bs = length (client_pieces c 0)"
    using blocks_of_upload assms(12) unfolding upload_msgs_parts by metis
  have "length path \<le> 8141" using assms(2) by simp
  from serve_upload [OF assms(7) o(2) _ assms(4,1,5,6) p this, of b1 b2 rest] assms(13)
  obtain st' where
    "store_inv st'" "pending st' = pending st" "disk st' = (disk st)(file_name fid \<mapsto> c)"
    "serve junk (arrived (packages olds (upload_msgs fid path c) @ rest)) st
      = serve junk (arrived (drop 8182 b2 @ rest)) st'"
    unfolding o(1) upload_msgs_parts by blast
  then show ?thesis
    using SendFile_msgs [OF assms(1,2,8-11), of rest_out c] o(1) by auto
qed

text \<open>C4: End to end: the messages \<open>SendFile\<close> writes for a readable file, each in a block of
  8192 bytes, make the storage server store exactly that file under the name of its identity and
  forget the pending entry; it is left ten bytes short of the end of the last block.\<close>

theorem upload_stored:
  assumes "ok_id fid" "length path \<le> 461" "length c < 2 ^ 64"
    and "store_inv st" "pending st fid = None" "disk st (file_name fid) = None" "big junk"
    and "length raw1 = 512" "length raw40 = 40" "length raw2 = PACKAGE_SIZE" "length raw3 = 512"
    and "length olds = length (upload_msgs fid path c)" "blocks olds"
  shows "\<exists>msgs st'.
      SendFile True (raw1, raw40, raw2, raw3) (hex (sha1sum fid) @ rest_out) path (Some c)
        = Some (SendReturns 0 msgs) \<and> msgs = upload_msgs fid path c
    \<and> serve junk (arrived (packages olds msgs @ rest)) st
        = serve junk (arrived (drop 8182 (last olds) @ rest)) st'
    \<and> disk st' = (disk st)(file_name fid \<mapsto> c) \<and> pending st' = pending st \<and> store_inv st'"
  by (rule upload_stores [OF assms])

lemma sample_msgs: "length (upload_msgs sample_id [0x66] [1, 2, 3]) = 3"
  by (simp add: upload_msgs_def) (subst client_pieces.simps, simp)

theorem upload_stored_witness:
  "\<exists>msgs st'.
      SendFile True (zeros 512, zeros 40, zeros PACKAGE_SIZE, zeros 512)
        (hex (sha1sum sample_id) @ []) [0x66] (Some [1, 2, 3]) = Some (SendReturns 0 msgs)
    \<and> msgs = upload_msgs sample_id [0x66] [1, 2, 3]
    \<and> serve (\<lambda>_. zeros PACKAGE_SIZE) (arrived (packages (replicate 3 (zeros PACKAGE_SIZE)) msgs @ []))
          sample_store
        = serve (\<lambda>_. zeros PACKAGE_SIZE)
            (arrived (drop 8182 (last (replicate 3 (zeros PACKAGE_SIZE))) @ [])) st'
    \<and> disk st' = (disk sample_store)(file_name sample_id \<mapsto> [1, 2, 3])
    \<and> pending st' = pending sample_store \<and> store_inv st'"
  by (rule upload_stored) (simp_all add: sample_store big_def sample_msgs blocks_def)

text \<open>C30: The send loop ends: a file of n bytes takes \<open>n div 8141 + 1\<close> messages, all of them full blocks
  of 8192 bytes but the last, which carries the remaining bytes and is sent even when there are
  none.\<close>

theorem send_terminates:
  assumes "ok_id fid" "length raw = PACKAGE_SIZE"
  shows "\<exists>msgs. SendFileData raw (Some c) fid = Some (0, msgs) \<and> length msgs = length c div 8141 + 1
    \<and> (\<forall>m \<in> set (butlast msgs). length m = PACKAGE_SIZE) \<and> length (last msgs) = 51 + length c mod 8141"
proof -
  let ?ms = "map (\<lambda>x. data_msg fid (of_nat (fst x)) (snd x)) (client_pieces c 0)"
  have l: "map length ?ms = replicate (length c div 8141) 8192 @ [51 + length c mod 8141]"
    using data_msg_lengths [OF assms(1), of 0 c] by simp
  have "length ?ms = length (map length ?ms)" by (simp only: length_map)
  then have n: "length ?ms = length c div 8141 + 1" unfolding l by (simp only: length_append length_replicate) simp
  have "map length (butlast ?ms) = butlast (map length ?ms)" by (rule map_butlast)
  then have "map length (butlast ?ms) = replicate (length c div 8141) 8192" unfolding l by (simp only: butlast_snoc)
  then have "set (map length (butlast ?ms)) \<subseteq> {8192}" by (simp only: set_replicate_conv_if) simp
  then have b: "\<forall>m \<in> set (butlast ?ms). length m = PACKAGE_SIZE"
    unfolding PACKAGE_SIZE_def set_map by blast
  have "?ms \<noteq> []" using n by (metis add_gr_0 length_greater_0_conv zero_less_one)
  then have "length (last ?ms) = last (map length ?ms)" by (rule last_map [symmetric])
  then have "length (last ?ms) = 51 + length c mod 8141" unfolding l by (simp only: last_snoc)
  then show ?thesis using SendFileData_bytes [OF assms, of c] n b by blast
qed

theorem send_terminates_witness:
  "\<exists>msgs. SendFileData (zeros PACKAGE_SIZE) (Some [1, 2, 3]) sample_id = Some (0, msgs)
    \<and> length msgs = length [1 :: byte, 2, 3] div 8141 + 1
    \<and> (\<forall>m \<in> set (butlast msgs). length m = PACKAGE_SIZE)
    \<and> length (last msgs) = 51 + length [1 :: byte, 2, 3] mod 8141"
  by (rule send_terminates) (simp_all add: sample_store)

text \<open>After the end message of an upload the thread never handles another message: the end of
  its block (bytes 8182 on, which no client writes in a fresh block) is taken for a message type,
  and the thread spins, whatever follows on the connection: no number of turns of the
  resynchronisation ends it.\<close>

theorem end_message_desync:
  assumes "ok_id fid" "big junk" "length old = PACKAGE_SIZE"
    and "old ! 8182 \<notin> {MSG_NEW_FILE, MSG_FILE_DATA, MSG_FILE_END}"
    and "SS_ClosePendingFile st fid = Some (Closed st')"
  shows "serve junk (arrived (package old (end_msg fid) @ rest)) st = Some (Spins st')
    \<and> resync turns (arrived (drop 8183 old @ rest)) (old ! 8182) = None"
proof -
  have "drop 8182 old = old ! 8182 # drop 8183 old"
    using assms(3) Cons_nth_drop_Suc [of 8182 old] by (simp add: PACKAGE_SIZE_def)
  then show ?thesis
    using serve_end [OF assms(2,1,3), of rest st] assms(4,5)
      serve_unknown [of "old ! 8182" junk "drop 8183 old @ rest" st'] resync_never by simp
qed

theorem end_message_desync_witness:
  "\<exists>st1 st2 st'. SS_SetPendingFileSize sample_store sample_id (of_nat (length [1 :: byte])) = Some st1
    \<and> write_all st1 sample_id [(0, [1])] = Some st2
    \<and> serve (\<lambda>_. zeros PACKAGE_SIZE) (arrived (package (zeros PACKAGE_SIZE) (end_msg sample_id) @ [0x4e])) st2
      = Some (Spins st')
    \<and> resync 3 (arrived (drop 8183 (zeros PACKAGE_SIZE) @ [0x4e])) (zeros PACKAGE_SIZE ! 8182) = None"
proof -
  have "pieces_of [1] [(0, [1])]"
    by (auto simp: pieces_of_def piece_of_def covers_def total_def)
  from upload_closes [OF sample_store(1) ok_sample_id _ _ this] obtain st1 st2 st'
    where s: "SS_SetPendingFileSize sample_store sample_id (of_nat (length [1 :: byte])) = Some st1"
    "write_all st1 sample_id [(0, [1])] = Some st2" "SS_ClosePendingFile st2 sample_id = Some (Closed st')"
    unfolding sample_store by blast
  have "serve (\<lambda>_. zeros PACKAGE_SIZE) (arrived (package (zeros PACKAGE_SIZE) (end_msg sample_id) @ [0x4e])) st2
      = Some (Spins st')
    \<and> resync 3 (arrived (drop 8183 (zeros PACKAGE_SIZE) @ [0x4e])) (zeros PACKAGE_SIZE ! 8182) = None"
    by (rule end_message_desync)
      (simp_all add: s big_def PACKAGE_SIZE_def zeros_def MSG_NEW_FILE_def MSG_FILE_DATA_def MSG_FILE_END_def)
  then show ?thesis using s by blast
qed

text \<open>C18: The pieces the client cuts a file into give the file in whatever order they are written
  (two reader processes forward them): when all are there, close stores the file.\<close>

theorem pieces_any_order:
  assumes "store_inv st" "ok_id fid" "pending st fid = None" "disk st (file_name fid) = None"
    and "length c < 2 ^ 64" "mset ps = mset (client_pieces c 0)"
  shows "\<exists>st1 st2 st3. SS_SetPendingFileSize st fid (of_nat (length c)) = Some st1
    \<and> write_all st1 fid ps = Some st2 \<and> SS_ClosePendingFile st2 fid = Some (Closed st3)
    \<and> disk st3 = (disk st)(file_name fid \<mapsto> c) \<and> pending st3 = pending st"
  using upload_closes [OF assms(1-4) pieces_of_perm [OF client_pieces_of [OF assms(5)] assms(6)]]
  by blast

theorem pieces_any_order_witness:
  "\<exists>st1 st2 st3. SS_SetPendingFileSize sample_store sample_id (of_nat (length (zeros 8142))) = Some st1
    \<and> write_all st1 sample_id (rev (client_pieces (zeros 8142) 0)) = Some st2
    \<and> SS_ClosePendingFile st2 sample_id = Some (Closed st3)
    \<and> disk st3 = (disk sample_store)(file_name sample_id \<mapsto> zeros 8142)
    \<and> pending st3 = pending sample_store"
  by (rule pieces_any_order) (simp_all add: sample_store)

text \<open>While bytes are missing, a close does not return: its thread waits, holding the pointer
  to the pending file.\<close>

theorem close_waits_for_data:
  assumes "store_inv st" "ok_id fid" "pending st fid = None"
    and "\<forall>x \<in> set ps. fst x < 2 ^ 64" "total ps < n" "n < 2 ^ 64"
  shows "\<exists>st1 st2 p st3. SS_SetPendingFileSize st fid (of_nat n) = Some st1
    \<and> write_all st1 fid ps = Some st2 \<and> SS_ClosePendingFile st2 fid = Some (Waiting p st3)"
  by (rule upload_waits [OF assms])

theorem close_waits_for_data_witness:
  "\<exists>st1 st2 p st3. SS_SetPendingFileSize sample_store sample_id (of_nat 2) = Some st1
    \<and> write_all st1 sample_id [(0, [1])] = Some st2
    \<and> SS_ClosePendingFile st2 sample_id = Some (Waiting p st3)"
  by (rule close_waits_for_data) (simp_all add: sample_store total_def)

section \<open>The pending-file table\<close>

text \<open>C13: \<open>GetPendingFile\<close> on hash lists, nodes and objects is lookup-or-insert on the map of
  pending files: it returns a live object with the identity, a fresh one exactly when there was
  none, and changes no other entry.\<close>

theorem get_refines_map:
  assumes "table_inv st" "ok_id fid"
  shows "\<exists>p st'. GetPendingFile st fid = Some (p, st') \<and> table_inv st'
    \<and> objs st' p = Some (entry_of st fid) \<and> pending st' = (pending st)(fid \<mapsto> entry_of st fid)"
  using pending_files.get_entry' [OF assms] by (metis entry_of_eq)

theorem get_refines_map_witness:
  "\<exists>p st'. GetPendingFile sample_store sample_id = Some (p, st') \<and> table_inv st'
    \<and> objs st' p = Some (entry_of sample_store sample_id)
    \<and> pending st' = (pending sample_store)(sample_id \<mapsto> entry_of sample_store sample_id)"
  by (rule get_refines_map) (simp_all add: sample_store store_invD)



text \<open>\<open>hlist_del\<close> on a node anywhere in a list unlinks exactly that node: the head's list
  is the old one without it, and memory outside of the list is untouched.\<close>

theorem hlist_del_removes:
  assumes "hlist m h (xs @ y # ys)"
  shows "\<exists>m'. hlist_del m y = Some m' \<and> hlist m' h (xs @ ys)
    \<and> (\<forall>h' zs. h' \<noteq> h \<longrightarrow> hlist m h' zs \<longrightarrow> set zs \<inter> set (xs @ y # ys) = {} \<longrightarrow> hlist m' h' zs)"
  using hlist_del_list [OF assms] keeps_hlist by (metis singletonD)

definition sample_hmem :: hmem where
  "sample_hmem = \<lparr>heads = (\<lambda>h. 0)(0 := 8),
     nodes = [8 \<mapsto> \<lparr>hnext = 16, pprev = First 0\<rparr>, 16 \<mapsto> \<lparr>hnext = 0, pprev = NextOf 8\<rparr>]\<rparr>"

theorem hlist_del_removes_witness:
  "\<exists>m'. hlist_del sample_hmem 16 = Some m' \<and> hlist m' 0 ([8] @ [])
    \<and> (\<forall>h' zs. h' \<noteq> 0 \<longrightarrow> hlist sample_hmem h' zs \<longrightarrow> set zs \<inter> set ([8] @ 16 # []) = {}
        \<longrightarrow> hlist m' h' zs)"
  by (rule hlist_del_removes) (simp add: sample_hmem_def hlist_def)

section \<open>File names\<close>

text \<open>C31: The 40 digits printed by \<^verbatim>\<open>sha1sum\<close> come back as the name of the stored file: the
  client parses them into an identity, the server prints the identity.\<close>

theorem file_name_roundtrip:
  assumes "ok_id fid" "length raw40 = 40" "length raw41 = 41"
  shows "Option.bind (GenerateFileID (hex (sha1sum fid) @ rest_out) raw40)
      (\<lambda>i. Option.bind (GenFileName i raw41) (\<lambda>b. c_str b 0)) = Some (hex (sha1sum fid))"
  using GenerateFileID_hex [OF assms(1,2)] GenFileName_hex [OF assms(1,3)]
    c_str_app0 [OF hex_no_nul, of "sha1sum fid" "[]"] by simp

theorem file_name_roundtrip_witness:
  "Option.bind (GenerateFileID (hex (sha1sum sample_id) @ []) (zeros 40))
      (\<lambda>i. Option.bind (GenFileName i (zeros 41)) (\<lambda>b. c_str b 0)) = Some (hex (sha1sum sample_id))"
  by (rule file_name_roundtrip) simp_all

section \<open>Bounds\<close>

text \<open>The assertion on the length field of a data message is too weak: from 8192 on it aborts
  the server, but for 8142 to 8191 it passes and the skip that follows is a read of negative
  size into an 8192-byte buffer; up to 8141 bytes the message is written.\<close>

theorem data_length_unsafe:
  assumes "length sha = 20" "length pad = 20"
  shows "(8192 \<le> unat l \<longrightarrow> SS_GetFileData junk (arrived (sha @ pad @ be64 off @ be16 l @ body)) st
        = Some Aborts)
    \<and> (8141 < unat l \<and> unat l < 8192 \<longrightarrow>
        SS_GetFileData junk (arrived (sha @ pad @ be64 off @ be16 l @ body)) st = None)"
proof -
  have r: "sock_read (arrived (sha @ pad @ be64 off @ be16 l @ body)) 20
      = (sha, arrived (pad @ be64 off @ be16 l @ body))"
    "sock_read (arrived (pad @ be64 off @ be16 l @ body)) 20 = (pad, arrived (be64 off @ be16 l @ body))"
    "sock_read (arrived (be64 off @ be16 l @ body)) 8 = (be64 off, arrived (be16 l @ body))"
    "sock_read (arrived (be16 l @ body)) 2 = (be16 l, arrived body)"
    using assms by (simp_all add: sock_read_arrived)
  show ?thesis
    by (simp add: SS_GetFileData_def r fill_whole PACKAGE_SIZE_def split: prod.split Option.bind_split)
qed

theorem data_length_unsafe_witness:
  "SS_GetFileData (zeros 8192) (arrived (zeros 20 @ zeros 20 @ be64 0 @ be16 8150 @ [])) sample_store = None"
proof -
  have "(8192 \<le> unat (8150 :: u16) \<longrightarrow> SS_GetFileData (zeros 8192)
        (arrived (zeros 20 @ zeros 20 @ be64 0 @ be16 8150 @ [])) sample_store = Some Aborts)
    \<and> (8141 < unat (8150 :: u16) \<and> unat (8150 :: u16) < 8192 \<longrightarrow> SS_GetFileData (zeros 8192)
        (arrived (zeros 20 @ zeros 20 @ be64 0 @ be16 8150 @ [])) sample_store = None)"
    by (rule data_length_unsafe) simp_all
  then show ?thesis by simp
qed

text \<open>The assertion on the path length counts the identity as 20 bytes but 40 are written: a
  path of 462 to 481 bytes passes it and overflows the header buffer.\<close>

theorem header_path_bounds:
  assumes "ok_id fid" "length raw = 512" "length raw40 = 40"
  shows "(SendFileHeader raw raw40 (hex (sha1sum fid) @ rest_out) path (Some c) = None
      \<longleftrightarrow> 462 \<le> length path \<and> length path \<le> 481)
    \<and> (SendFileHeader raw raw40 (hex (sha1sum fid) @ rest_out) path (Some c) = Some Aborts
      \<longleftrightarrow> 482 \<le> length path)"
proof -
  let ?r = "SendFileHeader raw raw40 (hex (sha1sum fid) @ rest_out) path (Some c)"
  have raw: "raw \<noteq> []" "41 \<le> length raw" using assms(2) by auto
  consider "length path \<le> 461" | "462 \<le> length path" "length path \<le> 481" | "482 \<le> length path"
    by linarith
  then show ?thesis
  proof cases
    case 1
    then show ?thesis using SendFileHeader_bytes [OF assms 1, of rest_out c] by simp
  next
    case 2
    have none: "do { b3 \<leftarrow> wr_bytes b 41 x; b4 \<leftarrow> wr_bytes b3 49 y; b5 \<leftarrow> wr_bytes b4 51 path; f b5 } = None"
      if b: "length b = 512" for b x y and f :: "cbuf \<Rightarrow> 'r option"
    proof (cases "wr_bytes b 41 x")
      case (Some b3)
      then have "length b3 = 512" using wr_bytes_length b by simp
      then have "wr_bytes b4 51 path = None" if "wr_bytes b3 49 y = Some b4" for b4
        using wr_bytes_length [OF that] 2 by (simp add: wr_bytes_None)
      then show ?thesis using Some by (cases "wr_bytes b3 49 y") auto
    qed simp
    have "length ((MSG_NEW_FILE # sha1sum fid @ zeros 20) @ drop 41 raw) = 512" using assms by simp
    from none [OF this] have "?r = None"
      using 2 wr_byte_first [OF raw(1)] Dump2Net_front [OF assms(1) raw(2)] assms
      by (simp add: SendFileHeader_def GenerateFileID_hex)
    then show ?thesis using 2 by simp
  next
    case 3
    then show ?thesis by (simp add: SendFileHeader_def)
  qed
qed

theorem header_path_bounds_witness:
  "SendFileHeader (zeros 512) (zeros 40) (hex (sha1sum sample_id) @ []) (replicate 470 0x61) (Some []) = None"
  using header_path_bounds [of sample_id "zeros 512" "zeros 40" "[]" "replicate 470 0x61" "[]"]
  by simp

section \<open>Schedules\<close>

text \<open>The unlocked seek and write of two threads on one file interfere: after seek, seek,
  write, write the first thread's bytes are at the second's offset and the second's bytes behind
  them (the comment says that no lock is needed).\<close>

theorem seek_write_race:
  assumes "objs st p = Some ob" "fds st (opened_fd ob) = Some (name, pos)" "disk st name = Some b"
  shows "\<exists>st'. do { s1 \<leftarrow> wd_lseek st p o1; s2 \<leftarrow> wd_lseek s1 p o2; s3 \<leftarrow> wd_write s2 p d1;
        wd_write s3 p d2 } = Some st'
    \<and> disk st' name = Some (splice (splice b (unat o2) d1) (unat o2 + length d1) d2)"
  using assms by (simp add: wd_lseek_def wd_write_def do_lseek_def do_write_def)

definition race_store :: store where
  "race_store = \<lparr>mem = \<lparr>heads = (\<lambda>h. 0), nodes = Map.empty\<rparr>,
     objs = [8 \<mapsto> (fresh_pfile sample_id)\<lparr>opened_fd := 3\<rparr>], brk = 9,
     disk = [[0x66] \<mapsto> []], fds = [3 \<mapsto> ([0x66], 0)], next_fd = 4\<rparr>"

theorem seek_write_race_witness:
  "\<exists>st'. do { s1 \<leftarrow> wd_lseek race_store 8 0; s2 \<leftarrow> wd_lseek s1 8 1; s3 \<leftarrow> wd_write s2 8 [0xaa];
        wd_write s3 8 [0xbb] } = Some st' \<and> disk st' [0x66] = Some [0, 0xaa, 0xbb]"
  using seek_write_race [of race_store 8 "(fresh_pfile sample_id)\<lparr>opened_fd := 3\<rparr>" "[0x66]" 0 "[]"
      0 1 "[0xaa]" "[0xbb]"]
  by (simp add: race_store_def splice_def zeros_def)

text \<open>C39: A thread that has looked a pending file up, and is overtaken by the close of that file
  before it takes the lock, uses a deleted object.\<close>

theorem close_use_after_free:
  assumes "store_inv st" "ok_id fid" "GetPendingFile st fid = Some (p, st1)"
    and "SS_ClosePendingFile st1 fid = Some (Closed st2)"
  shows "objs st1 p \<noteq> None \<and> wd_open st2 fid p = None"
proof -
  obtain q s where g: "GetPendingFile st fid = Some (q, s)" "table_inv s"
    "objs s q = Some (entry_of st fid)"
    using pending_files.get_entry' [OF store_invD(1) [OF assms(1)] assms(2)] by (metis entry_of_eq)
  then have t1: "table_inv st1" and e1: "objs st1 p = Some (entry_of st fid)"
    using assms(3) by simp_all
  have id: "pf_id (entry_of st fid) = fid"
    using pending_files.key_entry [OF store_invD(1) [OF assms(1)]] by (simp add: entry_of_eq)
  obtain B where B: "buckets_ok st1 B" using t1 by (auto simp: table_inv_def)
  have "FindPendingFileByHash st1 fid = Some p \<and> p \<noteq> 0"
    using B assms(2)
  proof (cases rule: Find_cases)
    case (1 r ob)
    have "r = p" by (rule ids_uniqueD [OF buckets_okD(3) [OF B] 1(1) e1]) (simp add: 1 id)
    then show ?thesis using 1 by simp
  next
    case 2
    then show ?thesis using e1 id by blast
  qed
  then have "GetPendingFile st1 fid = Some (p, st1)" using Get_found by blast
  then have "close_wait st1 p = Some (Closed st2)"
    using assms(4) by (simp add: SS_ClosePendingFile_def)
  then have "objs st2 p = None"
    by (auto simp: close_wait_def delete_PendingFile_def split: Option.bind_splits if_splits)
  then show ?thesis using e1 by (simp add: wd_open_def)
qed

theorem close_use_after_free_witness:
  "\<exists>st1 st2 p st3 st4. SS_SetPendingFileSize sample_store sample_id 0 = Some st1
    \<and> GetPendingFile st1 sample_id = Some (p, st2)
    \<and> SS_ClosePendingFile st2 sample_id = Some (Closed st3)
    \<and> objs st2 p \<noteq> None \<and> wd_open st3 sample_id p = None"
proof -
  obtain st1 where s1: "SS_SetPendingFileSize sample_store sample_id 0 = Some st1" "store_inv st1"
    and m1: "pending st1 = (pending sample_store)(sample_id \<mapsto> (entry_of sample_store sample_id)\<lparr>file_size := 0\<rparr>)"
    using SetPendingFileSize_map [OF sample_store(1) ok_sample_id] by blast
  have e1: "file_size (entry_of st1 sample_id) = dl_size (entry_of st1 sample_id)"
    by (simp add: entry_of_def m1 sample_store fresh_pfile_def)
  obtain p st2 where g: "GetPendingFile st1 sample_id = Some (p, st2)" and t2: "table_inv st2"
    and m2: "pending st2 = (pending st1)(sample_id \<mapsto> entry_of st1 sample_id)"
    using pending_files.get_entry' [OF store_invD(1) [OF s1(2)] ok_sample_id] by (metis entry_of_eq)
  have "store_inv st2"
    using t2 m2 store_invD [OF s1(2)] fd_ok_entry [OF s1(2)] Get_files [OF g]
      fd_ok_same [OF Get_files [OF g]]
    by (auto simp: store_inv_def same_files_def)
  moreover have "entry_of st2 sample_id = entry_of st1 sample_id" by (simp add: entry_of_def m2)
  ultimately obtain st3 where c: "SS_ClosePendingFile st2 sample_id = Some (Closed st3)"
    using ClosePendingFile_map [of st2 sample_id] e1 by auto
  from close_use_after_free [OF s1(2) ok_sample_id g c] s1 g c show ?thesis by blast
qed

end
