(* ===== verification/ShmProps.thy ===== *)
theory ShmProps
  imports DataRecv
begin

text \<open>
  Properties of the shared blocks: a block keeps what was written, a segment created by one
  process is found by the others, messages go through the ring of ten blocks and the two pipes
  in order, the semaphores exclude each other until a process that attaches resets them, and
  the calls that leave the segment.
\<close>

section \<open>Sample values\<close>

definition sample_ctl :: shm_ctl where
  "sample_ctl = \<lparr>shmkey = 7, shmid = 5, shmaddr = Some 5\<rparr>"

definition sample_sems :: sem_table where
  "sample_sems = \<lparr>sem_conf = sem_table_conf, blockSize = 10, semid = 3, semkey = 9\<rparr>"

definition sample_kernel :: kernel where
  "sample_kernel = \<lparr>segs = [5 \<mapsto> zeros 81920], shm_keys = Map.empty, next_shm = 6, shm_max = 100000,
     sem_sets = [3 \<mapsto> replicate 10 1], sem_keys = Map.empty, next_sem = 4,
     conf_files = [shmid_conf \<mapsto> conf_line (ascii ''shmid'') 5 @ conf_line (ascii ''shmkey'') 7,
       sem_table_conf \<mapsto> conf_line (ascii ''semid'') 3 @ conf_line (ascii ''semkey'') 9],
     conf_writable = True\<rparr>"

definition sample_recv :: data_recv where
  "sample_recv = \<lparr>dr_index = 0, dr_id = 0, w_shmctl = sample_ctl, w_semtable = sample_sems\<rparr>"

lemma sample_attached: "attached sample_kernel sample_ctl"
  by (simp add: attached_def sample_kernel_def sample_ctl_def)

lemma sample_ready: "ready sample_kernel sample_recv"
  using sample_attached
  by (simp add: ready_def sample_recv_def HasShm_def locks_free_def)
    (simp add: sample_ctl_def sample_kernel_def sample_sems_def)

lemma sample_ids:
  "ReadShmid sample_kernel c = (True, c\<lparr>shmid := 5, shmkey := 7\<rparr>)"
  "sem_ReadInit sample_kernel (sem_Init sem_table_conf 10) = (True, sample_sems)"
proof -
  have r: "int_range 5" "int_range 7" "int_range 3" "int_range 9" by (simp_all add: int_range_def)
  have f: "conf_files sample_kernel shmid_conf
      = Some (conf_line (ascii ''shmid'') 5 @ conf_line (ascii ''shmkey'') 7)"
    "conf_files sample_kernel sem_table_conf
      = Some (conf_line (ascii ''semid'') 3 @ conf_line (ascii ''semkey'') 9)"
    by (simp_all add: sample_kernel_def shmid_conf_def sem_table_conf_def ascii_def)
  show "ReadShmid sample_kernel c = (True, c\<lparr>shmid := 5, shmkey := 7\<rparr>)"
    by (simp add: ReadShmid_def f kv_pairs_conf r set_pair_def Let_def)
  show "sem_ReadInit sample_kernel (sem_Init sem_table_conf 10) = (True, sample_sems)"
    by (simp add: sem_ReadInit_def ReadSemid_def sem_Init_def f kv_pairs_conf r set_sem_pair_def
        Let_def sample_sems_def)
qed

section \<open>Blocks\<close>

text \<open>What \<open>Write\<close> puts into a block is read back by \<open>Read\<close> followed by the block's
  old bytes, and the other nine blocks keep their contents.\<close>

theorem block_roundtrip:
  assumes "attached k c" "i < 10" "length d \<le> 8192"
  shows "\<exists>k'. Write k c d (int i) = Some (True, k') \<and> attached k' c
    \<and> Read k' c 8192 (int i) = Some (Some (d @ drop (length d) (block k c i)))
    \<and> (\<forall>j < 10. j \<noteq> i \<longrightarrow> Read k' c 8192 (int j) = Read k c 8192 (int j))"
proof -
  obtain k' where k': "Write k c d (int i) = Some (True, k')" "attached k' c"
    "block k' c i = d @ drop (length d) (block k c i)"
    "\<forall>j < 10. j \<noteq> i \<longrightarrow> block k' c j = block k c j"
    using Write_block [OF assms] by blast
  then show ?thesis using Read_block [OF assms(1)] Read_block [OF k'(2)] assms(2) by auto
qed

theorem block_roundtrip_witness:
  "\<exists>k'. Write sample_kernel sample_ctl [1, 2] (int 3) = Some (True, k') \<and> attached k' sample_ctl
    \<and> Read k' sample_ctl 8192 (int 3) = Some (Some ([1, 2] @ drop (length [1 :: byte, 2])
        (block sample_kernel sample_ctl 3)))
    \<and> (\<forall>j < 10. j \<noteq> 3 \<longrightarrow> Read k' sample_ctl 8192 (int j) = Read sample_kernel sample_ctl 8192 (int j))"
  using block_roundtrip [OF sample_attached, of 3 "[1, 2]"] by simp

text \<open>For an index of zero or more, \<open>Write\<close> leaves the segment exactly at index 10: the check
  compares with \<^verbatim>\<open>>\<close> and lets one index too many through; larger ones are refused.\<close>

theorem write_leaves_segment_iff:
  assumes att: "attached k c" and d: "0 < length d" "length d \<le> 8192" and i: "0 \<le> index"
  shows "Write k c d index = None \<longleftrightarrow> index = 10"
proof (cases "index < 10")
  case True
  then have n: "index = int (nat index)" "nat index < 10" using i by simp_all
  obtain k' where "Write k c d (int (nat index)) = Some (True, k')"
    using Write_block [OF att n(2) d(2)] by blast
  then show ?thesis using n True by simp
next
  case False
  show ?thesis
  proof (cases "index = 10")
    case True
    then show ?thesis using Write_index_10 [OF att d] by simp
  next
    case other: False
    then have "10 < index" using False by simp
    then have "Write k c d index = Some (False, k)" by (simp add: Write_def)
    then show ?thesis using other by simp
  qed
qed

theorem write_leaves_segment_iff_witness:
  "Write sample_kernel sample_ctl [1] 10 = None \<longleftrightarrow> (10 :: int) = 10"
  by (rule write_leaves_segment_iff) (simp_all add: sample_attached)

section \<open>Finding the segment\<close>

lemma CreateShm_fresh:
  assumes "conf_writable k" "shmkey c = 0 \<or> shm_keys k (shmkey c) = None" "81920 \<le> shm_max k"
    and "0 \<le> next_shm k" "int_range (shmkey c)" "int_range (next_shm k)"
  shows "\<exists>k'. CreateShm k c = (True, k', c\<lparr>shmid := next_shm k\<rparr>)
    \<and> segs k' (next_shm k) = Some (zeros 81920)
    \<and> ReadShmid k' c' = (next_shm k \<noteq> 0 \<and> shmkey c \<noteq> 0,
        c'\<lparr>shmid := next_shm k, shmkey := shmkey c\<rparr>)"
proof -
  obtain k1 where k1: "shmget k (shmkey c) (nat mem_size) = (next_shm k, k1)"
    "segs k1 (next_shm k) = Some (zeros 81920)" "conf_writable k1"
    using assms by (cases "shmkey c = 0") (auto simp: shmget_def new_segment_def Let_def)
  then obtain k2 where k2: "WriteShmid k1 (c\<lparr>shmid := next_shm k\<rparr>) = (True, k2)" "segs k2 = segs k1"
    "ReadShmid k2 c' = (next_shm k \<noteq> 0 \<and> shmkey c \<noteq> 0, c'\<lparr>shmid := next_shm k, shmkey := shmkey c\<rparr>)"
    using ReadShmid_WriteShmid [of k1 "c\<lparr>shmid := next_shm k\<rparr>" c'] assms by auto
  have "CreateShm k c = (True, k2, c\<lparr>shmid := next_shm k\<rparr>)"
    unfolding CreateShm_def k1(1) Let_def prod.case using k2(1) assms(4) by simp
  then show ?thesis using k1 k2 by simp
qed

text \<open>A segment made by \<open>CreateShm\<close> is found by every other process through the id file: it
  reads the id, attaches, and sees ten blocks of zeros.\<close>

theorem created_segment_found:
  assumes "conf_writable k" "shm_keys k (shmkey c) = None" "81920 \<le> shm_max k"
    and "0 < next_shm k" "shmkey c \<noteq> 0" "int_range (shmkey c)" "int_range (next_shm k)"
  shows "\<exists>k' c1 c2 c3. CreateShm k c = (True, k', c1) \<and> ReadShmid k' c' = (True, c2)
    \<and> AttachMem k' c2 = (True, c3) \<and> attached k' c3 \<and> (\<forall>i < 10. block k' c3 i = zeros 8192)"
proof -
  obtain k' where k': "CreateShm k c = (True, k', c\<lparr>shmid := next_shm k\<rparr>)"
    "segs k' (next_shm k) = Some (zeros 81920)"
    "ReadShmid k' c' = (True, c'\<lparr>shmid := next_shm k, shmkey := shmkey c\<rparr>)"
    using CreateShm_fresh [of k c c'] assms by auto
  let ?c3 = "c'\<lparr>shmid := next_shm k, shmkey := shmkey c, shmaddr := Some (next_shm k)\<rparr>"
  have "AttachMem k' (c'\<lparr>shmid := next_shm k, shmkey := shmkey c\<rparr>) = (True, ?c3)"
    using k'(2) assms(4) by (simp add: AttachMem_def)
  moreover have "attached k' ?c3" using k'(2) assms(4) by (simp add: attached_def)
  moreover have "block k' ?c3 i = zeros 8192" if "i < 10" for i
    using k'(2) that by (simp add: block_def)
  ultimately show ?thesis using k' by blast
qed

theorem created_segment_found_witness:
  "\<exists>k' c1 c2 c3. CreateShm (sample_kernel\<lparr>next_shm := 6\<rparr>) (W_ShmCtl\<lparr>shmkey := 99\<rparr>) = (True, k', c1)
    \<and> ReadShmid k' W_ShmCtl = (True, c2)
    \<and> AttachMem k' c2 = (True, c3) \<and> attached k' c3 \<and> (\<forall>i < 10. block k' c3 i = zeros 8192)"
  by (rule created_segment_found) (simp_all add: sample_kernel_def W_ShmCtl_def int_range_def)

text \<open>When the system gives the segment the id 0, which it may, no process finds it: \<open>CreateShm\<close>
  succeeds and writes the id file, and \<open>ReadShmid\<close> takes the id for a missing one.\<close>

theorem segment_zero_not_found:
  assumes "conf_writable k" "shm_keys k (shmkey c) = None" "81920 \<le> shm_max k"
    and "next_shm k = 0" "int_range (shmkey c)"
  shows "\<exists>k' c1 c2. CreateShm k c = (True, k', c1) \<and> segs k' 0 = Some (zeros 81920)
    \<and> ReadShmid k' c' = (False, c2)"
proof -
  have "int_range 0" by (simp add: int_range_def)
  then show ?thesis using CreateShm_fresh [of k c c'] assms by auto
qed

theorem segment_zero_not_found_witness:
  "\<exists>k' c1 c2. CreateShm (sample_kernel\<lparr>next_shm := 0\<rparr>) (W_ShmCtl\<lparr>shmkey := 99\<rparr>) = (True, k', c1)
    \<and> segs k' 0 = Some (zeros 81920) \<and> ReadShmid k' W_ShmCtl = (False, c2)"
  by (rule segment_zero_not_found) (simp_all add: sample_kernel_def W_ShmCtl_def int_range_def)

section \<open>Messages\<close>

text \<open>A message given to \<open>WriteData\<close> is what the reader of the next pipe gets from
  \<open>ReadData\<close>: the block number goes through that pipe, and the reader's buffer holds the message
  followed by the rest of the block's old contents. The reader shares the segment and the set.\<close>

theorem message_handover:
  assumes r: "ready k w" and len: "length msg \<le> 8192"
    and same: "w_shmctl d = w_shmctl w" "w_semtable d = w_semtable w"
    and own: "dr_id d = (dr_id w + 1) mod 2"
  shows "\<exists>k1 w1 got k2. WriteData FifoOk k w msg = Some (Goes (True, k1, w1, Some (GetFifoName d, got)))
    \<and> ReadData FifoOk raw got k1 d 8192 = Some (Goes (True, k2, d,
        Some (msg @ drop (length msg) (block k (w_shmctl w) (nat ((dr_index w + 1) mod 10))))))
    \<and> ready k2 w1"
proof -
  let ?i = "nat ((dr_index w + 1) mod 10)"
  have i: "?i < 10" "int ?i = (dr_index w + 1) mod 10" by simp_all
  obtain k1 where w: "WriteData FifoOk k w msg =
      Some (Goes (True, k1, w\<lparr>dr_index := int ?i, dr_id := (dr_id w + 1) mod 2\<rparr>,
        Some (GetFifoName d, fifo_bytes (int ?i))))"
    and k1: "ready k1 w" "block k1 (w_shmctl w) ?i = msg @ drop (length msg) (block k (w_shmctl w) ?i)"
    using WriteData_ready [OF r len refl] own by (auto simp: GetFifoName_def)
  have "ready k1 d" using k1(1) same by (simp add: ready_def)
  from ReadData_ready [OF this i(1), of raw] obtain k2 where
    "ReadData FifoOk raw (fifo_bytes (int ?i)) k1 d 8192 = Some (Goes (True, k2, d,
      Some (block k1 (w_shmctl d) ?i)))" "ready k2 d" by blast
  then show ?thesis using w k1 same by (auto simp: ready_def)
qed

theorem message_handover_witness:
  "\<exists>k1 w1 got k2. WriteData FifoOk sample_kernel sample_recv [7, 8]
      = Some (Goes (True, k1, w1, Some (GetFifoName (sample_recv\<lparr>dr_id := 1\<rparr>), got)))
    \<and> ReadData FifoOk (zeros 32) got k1 (sample_recv\<lparr>dr_id := 1\<rparr>) 8192
      = Some (Goes (True, k2, sample_recv\<lparr>dr_id := 1\<rparr>,
        Some ([7, 8] @ drop (length [7 :: byte, 8])
          (block sample_kernel (w_shmctl sample_recv) (nat ((dr_index sample_recv + 1) mod 10))))))
    \<and> ready k2 w1"
  by (rule message_handover [OF sample_ready]) (simp_all add: sample_recv_def)

text \<open>Writing several messages; the third component is what went into the pipes.\<close>

fun write_msgs :: "kernel \<Rightarrow> data_recv \<Rightarrow> byte list list \<Rightarrow>
    (kernel \<times> data_recv \<times> (byte list \<times> byte list) list) option" where
  "write_msgs k d [] = Some (k, d, [])"
| "write_msgs k d (m # ms) =
     (case WriteData FifoOk k d m of
        Some (Goes (True, k', d', Some out)) \<Rightarrow>
          (case write_msgs k' d' ms of
             Some (k'', d'', outs) \<Rightarrow> Some (k'', d'', out # outs)
           | None \<Rightarrow> None)
      | _ \<Rightarrow> None)"

definition ring_index :: "data_recv \<Rightarrow> nat \<Rightarrow> nat" where
  "ring_index d n = nat ((dr_index d + 1 + int n) mod 10)"

definition ring_notice :: "data_recv \<Rightarrow> nat \<Rightarrow> byte list \<times> byte list" where
  "ring_notice d n =
     (ascii ''fifo_'' @ dec_int ((dr_id d + 1 + int n) mod 2), fifo_bytes (int (ring_index d n)))"

lemma ring_index_inj: "m < n \<Longrightarrow> n < m + 10 \<Longrightarrow> ring_index d m \<noteq> ring_index d n"
proof
  assume mn: "m < n" "n < m + 10" and "ring_index d m = ring_index d n"
  then have "(dr_index d + 1 + int m) mod 10 = (dr_index d + 1 + int n) mod 10"
    by (simp add: ring_index_def nat_eq_iff2)
  then have "10 dvd (dr_index d + 1 + int n) - (dr_index d + 1 + int m)"
    by (metis mod_eq_dvd_iff)
  then have "10 dvd int n - int m" by simp
  then show False using mn zdvd_not_zless [of "int n - int m" 10] by simp
qed

lemma upt_0_Suc: "[0..<Suc n] = 0 # map Suc [0..<n]"
  by (simp add: upt_conv_Cons map_Suc_upt del: upt_Suc)

lemma shift_mod: "((x + 1) mod m + 1 + int n) mod m = (x + 1 + int (Suc n)) mod m"
  using mod_add_left_eq [of "x + 1" m "1 + int n"] by (simp add: algebra_simps)

lemma ring_shift:
  fixes d :: data_recv
  defines "d1 \<equiv> d\<lparr>dr_index := int (ring_index d 0), dr_id := (dr_id d + 1) mod 2\<rparr>"
  shows "ring_index d1 n = ring_index d (Suc n)" "ring_notice d1 n = ring_notice d (Suc n)"
proof -
  have x: "dr_index d1 = (dr_index d + 1) mod 10" and y: "dr_id d1 = (dr_id d + 1) mod 2"
    by (simp_all add: d1_def ring_index_def)
  show i: "ring_index d1 n = ring_index d (Suc n)"
    unfolding ring_index_def x shift_mod ..
  show "ring_notice d1 n = ring_notice d (Suc n)"
    unfolding ring_notice_def i y shift_mod ..
qed

lemma write_msgs_ring:
  assumes "ready k d" "\<forall>m \<in> set ms. length m \<le> 8192"
  shows "\<exists>k' d'. write_msgs k d ms = Some (k', d', map (ring_notice d) [0..<length ms])
    \<and> ready k' d \<and> w_shmctl d' = w_shmctl d
    \<and> (\<forall>j < 10. (\<forall>n < length ms. ring_index d n \<noteq> j) \<longrightarrow>
        block k' (w_shmctl d) j = block k (w_shmctl d) j)
    \<and> (\<forall>n < length ms. length ms \<le> n + 10 \<longrightarrow>
        take (length (ms ! n)) (block k' (w_shmctl d) (ring_index d n)) = ms ! n)"
  using assms
proof (induction ms arbitrary: k d)
  case (Cons m ms)
  let ?i = "ring_index d 0" and ?c = "w_shmctl d"
  let ?d1 = "d\<lparr>dr_index := int ?i, dr_id := (dr_id d + 1) mod 2\<rparr>"
  have m: "length m \<le> 8192" using Cons.prems(2) by simp
  have i: "?i = nat ((dr_index d + 1) mod 10)" "?i < 10" by (simp_all add: ring_index_def)
  obtain k1 where w: "WriteData FifoOk k d m = Some (Goes (True, k1, ?d1, Some (ring_notice d 0)))"
    and k1: "ready k1 d" "block k1 ?c ?i = m @ drop (length m) (block k ?c ?i)"
      "\<forall>j < 10. j \<noteq> ?i \<longrightarrow> block k1 ?c j = block k ?c j"
    using WriteData_ready [OF Cons.prems(1) m i(1)] by (auto simp: ring_notice_def)
  have c1: "w_shmctl ?d1 = ?c" by simp
  have r1: "ready k1 ?d1" using k1(1) by (simp add: ready_def)
  note ri = ring_shift(1) [of d] and rn = ring_shift(2) [of d]
  have "\<forall>m \<in> set ms. length m \<le> 8192" using Cons.prems(2) by simp
  from Cons.IH [OF r1 this] obtain k' d' where
    w': "write_msgs k1 ?d1 ms = Some (k', d', map (ring_notice ?d1) [0..<length ms])"
    and k': "ready k' ?d1" "w_shmctl d' = ?c"
    and keep: "\<forall>j < 10. (\<forall>n < length ms. ring_index d (Suc n) \<noteq> j) \<longrightarrow> block k' ?c j = block k1 ?c j"
    and got: "\<forall>n < length ms. length ms \<le> n + 10 \<longrightarrow>
      take (length (ms ! n)) (block k' ?c (ring_index d (Suc n))) = ms ! n"
    unfolding c1 ri by blast
  have out: "write_msgs k d (m # ms) = Some (k', d', map (ring_notice d) [0..<length (m # ms)])"
    using w w' rn by (simp add: upt_0_Suc o_def del: upt_Suc)
  have keep': "block k' ?c j = block k ?c j"
    if j: "j < 10" "\<forall>n < length (m # ms). ring_index d n \<noteq> j" for j
  proof -
    have "j \<noteq> ?i" "\<forall>n < length ms. ring_index d (Suc n) \<noteq> j" using j(2) by auto
    then show ?thesis using keep k1(3) j(1) by simp
  qed
  have got': "take (length ((m # ms) ! n)) (block k' ?c (ring_index d n)) = (m # ms) ! n"
    if n: "n < length (m # ms)" "length (m # ms) \<le> n + 10" for n
  proof (cases n)
    case 0
    have "ring_index d (Suc n') \<noteq> ?i" if "n' < length ms" for n'
      using n(2) 0 that ring_index_inj [of 0 "Suc n'" d] by simp
    then have "block k' ?c ?i = block k1 ?c ?i" using keep i(2) by simp
    then show ?thesis using 0 k1(2) by simp
  next
    case (Suc n')
    then show ?thesis using n got by simp
  qed
  have "ready k' d" using k'(1) by (simp add: ready_def)
  then show ?case using out k'(2) keep' got' by blast
qed simp

text \<open>C16: Messages written one after the other go into the blocks \<open>index + 1\<close>, \<open>index + 2\<close>, \<dots> modulo
  ten and are announced in the pipes \<open>fifo_0\<close> and \<open>fifo_1\<close> in turn; each of the last ten
  is still in its block when all are written.\<close>

theorem ring_of_messages:
  assumes "ready k d" "\<forall>m \<in> set ms. length m \<le> 8192"
  shows "\<exists>k' d'. write_msgs k d ms = Some (k', d', map (ring_notice d) [0..<length ms]) \<and> ready k' d
    \<and> (\<forall>n < length ms. length ms \<le> n + 10 \<longrightarrow>
        take (length (ms ! n)) (block k' (w_shmctl d) (ring_index d n)) = ms ! n)"
  using write_msgs_ring [OF assms] by blast

theorem ring_of_messages_witness:
  "\<exists>k' d'. write_msgs sample_kernel sample_recv [[1], [2]]
      = Some (k', d', map (ring_notice sample_recv) [0..<length [[1 :: byte], [2]]])
    \<and> ready k' sample_recv
    \<and> (\<forall>n < length [[1 :: byte], [2]]. length [[1 :: byte], [2]] \<le> n + 10 \<longrightarrow>
        take (length ([[1 :: byte], [2]] ! n)) (block k' (w_shmctl sample_recv) (ring_index sample_recv n))
          = [[1 :: byte], [2]] ! n)"
  by (rule ring_of_messages [OF sample_ready]) simp

text \<open>A message longer than a block is refused and changes no block, but the ring position
  moves on while the pipe does not: the number of the next block and the pipe no longer go
  together.\<close>

theorem oversized_message_refused:
  assumes r: "ready k d" and len: "8192 < length buf"
  shows "\<exists>k'. WriteData env k d buf =
      Some (Goes (False, k', d\<lparr>dr_index := (dr_index d + 1) mod 10\<rparr>, None))
    \<and> ready k' d \<and> (\<forall>i. block k' (w_shmctl d) i = block k (w_shmctl d) i)"
proof -
  let ?t = "w_semtable d" and ?c = "w_shmctl d"
  define i where "i = nat ((dr_index d + 1) mod 10)"
  have i: "i < 10" "int i = (dr_index d + 1) mod 10" by (simp_all add: i_def)
  have f: "locks_free k ?t" and att: "attached k ?c" using r by (simp_all add: ready_def)
  obtain k2 where p: "P k ?t (int i) = Goes (True, k2)" "segs k2 = segs k"
    and s2: "sem_sets k2 (semid ?t) = Some ((replicate 10 1)[i := 0])"
    using P_V_free [OF f i(1)] by blast
  have w: "Write k2 ?c buf (int i) = Some (False, k2)"
    using len by (simp add: Write_def)
  obtain k4 where v: "V k2 ?t (int i) = (True, k4)" "segs k4 = segs k2" "locks_free k4 ?t"
    using V_frees [OF s2 i(1)] by blast
  have a: "attached k4 ?c" "block k4 ?c = block k ?c"
    using att attached_cong [of k4 k] v(2) p(2) by simp_all
  then have "ready k4 d" using r v(3) by (simp add: ready_def)
  moreover have "WriteData env k d buf = Some (Goes (False, k4, d\<lparr>dr_index := int i\<rparr>, None))"
    using p(1) w v(1) by (simp add: WriteData_def ensure_ready [OF r] i(2) [symmetric])
  ultimately show ?thesis using a i(2) by auto
qed

theorem oversized_message_refused_witness:
  "\<exists>k'. WriteData FifoOk sample_kernel sample_recv (zeros 8193) =
      Some (Goes (False, k', sample_recv\<lparr>dr_index := (dr_index sample_recv + 1) mod 10\<rparr>, None))
    \<and> ready k' sample_recv
    \<and> (\<forall>i. block k' (w_shmctl sample_recv) i = block sample_kernel (w_shmctl sample_recv) i)"
  by (rule oversized_message_refused [OF sample_ready]) simp

text \<open>When the id file names a segment that is gone, the first \<open>WriteData\<close> fails, but the ids
  it read make \<open>HasShm\<close> true, so that the second call skips the attachment and copies the
  message to an address that was never set.\<close>

theorem failed_attach_reused:
  assumes "\<not> HasShm (w_shmctl d)" "shmaddr (w_shmctl d) = None"
    and "ReadShmid k (w_shmctl d) = (True, c)" "segs k (shmid c) = None" "shmid c \<noteq> -1"
    and "sem_sets k (semid (w_semtable d)) = None" "length buf \<le> 8192"
  shows "\<exists>d1. WriteData env k d buf = Some (Goes (False, k, d1, None)) \<and> WriteData env k d1 buf = None"
proof -
  let ?d1 = "d\<lparr>w_shmctl := c\<rparr>"
  obtain "shmid c \<noteq> 0" "shmkey c \<noteq> 0" "shmaddr c = None"
  proof -
    have addr: "shmaddr (fold set_pair ps c') = shmaddr c'" for ps c'
      by (induction ps arbitrary: c') (simp_all add: set_pair_def Let_def)
    show thesis using assms(2,3) that by (auto simp: ReadShmid_def Let_def addr split: option.splits)
  qed
  then have h: "HasShm c" "mem_write k (shmaddr c) p buf = None" for p
    by (simp_all add: HasShm_def mem_write_def)
  have 1: "WriteData env k d buf = Some (Goes (False, k, ?d1, None))"
    using assms by (simp add: WriteData_def ensure_init_def ShmReadInit_def AttachMem_def)
  have i: "(dr_index d + 1) mod 10 \<le> 10" using pos_mod_bound [of 10 "dr_index d + 1"] by linarith
  have "WriteData env k ?d1 buf = None"
    using assms h i by (simp add: WriteData_def ensure_init_def P_def Write_def)
  then show ?thesis using 1 by blast
qed

theorem failed_attach_reused_witness:
  "\<exists>d1. WriteData FifoOk (sample_kernel\<lparr>segs := Map.empty\<rparr>) W_DataRecv [1]
      = Some (Goes (False, sample_kernel\<lparr>segs := Map.empty\<rparr>, d1, None))
    \<and> WriteData FifoOk (sample_kernel\<lparr>segs := Map.empty\<rparr>) d1 [1] = None"
proof (rule failed_attach_reused)
  show "ReadShmid (sample_kernel\<lparr>segs := Map.empty\<rparr>) (w_shmctl W_DataRecv)
      = (True, W_ShmCtl\<lparr>shmid := 5, shmkey := 7\<rparr>)"
    using sample_ids(1) [of W_ShmCtl] by (simp add: ReadShmid_def W_DataRecv_def)
qed (simp_all add: W_DataRecv_def W_ShmCtl_def HasShm_def sample_kernel_def sem_Init_def)

section \<open>Exclusion\<close>

text \<open>
  Processes that take and return the locks of blocks, as \<open>WriteData\<close> and \<open>ReadData\<close> do;
  the list says who is inside of which block.
\<close>

inductive lock_step :: "sem_table \<Rightarrow> kernel \<times> (nat \<times> nat) list \<Rightarrow> kernel \<times> (nat \<times> nat) list \<Rightarrow> bool"
  for t :: sem_table where
  enter: "i < 10 \<Longrightarrow> P k t (int i) = Goes (True, k') \<Longrightarrow> lock_step t (k, hs) (k', (p, i) # hs)"
| leave: "i < 10 \<Longrightarrow> (p, i) \<in> set hs \<Longrightarrow> V k t (int i) = (True, k') \<Longrightarrow>
    lock_step t (k, hs) (k', remove1 (p, i) hs)"

definition lock_inv :: "sem_table \<Rightarrow> kernel \<times> (nat \<times> nat) list \<Rightarrow> bool" where
  "lock_inv t s \<longleftrightarrow> (\<exists>vs. sem_sets (fst s) (semid t) = Some vs \<and> length vs = 10 \<and> (\<forall>v \<in> set vs. 0 \<le> v))
     \<and> sem_locks.balanced t (fst s) (snd s)"

lemma P_sem_down: "P k t (int i) = Goes (True, k') \<Longrightarrow> sem_down t k i = Some k'"
  by (simp add: sem_down_def)

lemma V_sem_up: "V k t (int i) = (True, k') \<Longrightarrow> sem_up t k i = k'"
  by (simp add: sem_up_def)

lemma lock_inv_valid: "lock_inv t (k, hs) \<Longrightarrow> i < 10 \<Longrightarrow> sem_valid t k i"
  by (auto simp: lock_inv_def sem_valid_def)

lemma lock_step_inv: "lock_step t s s' \<Longrightarrow> lock_inv t s \<Longrightarrow> lock_inv t s'"
proof (induction rule: lock_step.induct)
  case (enter i k k' hs p)
  have b: "sem_locks.balanced t k' ((p, i) # hs)"
    using sem_locks.down_balanced(1) [of t k hs i k' p] lock_inv_valid [OF enter(3,1)]
      P_sem_down [OF enter(2)] enter(3) by (simp add: lock_inv_def)
  moreover have "\<exists>vs. sem_sets k' (semid t) = Some vs \<and> length vs = 10 \<and> (\<forall>v \<in> set vs. 0 \<le> v)"
    using enter by (auto simp: lock_inv_def P_def split: if_splits dest!: set_update_subset_insert [THEN subsetD])
  ultimately show ?case by (simp add: lock_inv_def)
next
  case (leave i p hs k k')
  have "sem_locks.balanced t (sem_up t k i) (remove1 (p, i) hs)"
    using sem_locks.up_balanced [OF _ lock_inv_valid [OF leave(4,1)] leave(2)] leave(4)
    by (simp add: lock_inv_def)
  moreover have "\<exists>vs. sem_sets k' (semid t) = Some vs \<and> length vs = 10 \<and> (\<forall>v \<in> set vs. 0 \<le> v)"
    using leave by (auto simp: lock_inv_def V_def split: if_splits dest!: set_update_subset_insert [THEN subsetD])
  ultimately show ?case using V_sem_up [OF leave(3)] by (simp add: lock_inv_def)
qed

lemma locks_free_inv: "locks_free k t \<Longrightarrow> lock_inv t (k, [])"
  by (auto simp: lock_inv_def locks_free_def sem_locks.balanced_def sem_valid_def sem_val_def)

lemma lock_steps_inv: "(lock_step t)\<^sup>*\<^sup>* s s' \<Longrightarrow> lock_inv t s \<Longrightarrow> lock_inv t s'"
  by (induction rule: rtranclp_induct) (auto intro: lock_step_inv)

text \<open>C15: From a set whose semaphores are all 1, however processes take and return the locks, at
  most one of them is inside of a block.\<close>

theorem mutual_exclusion:
  assumes "locks_free k t" "(lock_step t)\<^sup>*\<^sup>* (k, []) (k', hs)" "i < 10"
  shows "length (filter (\<lambda>h. snd h = i) hs) \<le> 1"
proof -
  have inv: "lock_inv t (k', hs)" using lock_steps_inv [OF assms(2) locks_free_inv [OF assms(1)]] .
  then have "0 \<le> sem_val t k' i" using assms(3) by (auto simp: lock_inv_def sem_val_def)
  then show ?thesis
    using sem_locks.one_holder [of t k' hs i] lock_inv_valid [OF inv assms(3)] inv
    by (simp add: lock_inv_def)
qed

theorem mutual_exclusion_witness:
  "\<exists>k'. (lock_step sample_sems)\<^sup>*\<^sup>* (sample_kernel, []) (k', [(1, 4)])
    \<and> length (filter (\<lambda>h. snd h = 4) [(1 :: nat, 4 :: nat)]) \<le> 1"
proof -
  have f: "locks_free sample_kernel sample_sems"
    by (simp add: locks_free_def sample_kernel_def sample_sems_def)
  have "4 < (10 :: nat)" by simp
  from P_V_free [OF f this] obtain k' where "P sample_kernel sample_sems (int 4) = Goes (True, k')" by blast
  then have "(lock_step sample_sems)\<^sup>*\<^sup>* (sample_kernel, []) (k', [(1, 4)])"
    by (intro r_into_rtranclp enter) simp_all
  then show ?thesis using mutual_exclusion [OF f, of k' "[(1, 4)]" 4] by auto
qed

text \<open>A process that attaches sets every semaphore to 1 again, whoever is inside: the next
  \<open>P\<close> on any block succeeds even when another process holds it.\<close>

theorem attach_breaks_exclusion:
  assumes "ReadShmid k (w_shmctl d) = (True, c)" "segs k (shmid c) \<noteq> None" "shmid c \<noteq> -1"
    and "sem_ReadInit k (sem_Init sem_table_conf shm_block_size) = (True, t)"
    and "sem_sets k (semid t) = Some vs" "length vs = 10" "blockSize t = 10"
  shows "\<exists>k' d'. ShmReadInit k d = (True, k', d') \<and> w_semtable d' = t
    \<and> (\<forall>i < 10. \<exists>k2. P k' t (int i) = Goes (True, k2))"
proof -
  let ?k = "k\<lparr>sem_sets := (sem_sets k)(semid t \<mapsto> replicate 10 1)\<rparr>"
  have k': "ResetSem k t = (True, ?k)"
    using ResetSem_vals [OF assms(5)] assms(6,7) by simp
  let ?d = "d\<lparr>w_shmctl := c\<lparr>shmaddr := Some (shmid c)\<rparr>, w_semtable := t\<rparr>"
  have "ShmReadInit k d = (True, ?k, ?d)"
    unfolding ShmReadInit_def assms(1) Let_def prod.case
    using assms(2,3,4) k' by (simp add: AttachMem_def)
  moreover have "\<exists>k2. P ?k t (int i) = Goes (True, k2)" if "i < 10" for i
    using P_V_free [of ?k t i] that by (auto simp: locks_free_def)
  ultimately show ?thesis by auto
qed

theorem attach_breaks_exclusion_witness:
  "\<exists>k' d'. ShmReadInit (sample_kernel\<lparr>sem_sets := [3 \<mapsto> replicate 10 0]\<rparr>) W_DataRecv = (True, k', d')
    \<and> w_semtable d' = sample_sems \<and> (\<forall>i < 10. \<exists>k2. P k' sample_sems (int i) = Goes (True, k2))"
proof (rule attach_breaks_exclusion [where vs = "replicate 10 0"])
  show "ReadShmid (sample_kernel\<lparr>sem_sets := [3 \<mapsto> replicate 10 0]\<rparr>) (w_shmctl W_DataRecv)
      = (True, W_ShmCtl\<lparr>shmid := 5, shmkey := 7\<rparr>)"
    using sample_ids(1) [of W_ShmCtl] by (simp add: ReadShmid_def W_DataRecv_def)
  show "sem_ReadInit (sample_kernel\<lparr>sem_sets := [3 \<mapsto> replicate 10 0]\<rparr>)
      (sem_Init sem_table_conf shm_block_size) = (True, sample_sems)"
    using sample_ids(2) by (simp add: sem_ReadInit_def ReadSemid_def)
qed (simp_all add: sample_kernel_def sample_sems_def)

end
