(* ===== verification/TransferServer.thy ===== *)
theory TransferServer
  imports Upload DataRecv TransferClient Sockets
begin

text \<open>
  The transfer server (\<^verbatim>\<open>transfer/transfer_server.cpp\<close>) and the reading processes
  (\<^verbatim>\<open>W_DataRecv::ReadFileTest\<close>, \<^verbatim>\<open>SendData\<close>): messages of a client are cut out of the
  stream by the length field of their headers, handed to \<open>WriteData\<close>, and every block read is
  sent on whole. \<open>None\<close> is undefined behaviour, here a read past the receive buffer.
\<close>

section \<open>Cutting messages out of the stream\<close>

definition MSG_HEADER_LEN :: nat where
  "MSG_HEADER_LEN = 51"

definition len_field :: "cbuf \<Rightarrow> nat" where
  "len_field buffer = unat (ntohs (of_le (take 2 (drop (MSG_HEADER_LEN - 2) buffer))))"

text \<open>
  The reads of one turn: the buffer, the length given to \<open>WriteData\<close> and the rest of the
  connection; \<open>Some None\<close> at the end of the stream. The receive buffer keeps its bytes
  between the turns.
\<close>

definition read_message :: "cbuf \<Rightarrow> sock \<Rightarrow> (cbuf \<times> nat \<times> sock) option option" where
  "read_message buffer s =
     (let (g, s1) = sock_read s MSG_HEADER_LEN in
      if g = [] then Some None
      else
        (let b1 = fill buffer g; len = len_field b1 in
         if len = 0 then Some (Some (b1, MSG_HEADER_LEN, s1))
         else
           (let (g2, s2) = sock_read s1 len in
            do {
              b2 \<leftarrow> wr_bytes b1 MSG_HEADER_LEN g2;
              Some (Some (b2, MSG_HEADER_LEN + len, s2))
            })))"

lemma read_message_size: "read_message b s = Some (Some (b', n, s')) \<Longrightarrow> sock_size s' < sock_size s"
  by (auto simp: read_message_def Let_def split: prod.splits if_splits Option.bind_splits
      dest: sock_read_got sock_read_sizeD intro: le_less_trans)

text \<open>
  The first \<open>n\<close> bytes at \<^verbatim>\<open>buffer\<close>. \<open>Write\<close> refuses more than a block before it reads
  them, so that what follows the buffer does not matter.
\<close>

definition handed :: "cbuf \<Rightarrow> nat \<Rightarrow> byte list" where
  "handed buffer n = take n (buffer @ zeros n)"

datatype relayed = RelayEnds kernel data_recv "(byte list \<times> byte list) list" | RelaySleeps

text \<open>
  \<^verbatim>\<open>thread_main\<close> on one connection; the result of \<open>WriteData\<close> is only printed. The last
  component lists what went into the pipes.
\<close>

function thread_main :: "fifo_env \<Rightarrow> cbuf \<Rightarrow> sock \<Rightarrow> kernel \<Rightarrow> data_recv \<Rightarrow> relayed option" where
  "thread_main env buffer s k d =
     (case read_message buffer s of
        None \<Rightarrow> None
      | Some None \<Rightarrow> Some (RelayEnds k d [])
      | Some (Some (buffer', n, s')) \<Rightarrow>
          (case WriteData env k d (handed buffer' n) of
             None \<Rightarrow> None
           | Some Sleeps \<Rightarrow> Some RelaySleeps
           | Some (Goes (ok, k', d', out)) \<Rightarrow>
               (case thread_main env buffer' s' k' d' of
                  Some (RelayEnds k'' d'' outs) \<Rightarrow>
                    Some (RelayEnds k'' d'' ((case out of None \<Rightarrow> [] | Some x \<Rightarrow> [x]) @ outs))
                | r \<Rightarrow> r)))"
  by pat_completeness auto
termination
  by (relation "measure (\<lambda>(env, b, s, k, d). sock_size s)") (auto dest: read_message_size)

declare thread_main.simps [simp del]

text \<open>One turn of that loop, for a run in which other processes take turns.\<close>

datatype relay_turn =
  ClientGone
| Relayed cbuf sock kernel data_recv "(byte list \<times> byte list) option"
| WriterSleeps

definition thread_turn :: "fifo_env \<Rightarrow> cbuf \<Rightarrow> sock \<Rightarrow> kernel \<Rightarrow> data_recv \<Rightarrow> relay_turn option" where
  "thread_turn env buffer s k d =
     (case read_message buffer s of
        None \<Rightarrow> None
      | Some None \<Rightarrow> Some ClientGone
      | Some (Some (buffer', n, s')) \<Rightarrow>
          map_option (\<lambda>x. case x of Sleeps \<Rightarrow> WriterSleeps | Goes (ok, k', d', out) \<Rightarrow> Relayed buffer' s' k' d' out)
            (WriteData env k d (handed buffer' n)))"

lemma thread_turn_size: "thread_turn env b s k d = Some (Relayed b' s' k' d' out) \<Longrightarrow> sock_size s' < sock_size s"
  by (auto simp: thread_turn_def dest!: read_message_size split: option.splits waits.splits)

lemma thread_main_by_turn:
  "thread_main env b s k d =
     (case thread_turn env b s k d of
        None \<Rightarrow> None
      | Some ClientGone \<Rightarrow> Some (RelayEnds k d [])
      | Some WriterSleeps \<Rightarrow> Some RelaySleeps
      | Some (Relayed b' s' k' d' out) \<Rightarrow>
          (case thread_main env b' s' k' d' of
             Some (RelayEnds k'' d'' outs) \<Rightarrow>
               Some (RelayEnds k'' d'' ((case out of None \<Rightarrow> [] | Some x \<Rightarrow> [x]) @ outs))
           | r \<Rightarrow> r))"
  by (subst thread_main.simps)
    (auto simp: thread_turn_def split: option.split waits.split prod.split)

section \<open>Sending blocks on\<close>

text \<open>
  One turn of \<open>ReadFileTest\<close>: a block is read and sent on with the size of a block; a failed
  read is tried again in the next turn.
\<close>

definition read_turn :: "fifo_env \<Rightarrow> tcp_env \<Rightarrow> nat list \<Rightarrow> cbuf \<Rightarrow> byte list \<Rightarrow>
    kernel \<times> data_recv \<times> sender \<Rightarrow> (kernel \<times> data_recv \<times> sender) waits option" where
  "read_turn env e ports raw got x =
     (case x of (k, d, tx) \<Rightarrow>
        (case ReadData env raw got k d GetPerBlockSize of
           None \<Rightarrow> None
         | Some Sleeps \<Rightarrow> Some Sleeps
         | Some (Goes (ok, k', d', Some buf)) \<Rightarrow>
             Some (Goes (k', d', if ok then snd (SendData e ports tx buf) else tx))
         | Some (Goes (ok, k', d', None)) \<Rightarrow> Some (Goes (k', d', tx))))"

text \<open>
  The program of the reading processes: after \<^verbatim>\<open>fork\<close> the child reads the pipe of number 0,
  its parent that of number 1.
\<close>

definition read_process :: "bool \<Rightarrow> data_recv" where
  "read_process child = W_DataRecv\<lparr>dr_id := (if child then 0 else 1)\<rparr>"

section \<open>Well-formed messages\<close>

definition framed :: "byte list \<Rightarrow> bool" where
  "framed m \<longleftrightarrow> 51 \<le> length m \<and> length m \<le> PACKAGE_SIZE \<and> length m = 51 + len_field m"

lemma len_field_take: "51 \<le> length m \<Longrightarrow> len_field (take 51 m @ r) = len_field m"
proof -
  assume m: "51 \<le> length m"
  have "take 2 (drop 49 (take 51 m @ r)) = take 2 (drop 49 m)"
    using m by (simp add: take_drop)
  then show ?thesis by (simp add: len_field_def MSG_HEADER_LEN_def)
qed

lemma framed_header:
  assumes "ok_id fid" "length name \<le> 461" shows "framed (header_msg fid sz name)"
proof -
  have "take 2 (drop 49 (header_msg fid sz name)) = be16 (of_nat (length name))"
    using assms(1) by (simp add: header_msg_def)
  moreover have "unat (of_nat (length name) :: u16) = length name"
    using assms(2) by (simp add: unat_of_nat)
  ultimately have "len_field (header_msg fid sz name) = length name"
    by (simp add: len_field_def MSG_HEADER_LEN_def)
  then show ?thesis using assms by (simp add: framed_def header_msg_def PACKAGE_SIZE_def)
qed

lemma framed_data:
  assumes "ok_id fid" "length d \<le> 8141" shows "framed (data_msg fid off d)"
proof -
  have "take 2 (drop 49 (data_msg fid off d)) = be16 (of_nat (length d))"
    using assms(1) by (simp add: data_msg_def)
  moreover have "unat (of_nat (length d) :: u16) = length d"
    using assms(2) by (simp add: unat_of_nat)
  ultimately have "len_field (data_msg fid off d) = length d"
    by (simp add: len_field_def MSG_HEADER_LEN_def)
  then show ?thesis using assms by (simp add: framed_def data_msg_def PACKAGE_SIZE_def)
qed

lemma framed_end: "ok_id fid \<Longrightarrow> framed (end_msg fid)"
proof -
  assume fid: "ok_id fid"
  then have "take 2 (drop 49 (end_msg fid)) = be16 0"
    by (simp add: end_msg_def zeros_def numeral_eq_Suc be16_def le16_bytes htons_def)
  then show ?thesis
    using fid by (simp add: len_field_def MSG_HEADER_LEN_def framed_def end_msg_def PACKAGE_SIZE_def)
qed

lemma framed_upload:
  assumes "ok_id fid" "length path \<le> 461"
  shows "\<forall>m \<in> set (upload_msgs fid path c). framed m"
  using assms client_pieces_size
  by (auto simp: upload_msgs_def framed_header framed_end framed_data)

section \<open>Reframing\<close>

lemma read_message_framed:
  assumes m: "framed m" and b: "length buffer = PACKAGE_SIZE"
  shows "\<exists>b'. read_message buffer (arrived (m @ rest)) = Some (Some (b', length m, arrived rest))
    \<and> length b' = PACKAGE_SIZE \<and> handed b' (length m) = m"
proof -
  obtain h t where ht: "m = h @ t" "length h = 51" "length t = len_field m"
    using m that [of "take 51 m" "drop 51 m"] by (simp add: framed_def)
  let ?b1 = "h @ drop 51 buffer"
  have f: "len_field ?b1 = length t"
    using len_field_take [of m "drop 51 buffer"] m ht by (simp add: framed_def)
  have r1: "sock_read (arrived (m @ rest)) 51 = (h, arrived (t @ rest))"
    using sock_read_arrived [of 51 h "t @ rest"] ht by simp
  have r2: "sock_read (arrived (t @ rest)) (length t) = (t, arrived rest)"
    by (rule sock_read_arrived) simp
  have b1: "fill buffer h = ?b1" using ht by (simp add: fill_def)
  have ne: "h \<noteq> []" using ht by auto
  have tl: "51 + length t \<le> 8192" using m ht by (simp add: framed_def PACKAGE_SIZE_def)
  show ?thesis
  proof (cases "t = []")
    case True
    then have "read_message buffer (arrived (m @ rest)) = Some (Some (?b1, 51, arrived rest))"
      using r1 b1 ne f by (simp add: read_message_def MSG_HEADER_LEN_def)
    then show ?thesis using True ht b by (simp add: handed_def PACKAGE_SIZE_def)
  next
    case False
    have w: "wr_bytes ?b1 51 t = Some (h @ t @ drop (51 + length t) buffer)"
      using ht b tl by (simp add: wr_bytes_def PACKAGE_SIZE_def add.commute)
    have "read_message buffer (arrived (m @ rest)) =
        Some (Some (h @ t @ drop (51 + length t) buffer, 51 + length t, arrived rest))"
      using r1 r2 b1 ne f False w by (simp add: read_message_def MSG_HEADER_LEN_def Let_def)
    then show ?thesis using ht b tl by (simp add: handed_def PACKAGE_SIZE_def)
  qed
qed

lemma thread_main_end: "thread_main env buffer (arrived []) k d = Some (RelayEnds k d [])"
  by (subst thread_main.simps) (simp add: read_message_def arrived_def MSG_HEADER_LEN_def)

lemma thread_main_step:
  assumes m: "framed m" and b: "length buffer = PACKAGE_SIZE" and r: "ready k d"
  shows "\<exists>b' k' d' out. WriteData FifoOk k d m = Some (Goes (True, k', d', Some out)) \<and> ready k' d'
    \<and> length b' = PACKAGE_SIZE
    \<and> thread_main FifoOk buffer (arrived (m @ rest)) k d =
      (case thread_main FifoOk b' (arrived rest) k' d' of
         Some (RelayEnds k'' d'' outs) \<Rightarrow> Some (RelayEnds k'' d'' (out # outs)) | x \<Rightarrow> x)"
proof -
  obtain b' where b': "read_message buffer (arrived (m @ rest)) = Some (Some (b', length m, arrived rest))"
    "length b' = PACKAGE_SIZE" "handed b' (length m) = m"
    using read_message_framed [OF m b] by blast
  have len: "length m \<le> 8192" using m by (simp add: framed_def PACKAGE_SIZE_def)
  obtain k' d' out where w: "WriteData FifoOk k d m = Some (Goes (True, k', d', Some out))" "ready k' d'"
    using WriteData_ready [OF r len refl] by (auto simp: ready_def)
  have "thread_main FifoOk buffer (arrived (m @ rest)) k d =
      (case thread_main FifoOk b' (arrived rest) k' d' of
         Some (RelayEnds k'' d'' outs) \<Rightarrow> Some (RelayEnds k'' d'' (out # outs)) | x \<Rightarrow> x)"
    by (subst thread_main.simps) (simp add: b' w(1) split: option.split relayed.split)
  then show ?thesis using w b'(2) by blast
qed

section \<open>Blocks on their way\<close>

text \<open>
  Every message is written and then read by the process whose pipe announced it: \<open>readers\<close>
  gives the two processes. The blocks read, with the pipe's name, in order.
\<close>

fun hand_over :: "(byte list \<Rightarrow> data_recv) \<Rightarrow> cbuf \<Rightarrow> kernel \<Rightarrow> data_recv \<Rightarrow> byte list list \<Rightarrow>
    (kernel \<times> data_recv \<times> (byte list \<times> cbuf) list) option" where
  "hand_over readers raw k w [] = Some (k, w, [])"
| "hand_over readers raw k w (m # ms) =
     (case WriteData FifoOk k w m of
        Some (Goes (True, k1, w1, Some (pipe, got))) \<Rightarrow>
          (case ReadData FifoOk raw got k1 (readers pipe) GetPerBlockSize of
             Some (Goes (True, k2, _, Some buf)) \<Rightarrow>
               (case hand_over readers raw k2 w1 ms of
                  Some (k', w', bs) \<Rightarrow> Some (k', w', (pipe, buf) # bs)
                | None \<Rightarrow> None)
           | _ \<Rightarrow> None)
      | _ \<Rightarrow> None)"

definition pipe_name :: "int \<Rightarrow> byte list" where
  "pipe_name i = ascii ''fifo_'' @ dec_int i"

lemma map2_upt_Suc: "map2 f [0..<Suc n] (x # xs) = f 0 x # map2 (\<lambda>n. f (Suc n)) [0..<n] xs"
  by (simp add: upt_conv_Cons map_Suc_upt [symmetric] zip_map1 o_def split_def del: upt_Suc)

lemma hand_over_packages:
  assumes "ready k w" "\<forall>m \<in> set ms. length m \<le> 8192"
    and "\<forall>p. w_shmctl (readers p) = w_shmctl w \<and> w_semtable (readers p) = w_semtable w"
  shows "\<exists>k' w' olds. hand_over readers raw k w ms =
      Some (k', w', map2 (\<lambda>n b. (pipe_name ((dr_id w + 1 + int n) mod 2), b)) [0..<length ms]
        (map2 package olds ms))
    \<and> length olds = length ms \<and> blocks olds \<and> ready k' w'"
  using assms
proof (induction ms arbitrary: k w)
  case Nil
  then show ?case by (intro exI [of _ k] exI [of _ w] exI [of _ "[]"]) simp
next
  case (Cons m ms)
  let ?c = "w_shmctl w"
  define i where "i = nat ((dr_index w + 1) mod 10)"
  have i: "i < 10" by (simp add: i_def)
  let ?w1 = "w\<lparr>dr_index := int i, dr_id := (dr_id w + 1) mod 2\<rparr>"
  let ?p = "pipe_name ((dr_id w + 1) mod 2)"
  have len: "length m \<le> 8192" using Cons.prems(2) by simp
  obtain k1 where w1: "WriteData FifoOk k w m = Some (Goes (True, k1, ?w1, Some (?p, fifo_bytes (int i))))"
    and k1: "ready k1 w" "block k1 ?c i = m @ drop (length m) (block k ?c i)"
    using WriteData_ready [OF Cons.prems(1) len i_def] by (auto simp: pipe_name_def)
  have r: "ready k1 (readers ?p)" "w_shmctl (readers ?p) = ?c" "w_semtable (readers ?p) = w_semtable w"
    using k1(1) Cons.prems(3) by (simp_all add: ready_def)
  from ReadData_ready [OF r(1) i, of raw] obtain k2 where
    r2: "ReadData FifoOk raw (fifo_bytes (int i)) k1 (readers ?p) 8192
        = Some (Goes (True, k2, readers ?p, Some (block k1 ?c i)))" "ready k2 (readers ?p)"
    unfolding r(2) by blast
  have ready2: "ready k2 ?w1" using r2(2) r by (simp add: ready_def)
  have "\<forall>m \<in> set ms. length m \<le> 8192" using Cons.prems(2) by simp
  moreover have "\<forall>p. w_shmctl (readers p) = w_shmctl ?w1 \<and> w_semtable (readers p) = w_semtable ?w1"
    using Cons.prems(3) by simp
  ultimately obtain k' w' olds where ih: "hand_over readers raw k2 ?w1 ms =
      Some (k', w', map2 (\<lambda>n b. (pipe_name ((dr_id ?w1 + 1 + int n) mod 2), b)) [0..<length ms]
        (map2 package olds ms))"
    and o: "length olds = length ms" "blocks olds" "ready k' w'"
    using Cons.IH [OF ready2] by blast
  have old: "length (block k ?c i) = PACKAGE_SIZE"
    using Cons.prems(1) i by (simp add: ready_def length_block PACKAGE_SIZE_def)
  have pk: "block k1 ?c i = package (block k ?c i) m" using k1(2) by (simp add: package_def fill_def)
  have sh: "(dr_id ?w1 + 1 + int n) mod 2 = (dr_id w + 1 + int (Suc n)) mod 2" for n
    using mod_add_left_eq [of "dr_id w + 1" 2 "1 + int n"] by (simp add: algebra_simps)
  let ?bs = "(?p, package (block k ?c i) m)
      # map2 (\<lambda>n b. (pipe_name ((dr_id w + 1 + int (Suc n)) mod 2), b)) [0..<length ms] (map2 package olds ms)"
  have "hand_over readers raw k w (m # ms) = Some (k', w', ?bs)"
    using w1 r2(1) ih unfolding pk sh by (simp del: of_nat_Suc)
  moreover have "?bs = map2 (\<lambda>n b. (pipe_name ((dr_id w + 1 + int n) mod 2), b)) [0..<length (m # ms)]
      (map2 package (block k ?c i # olds) (m # ms))"
    by (simp add: map2_upt_Suc del: upt_Suc)
  ultimately have "hand_over readers raw k w (m # ms) = Some (k', w',
      map2 (\<lambda>n b. (pipe_name ((dr_id w + 1 + int n) mod 2), b)) [0..<length (m # ms)]
        (map2 package (block k ?c i # olds) (m # ms)))"
    by (simp only:)
  then show ?case
    using o old by (intro exI [of _ k'] exI [of _ w'] exI [of _ "block k ?c i # olds"]) simp
qed

end
