(* ===== verification/RelayProps.thy ===== *)
theory RelayProps
  imports TransferProps ShmProps TransferServer
begin

text \<open>
  Properties of the way of a message from the client through the transfer server and the shared
  blocks to the storage server, and of the receive loop of the transfer server.
\<close>

section \<open>The receive loop\<close>

text \<open>When every read is full, the transfer server cuts the byte stream of well-formed messages
  back into exactly these messages: it hands each of them to \<open>WriteData\<close>, in order, and ends
  when the client closes the connection.\<close>

theorem relay_reframes:
  assumes "ready k d" "\<forall>m \<in> set ms. framed m" "length buffer = PACKAGE_SIZE"
  shows "\<exists>k' d' outs. write_msgs k d ms = Some (k', d', outs)
    \<and> thread_main FifoOk buffer (arrived (concat ms)) k d = Some (RelayEnds k' d' outs)"
  using assms
proof (induction ms arbitrary: k d buffer)
  case Nil
  then show ?case by (simp add: thread_main_end)
next
  case (Cons m ms)
  then have m: "framed m" and ms: "\<forall>m \<in> set ms. framed m" by simp_all
  obtain b' k' d' out where w: "WriteData FifoOk k d m = Some (Goes (True, k', d', Some out))"
    "ready k' d'" "length b' = PACKAGE_SIZE"
    and t: "thread_main FifoOk buffer (arrived (m @ concat ms)) k d =
      (case thread_main FifoOk b' (arrived (concat ms)) k' d' of
         Some (RelayEnds k'' d'' outs) \<Rightarrow> Some (RelayEnds k'' d'' (out # outs)) | x \<Rightarrow> x)"
    using thread_main_step [OF m Cons.prems(3,1), of "concat ms"] by blast
  show ?case using Cons.IH [OF w(2) ms w(3)] w(1) t by auto
qed

theorem relay_reframes_witness:
  "\<exists>k' d' outs. write_msgs sample_kernel sample_recv (upload_msgs sample_id [0x66] [1, 2, 3])
      = Some (k', d', outs)
    \<and> thread_main FifoOk (zeros PACKAGE_SIZE) (arrived (concat (upload_msgs sample_id [0x66] [1, 2, 3])))
        sample_kernel sample_recv = Some (RelayEnds k' d' outs)"
  by (rule relay_reframes [OF sample_ready framed_upload]) simp_all

text \<open>A header that arrives in two parts is not put together: when fewer than 50 of its bytes
  have come and the receive buffer has zeros in the length field, the part is handed on as a
  whole message of 51 bytes, and the rest is taken for the next header.\<close>

theorem split_header_misframed:
  assumes "0 < length g" "length g < 50" "length buffer = PACKAGE_SIZE"
    and "buffer ! 49 = 0" "buffer ! 50 = 0"
  shows "read_message buffer (g # cs) = Some (Some (fill buffer g, 51, cs))"
proof -
  have "take 2 (drop 49 (fill buffer g)) = [buffer ! 49, buffer ! 50]"
  proof (rule nth_equalityI)
    show "length (take 2 (drop 49 (fill buffer g))) = length [buffer ! 49, buffer ! 50]"
      using assms(2,3) by (simp add: fill_def PACKAGE_SIZE_def)
    fix i assume "i < length (take 2 (drop 49 (fill buffer g)))"
    then have "i = 0 \<or> i = 1" by auto
    then show "take 2 (drop 49 (fill buffer g)) ! i = [buffer ! 49, buffer ! 50] ! i"
      using assms(2,3) by (auto simp: fill_def nth_append PACKAGE_SIZE_def)
  qed
  then have z: "take 2 (drop 49 (fill buffer g)) = be16 0"
    using assms(4,5) by (simp add: be16_def le16_bytes htons_def)
  have "len_field (fill buffer g) = 0"
    by (simp add: len_field_def MSG_HEADER_LEN_def z)
  moreover have "g \<noteq> []" using assms(1) by auto
  ultimately show ?thesis using assms(2) by (simp add: read_message_def MSG_HEADER_LEN_def)
qed

theorem split_header_misframed_witness:
  "read_message (zeros PACKAGE_SIZE) ([MSG_FILE_END] # [[1, 2, 3]]) =
    Some (Some (fill (zeros PACKAGE_SIZE) [MSG_FILE_END], 51, [[1, 2, 3]]))"
  by (rule split_header_misframed) (simp_all add: PACKAGE_SIZE_def zeros_def)

text \<open>The length field is not checked: with \<open>len\<close> in the header, the read leaves the receive
  buffer exactly when more than 8141 of the bytes asked for are there.\<close>

theorem relay_overflow_iff:
  assumes "length h = 51" "length buffer = PACKAGE_SIZE"
  shows "read_message buffer [h, t] = None \<longleftrightarrow> 8141 < min (len_field h) (length t)"
proof -
  let ?b = "h @ drop 51 buffer"
  have f: "len_field ?b = len_field h"
    using len_field_take [of h "drop 51 buffer"] assms(1) by simp
  have b: "fill buffer h = ?b" "h \<noteq> []" using assms(1) by (auto simp: fill_def)
  have len: "length ?b = 8192" using assms by (simp add: PACKAGE_SIZE_def)
  have w: "wr_bytes ?b 51 (take (len_field h) t) = None \<longleftrightarrow> 8141 < min (len_field h) (length t)"
    unfolding wr_bytes_None len by auto
  obtain s2 where r: "sock_read [t] (len_field h) = (take (len_field h) t, s2)" by simp
  show ?thesis
  proof (cases "len_field h = 0")
    case True
    then show ?thesis using assms(1) b f by (simp add: read_message_def MSG_HEADER_LEN_def)
  next
    case False
    then have "read_message buffer [h, t] = Option.bind (wr_bytes ?b 51 (take (len_field h) t))
        (\<lambda>b2. Some (Some (b2, 51 + len_field h, s2)))"
      using assms(1) b f r by (simp add: read_message_def MSG_HEADER_LEN_def Let_def)
    then show ?thesis using w by (simp add: bind_eq_None_conv)
  qed
qed

theorem relay_overflow_iff_witness:
  "read_message (zeros PACKAGE_SIZE) [replicate 51 0xff, zeros 8142] = None \<longleftrightarrow>
    8141 < min (len_field (replicate 51 0xff)) (length (zeros 8142))"
  by (rule relay_overflow_iff) simp_all

section \<open>From the client to the disk\<close>

lemma map2_pair:
  "length xs = length ys \<Longrightarrow> map snd (map2 (\<lambda>n b. (f n, b)) xs ys) = ys"
  "length xs = length ys \<Longrightarrow> map fst (map2 (\<lambda>n b. (f n, b)) xs ys) = map f xs"
  by (induction xs ys rule: list_induct2) simp_all

text \<open>The whole way with one connection: the messages \<open>SendFile\<close> writes are well formed; each is
  written to a block, announced, and read back as a block by the process of the announced pipe,
  the two taking turns; and the blocks, sent on in this order over one connection, make the
  storage server store exactly the file.\<close>

theorem upload_relayed:
  assumes "ok_id fid" "length path \<le> 461" "length c < 2 ^ 64"
    and "store_inv st" "pending st fid = None" "disk st (file_name fid) = None" "big junk"
    and "length raw1 = 512" "length raw40 = 40" "length raw2 = PACKAGE_SIZE" "length raw3 = 512"
    and "ready k w" "\<forall>p. w_shmctl (readers p) = w_shmctl w \<and> w_semtable (readers p) = w_semtable w"
  shows "\<exists>msgs k' w' bs t st'.
      SendFile True (raw1, raw40, raw2, raw3) (hex (sha1sum fid) @ rest_out) path (Some c)
        = Some (SendReturns 0 msgs) \<and> (\<forall>m \<in> set msgs. framed m)
    \<and> hand_over readers raw k w msgs = Some (k', w', bs)
    \<and> map fst bs = map (\<lambda>n. pipe_name ((dr_id w + 1 + int n) mod 2)) [0..<length msgs]
    \<and> serve junk (arrived (concat (map snd bs) @ rest)) st = serve junk (arrived (t @ rest)) st'
    \<and> disk st' = (disk st)(file_name fid \<mapsto> c) \<and> pending st' = pending st \<and> store_inv st'"
proof -
  let ?ms = "upload_msgs fid path c"
  have fr: "\<forall>m \<in> set ?ms. framed m" by (rule framed_upload [OF assms(1,2)])
  then have "\<forall>m \<in> set ?ms. length m \<le> 8192" by (auto simp: framed_def PACKAGE_SIZE_def)
  from hand_over_packages [OF assms(12) this assms(13)] obtain k' w' olds where
    h: "hand_over readers raw k w ?ms = Some (k', w',
        map2 (\<lambda>n b. (pipe_name ((dr_id w + 1 + int n) mod 2), b)) [0..<length ?ms] (map2 package olds ?ms))"
    and o: "length olds = length ?ms" "blocks olds" by blast
  have l: "length [0..<length ?ms] = length (map2 package olds ?ms)" using o(1) by simp
  note bs = map2_pair [OF l, of "\<lambda>n. pipe_name ((dr_id w + 1 + int n) mod 2)"]
  obtain st' where
    "SendFile True (raw1, raw40, raw2, raw3) (hex (sha1sum fid) @ rest_out) path (Some c)
      = Some (SendReturns 0 ?ms)"
    "serve junk (arrived (packages olds ?ms @ rest)) st = serve junk (arrived (drop 8182 (last olds) @ rest)) st'"
    "disk st' = (disk st)(file_name fid \<mapsto> c)" "pending st' = pending st" "store_inv st'"
    using upload_stores [OF assms(1-11) o] by blast
  moreover have "concat (map snd (map2 (\<lambda>n b. (pipe_name ((dr_id w + 1 + int n) mod 2), b))
      [0..<length ?ms] (map2 package olds ?ms))) = packages olds ?ms"
    unfolding bs(1) packages_def ..
  ultimately show ?thesis
    using fr h bs(2) by (intro exI [of _ ?ms] exI [of _ k'] exI [of _ w'] exI conjI) (assumption | simp only:)+
qed

theorem upload_relayed_witness:
  "\<exists>msgs k' w' bs t st'.
      SendFile True (zeros 512, zeros 40, zeros PACKAGE_SIZE, zeros 512)
        (hex (sha1sum sample_id) @ []) [0x66] (Some [1, 2, 3])
        = Some (SendReturns 0 msgs) \<and> (\<forall>m \<in> set msgs. framed m)
    \<and> hand_over (\<lambda>p. sample_recv\<lparr>dr_id := 1\<rparr>) (zeros 32) sample_kernel sample_recv msgs = Some (k', w', bs)
    \<and> map fst bs = map (\<lambda>n. pipe_name ((dr_id sample_recv + 1 + int n) mod 2)) [0..<length msgs]
    \<and> serve (\<lambda>_. zeros PACKAGE_SIZE) (arrived (concat (map snd bs) @ [])) sample_store
        = serve (\<lambda>_. zeros PACKAGE_SIZE) (arrived (t @ [])) st'
    \<and> disk st' = (disk sample_store)(file_name sample_id \<mapsto> [1, 2, 3])
    \<and> pending st' = pending sample_store \<and> store_inv st'"
  by (rule upload_relayed) (simp_all add: sample_store big_def sample_ready)

end
