(* ===== verification/TwoReaders.thy ===== *)
theory TwoReaders
  imports TransferProps
begin

text \<open>
  The two reading processes send their blocks on over connections of their own
  (\<^verbatim>\<open>read_proc/w_create_read_process.cpp\<close>), and two threads of the storage server handle them.
  An upload is then an interleaving of its messages of even and of odd number. Here the
  operations of the two threads do not overlap; a thread that waits in a close is woken
  any number of times, and once more after the last signal.
\<close>

section \<open>Operations of two threads\<close>

datatype ss_op = SizeOp | PieceOp nat "byte list" | CloseOp

datatype ss_event = Does ss_op | Wakes

datatype closer = NotYet | WaitsAt ptr | Done

definition closes :: "closing option \<Rightarrow> (store \<times> closer) option" where
  "closes x = map_option (\<lambda>y. case y of Waiting p st \<Rightarrow> (st, WaitsAt p) | Closed st \<Rightarrow> (st, Done)) x"

fun ss_step :: "u64 \<Rightarrow> file_id \<Rightarrow> ss_event \<Rightarrow> store \<times> closer \<Rightarrow> (store \<times> closer) option" where
  "ss_step n fid (Does SizeOp) (st, w) = map_option (\<lambda>st'. (st', w)) (SS_SetPendingFileSize st fid n)"
| "ss_step n fid (Does (PieceOp off d)) (st, w) =
     map_option (\<lambda>st'. (st', w)) (SS_WriteData2PendingFile st fid d (of_nat off))"
| "ss_step n fid (Does CloseOp) (st, w) = closes (SS_ClosePendingFile st fid)"
| "ss_step n fid Wakes (st, w) = (case w of WaitsAt p \<Rightarrow> closes (close_wait st p) | _ \<Rightarrow> Some (st, w))"

fun ss_run :: "u64 \<Rightarrow> file_id \<Rightarrow> ss_event list \<Rightarrow> store \<times> closer \<Rightarrow> (store \<times> closer) option" where
  "ss_run n fid [] x = Some x"
| "ss_run n fid (e # es) x = Option.bind (ss_step n fid e x) (ss_run n fid es)"

lemma ss_run_append: "ss_run n fid (xs @ ys) x = Option.bind (ss_run n fid xs x) (ss_run n fid ys)"
  by (induction xs arbitrary: x) (auto split: Option.bind_split)

fun ops_of :: "ss_event list \<Rightarrow> ss_op list" where
  "ops_of [] = []"
| "ops_of (Does x # es) = x # ops_of es"
| "ops_of (Wakes # es) = ops_of es"

lemma ops_of_append: "ops_of (xs @ ys) = ops_of xs @ ops_of ys"
  by (induction xs rule: ops_of.induct) auto

lemma ops_of_map: "ops_of (map Does xs) = xs"
  by (induction xs) auto

fun pieces_in :: "ss_op list \<Rightarrow> (nat \<times> byte list) list" where
  "pieces_in [] = []"
| "pieces_in (PieceOp off d # xs) = (off, d) # pieces_in xs"
| "pieces_in (_ # xs) = pieces_in xs"

lemma pieces_in_append: "pieces_in (xs @ ys) = pieces_in xs @ pieces_in ys"
  by (induction xs rule: pieces_in.induct) auto

lemma pieces_in_mset: "mset (pieces_in xs) = image_mset (\<lambda>x. case x of PieceOp off d \<Rightarrow> (off, d))
    (filter_mset (\<lambda>x. \<exists>off d. x = PieceOp off d) (mset xs))"
  by (induction xs rule: pieces_in.induct) auto

section \<open>The waiting thread keeps its object\<close>

definition holds :: "store \<Rightarrow> file_id \<Rightarrow> ptr \<Rightarrow> bool" where
  "holds st fid p \<longleftrightarrow> (\<exists>ob. objs st p = Some ob \<and> pf_id ob = fid)"

lemma holds_Get:
  assumes "table_inv st" "holds st fid p" "ok_id fid"
  shows "GetPendingFile st fid = Some (p, st)"
proof -
  obtain B where B: "buckets_ok st B" using assms(1) by (auto simp: table_inv_def)
  from Find_cases [OF B assms(3)] show ?thesis
  proof cases
    case (1 q ob)
    then have "q = p" using assms(2) ids_uniqueD [OF buckets_okD(3) [OF B]] by (auto simp: holds_def)
    then show ?thesis using 1 by (simp add: Get_found)
  next
    case 2
    then show ?thesis using assms(2) by (auto simp: holds_def)
  qed
qed

lemma holds_close: "table_inv st \<Longrightarrow> holds st fid p \<Longrightarrow> ok_id fid \<Longrightarrow> close_wait st p = SS_ClosePendingFile st fid"
  by (simp add: SS_ClosePendingFile_def holds_Get)

lemma holds_Set:
  assumes "table_inv st" "holds st fid p" "ok_id fid" "SS_SetPendingFileSize st fid n = Some st'"
  shows "holds st' fid p"
  using assms(2,4) holds_Get [OF assms(1-3)]
  by (auto simp: SS_SetPendingFileSize_def holds_def put_obj_def)

lemma io_objs [simp]: "objs (do_lseek st fd off) = objs st" "objs (do_write st fd d) = objs st"
  by (auto simp: do_lseek_def do_write_def split: option.split prod.split)

lemma holds_Write:
  assumes "table_inv st" "holds st fid p" "ok_id fid" "SS_WriteData2PendingFile st fid d off = Some st'"
  shows "holds st' fid p"
proof -
  have "holds st2 fid p" if "wd_open st fid p = Some st2" for st2
    using that assms(2) by (auto simp: wd_open_def open_wr_def holds_def put_obj_def split: Option.bind_splits if_splits)
  moreover have "holds st2' fid p" if "wd_lseek st2 p off = Some st2'" "holds st2 fid p" for st2 st2'
    using that by (auto simp: wd_lseek_def holds_def)
  moreover have "holds st2' fid p" if "wd_write st2 p d = Some st2'" "holds st2 fid p" for st2 st2'
    using that by (auto simp: wd_write_def holds_def)
  moreover have "holds st2' fid p" if "wd_account st2 p (length d) = Some st2'" "holds st2 fid p" for st2 st2'
    using that by (auto simp: wd_account_def holds_def put_obj_def)
  ultimately show ?thesis
    using assms(4) holds_Get [OF assms(1-3)]
    by (auto simp: SS_WriteData2PendingFile_def split: Option.bind_splits)
qed

section \<open>What has been done so far\<close>

definition so_far :: "store \<Rightarrow> file_id \<Rightarrow> byte list \<Rightarrow> ss_op list \<Rightarrow> store \<Rightarrow> bool" where
  "so_far st0 fid c qs st \<longleftrightarrow> store_inv st
     \<and> file_size (entry_of st fid) = (if SizeOp \<in> set qs then of_nat (length c) else -1)
     \<and> dl_size (entry_of st fid) = of_nat (total (pieces_in qs))
     \<and> (\<forall>k. k \<noteq> fid \<longrightarrow> pending st k = pending st0 k)
     \<and> disk st = (if pieces_in qs = [] then disk st0
         else (disk st0)(file_name fid \<mapsto> splices [] (pieces_in qs)))"

definition waits_ok :: "store \<Rightarrow> file_id \<Rightarrow> ss_op list \<Rightarrow> closer \<Rightarrow> bool" where
  "waits_ok st fid qs w = (case w of
     NotYet \<Rightarrow> CloseOp \<notin> set qs | WaitsAt p \<Rightarrow> CloseOp \<in> set qs \<and> holds st fid p | Done \<Rightarrow> False)"

definition new_upload :: "store \<Rightarrow> file_id \<Rightarrow> bool" where
  "new_upload st fid \<longleftrightarrow> store_inv st \<and> ok_id fid \<and> pending st fid = None \<and> disk st (file_name fid) = None"

lemma so_far_start: "new_upload st fid \<Longrightarrow> so_far st fid c [] st \<and> waits_ok st fid [] NotYet"
  by (simp add: new_upload_def so_far_def waits_ok_def entry_of_def fresh_pfile_def total_def)

lemma so_far_contents:
  "new_upload st0 fid \<Longrightarrow> so_far st0 fid c qs st \<Longrightarrow> contents st fid = splices [] (pieces_in qs)"
  by (auto simp: so_far_def contents_def new_upload_def splices_def)

lemma step_size:
  assumes "ok_id fid" "so_far st0 fid c qs st" "waits_ok st fid qs w"
  shows "\<exists>st'. SS_SetPendingFileSize st fid (of_nat (length c)) = Some st'
    \<and> so_far st0 fid c (qs @ [SizeOp]) st' \<and> waits_ok st' fid (qs @ [SizeOp]) w"
proof -
  have i: "store_inv st" using assms(2) by (simp add: so_far_def)
  obtain st' where s: "SS_SetPendingFileSize st fid (of_nat (length c)) = Some st'" "store_inv st'"
    "pending st' = (pending st)(fid \<mapsto> (entry_of st fid)\<lparr>file_size := of_nat (length c)\<rparr>)" "same_files st st'"
    using SetPendingFileSize_map [OF i assms(1)] by blast
  have "so_far st0 fid c (qs @ [SizeOp]) st'"
    using assms(2) s by (auto simp: so_far_def entry_of_def same_files_def pieces_in_append)
  moreover have "waits_ok st' fid (qs @ [SizeOp]) w"
    using assms(3) holds_Set [OF store_invD(1) [OF i] _ assms(1) s(1)]
    by (auto simp: waits_ok_def split: closer.splits)
  ultimately show ?thesis using s(1) by blast
qed

lemma step_piece:
  assumes "new_upload st0 fid" "so_far st0 fid c qs st" "waits_ok st fid qs w" "off < 2 ^ 64"
  shows "\<exists>st'. SS_WriteData2PendingFile st fid d (of_nat off) = Some st'
    \<and> so_far st0 fid c (qs @ [PieceOp off d]) st' \<and> waits_ok st' fid (qs @ [PieceOp off d]) w"
proof -
  have i: "store_inv st" and fid: "ok_id fid" using assms(1,2) by (simp_all add: so_far_def new_upload_def)
  have off: "unat (of_nat off :: u64) = off" using assms(4) by (simp add: unat_of_nat)
  obtain st' fd where s: "SS_WriteData2PendingFile st fid d (of_nat off) = Some st'" "store_inv st'"
    "pending st' = (pending st)(fid \<mapsto> (entry_of st fid)
        \<lparr>opened_fd := fd, dl_size := dl_size (entry_of st fid) + of_nat (length d)\<rparr>)"
    "disk st' = (disk st)(file_name fid \<mapsto> splice (contents st fid) off d)"
    using WriteData_map [OF i fid, of d "of_nat off"] off by auto
  have "splices [] (pieces_in qs @ [(off, d)]) = splice (contents st fid) off d"
    using so_far_contents [OF assms(1,2)] by (simp add: splices_def)
  then have "so_far st0 fid c (qs @ [PieceOp off d]) st'"
    using assms(2) s by (auto simp: so_far_def entry_of_def pieces_in_append total_def)
  moreover have "waits_ok st' fid (qs @ [PieceOp off d]) w"
    using assms(3) holds_Write [OF store_invD(1) [OF i] _ fid s(1)]
    by (auto simp: waits_ok_def split: closer.splits)
  ultimately show ?thesis using s(1) by blast
qed

text \<open>A close, or its repetition by the thread that waits.\<close>

lemma step_close:
  assumes "new_upload st0 fid" "so_far st0 fid c qs st"
  shows "if file_size (entry_of st fid) = dl_size (entry_of st fid)
    then \<exists>st'. closes (SS_ClosePendingFile st fid) = Some (st', Done) \<and> store_inv st'
      \<and> pending st' = pending st0 \<and> disk st' = disk st
    else \<exists>p st'. closes (SS_ClosePendingFile st fid) = Some (st', WaitsAt p)
      \<and> so_far st0 fid c qs st' \<and> holds st' fid p"
proof -
  have i: "store_inv st" and fid: "ok_id fid" and none: "pending st0 fid = None"
    using assms by (simp_all add: so_far_def new_upload_def)
  have id: "pf_id (entry_of st fid) = fid"
    using pending_files.key_entry [OF store_invD(1) [OF i]] by (simp add: entry_of_eq)
  show ?thesis
  proof (cases "file_size (entry_of st fid) = dl_size (entry_of st fid)")
    case True
    with ClosePendingFile_map [OF i fid] obtain st' where s: "SS_ClosePendingFile st fid = Some (Closed st')"
      "store_inv st'" "pending st' = (pending st)(fid := None)" "disk st' = disk st"
      by auto
    have "pending st' = pending st0" using s(3) assms(2) none by (auto simp: so_far_def fun_eq_iff)
    then show ?thesis using True s by (simp add: closes_def)
  next
    case False
    with ClosePendingFile_map [OF i fid] obtain p st' where s: "SS_ClosePendingFile st fid = Some (Waiting p st')"
      "store_inv st'" "pending st' = (pending st)(fid \<mapsto> entry_of st fid)"
      "objs st' p = Some (entry_of st fid)" "disk st' = disk st"
      by auto
    have "entry_of st' fid = entry_of st fid" using s(3) by (simp add: entry_of_def)
    then have "so_far st0 fid c qs st'" using assms(2) s by (simp add: so_far_def)
    then show ?thesis using False s(1,4) id by (auto simp: closes_def holds_def)
  qed
qed

section \<open>The messages of an upload\<close>

definition upload_ops :: "byte list \<Rightarrow> ss_op list" where
  "upload_ops c = SizeOp # map (\<lambda>x. PieceOp (fst x) (snd x)) (client_pieces c 0) @ [CloseOp]"

fun evens :: "'a list \<Rightarrow> 'a list" where
  "evens [] = []"
| "evens [x] = [x]"
| "evens (x # y # zs) = x # evens zs"

definition odds :: "'a list \<Rightarrow> 'a list" where
  "odds xs = evens (tl xs)"

lemma evens_Cons: "evens (x # xs) = x # odds xs"
  by (cases xs) (simp_all add: odds_def)

lemma odds_Cons [simp]: "odds (x # xs) = evens xs"
  by (simp add: odds_def)

lemma evens_odds_mset: "mset (evens xs) + mset (odds xs) = mset xs"
  by (induction xs) (simp_all add: evens_Cons odds_def add.commute)

lemma two_ways_mset: "ops \<in> shuffles (evens xs) (odds xs) \<Longrightarrow> mset ops = mset xs"
  by (simp add: mset_shuffles evens_odds_mset)

lemma pieces_in_map [simp]: "pieces_in (map (\<lambda>x. PieceOp (fst x) (snd x)) ps) = ps"
  by (induction ps) simp_all

lemma pieces_in_upload [simp]: "pieces_in (upload_ops c) = client_pieces c 0"
  by (simp add: upload_ops_def pieces_in_append)

lemma client_pieces_nonempty:
  "(length c - offset) mod 8141 \<noteq> 0 \<Longrightarrow> x \<in> set (client_pieces c offset) \<Longrightarrow> snd x \<noteq> []"
proof (induction offset rule: client_pieces_induct [of c])
  case (step offset)
  show ?case
  proof (cases "length (take 8141 (drop offset c)) < 8141")
    case True
    then have "x = (offset, take 8141 (drop offset c))"
      using step.prems(2) by (subst (asm) client_pieces.simps) (simp add: Let_def split: if_splits)
    then show ?thesis using step.prems(1) by auto
  next
    case False
    then have n: "offset + 8141 \<le> length c" by (auto simp: min_def split: if_splits)
    then have m: "(length c - (offset + 8141)) mod 8141 = (length c - offset) mod 8141"
      by (simp add: le_mod_geq)
    have "x = (offset, take 8141 (drop offset c)) \<or> x \<in> set (client_pieces c (offset + 8141))"
      using step.prems(2) False by (subst (asm) client_pieces.simps) (simp add: Let_def)
    then show ?thesis
    proof
      assume "x = (offset, take 8141 (drop offset c))"
      then show ?thesis using n by auto
    next
      assume "x \<in> set (client_pieces c (offset + 8141))"
      then show ?thesis using step.IH [OF False] step.prems(1) m by simp
    qed
  qed
qed

lemma total_mset: "mset ps = mset qs \<Longrightarrow> total ps = total qs"
proof -
  assume "mset ps = mset qs"
  moreover have "total xs = (\<Sum>x \<in># mset xs. length (snd x))" for xs
    unfolding total_def by (metis mset_map sum_mset_sum_list)
  ultimately show ?thesis by (simp only:)
qed

lemma total_append: "total (ps @ qs) = total ps + total qs"
  by (simp add: total_def)

lemma pieces_in_perm: "mset xs = mset ys \<Longrightarrow> mset (pieces_in xs) = mset (pieces_in ys)"
  by (simp add: pieces_in_mset)

lemma total_upload: "length c < 2 ^ 63 \<Longrightarrow> total (client_pieces c 0) = length c"
  using client_pieces_of [of c] by (simp add: pieces_of_def)

text \<open>Only when every message has been handled do the sizes agree.\<close>

lemma sizes_agree_end:
  assumes "length c < 2 ^ 63" "length c mod 8141 \<noteq> 0" "mset (qs @ rest) = mset (upload_ops c)"
    and eq: "(if SizeOp \<in> set qs then of_nat (length c) else -1) = (of_nat (total (pieces_in qs)) :: u64)"
    and close: "CloseOp \<in> set qs"
  shows "rest = []"
proof (rule ccontr)
  assume "rest \<noteq> []"
  then obtain x xs where x: "rest = x # xs" by (cases rest) auto
  have t: "total (pieces_in qs) + total (pieces_in rest) = length c"
    using total_mset [OF pieces_in_perm [OF assms(3)]] total_upload [OF assms(1)]
    by (simp add: pieces_in_append total_append)
  have "(-1 :: u64) \<noteq> of_nat (total (pieces_in qs))"
  proof
    assume "(-1 :: u64) = of_nat (total (pieces_in qs))"
    then have "of_nat (Suc (total (pieces_in qs))) = (0 :: u64)" by (simp flip: \<open>-1 = _\<close>)
    then have "unat (of_nat (Suc (total (pieces_in qs))) :: u64) = 0" by (simp only: unat_0)
    then have "Suc (total (pieces_in qs)) mod 2 ^ 64 = 0" by (simp only: unat_of_nat) simp
    moreover have "Suc (total (pieces_in qs)) < 2 ^ 64" using t assms(1) by simp
    ultimately show False by simp
  qed
  with eq have s: "SizeOp \<in> set qs" by (auto split: if_splits)
  then have "unat (of_nat (length c) :: u64) = unat (of_nat (total (pieces_in qs)) :: u64)" using eq by simp
  then have z: "total (pieces_in rest) = 0" using t assms(1) by (simp add: unat_of_nat)
  have cnt: "count (mset qs) y + count (mset rest) y = count (mset (upload_ops c)) y" for y
    using assms(3) by (metis count_union mset_append)
  have one: "count (mset (upload_ops c)) SizeOp = 1" "count (mset (upload_ops c)) CloseOp = 1"
    by (auto simp: upload_ops_def count_eq_zero_iff)
  have "count (mset qs) SizeOp \<ge> 1" "count (mset qs) CloseOp \<ge> 1" using s close by (simp_all add: Suc_le_eq)
  then have "count (mset rest) SizeOp = 0" "count (mset rest) CloseOp = 0"
    using cnt [of SizeOp] cnt [of CloseOp] one by linarith+
  then have "x \<noteq> SizeOp" "x \<noteq> CloseOp" using x by auto
  then obtain off d where p: "x = PieceOp off d" by (cases x) auto
  have "(off, d) \<in> set (pieces_in (qs @ rest))" using x p by (simp add: pieces_in_append)
  then have "(off, d) \<in> set (client_pieces c 0)"
    using mset_eq_setD [OF pieces_in_perm [OF assms(3)]] by simp
  then have "d \<noteq> []" using client_pieces_nonempty [of c 0 "(off, d)"] assms(2) by simp
  then show False using z x p by (simp add: total_def)
qed

section \<open>Every interleaving\<close>

definition stored :: "store \<Rightarrow> file_id \<Rightarrow> byte list \<Rightarrow> store \<Rightarrow> bool" where
  "stored st fid c st' \<longleftrightarrow> store_inv st' \<and> pending st' = pending st \<and> disk st' = (disk st)(file_name fid \<mapsto> c)"

lemma step_close_upload:
  assumes n: "new_upload st0 fid" and s: "so_far st0 fid c qs st" and c: "length c < 2 ^ 63" "length c mod 8141 \<noteq> 0"
    and q: "mset (qs @ rest) = mset (upload_ops c)" "CloseOp \<in> set qs"
  shows "\<exists>st' w. closes (SS_ClosePendingFile st fid) = Some (st', w)
    \<and> (if w = Done then rest = [] \<and> stored st0 fid c st' else so_far st0 fid c qs st' \<and> waits_ok st' fid qs w)
    \<and> (rest = [] \<longrightarrow> w = Done)"
proof (cases "file_size (entry_of st fid) = dl_size (entry_of st fid)")
  case True
  have "file_size (entry_of st fid) = (if SizeOp \<in> set qs then of_nat (length c) else -1)"
    "dl_size (entry_of st fid) = of_nat (total (pieces_in qs))"
    using s unfolding so_far_def by blast+
  with True have "(if SizeOp \<in> set qs then of_nat (length c) else -1) = (of_nat (total (pieces_in qs)) :: u64)"
    by (simp only:)
  then have rest: "rest = []" by (rule sizes_agree_end [OF c q(1) _ q(2)])
  have "length c < 2 ^ 64" using c(1) by simp
  moreover have "mset (pieces_in qs) = mset (client_pieces c 0)"
    using pieces_in_perm [of qs "upload_ops c"] q(1) rest by simp
  ultimately have "pieces_of c (pieces_in qs)" using pieces_of_perm [OF client_pieces_of] by blast
  then have "pieces_in qs \<noteq> []" "splices [] (pieces_in qs) = c"
    using splices_whole by (auto simp: pieces_of_def)
  then show ?thesis using step_close [OF n s] True rest s by (auto simp: stored_def so_far_def)
next
  case False
  have "rest \<noteq> []"
  proof
    assume r: "rest = []"
    then have "SizeOp \<in> set qs" using mset_eq_setD [OF q(1)] by (simp add: upload_ops_def)
    moreover have "total (pieces_in qs) = length c"
      using total_mset [OF pieces_in_perm [of qs "upload_ops c"]] total_upload [OF c(1)] q(1) r by simp
    ultimately show False using False s by (simp add: so_far_def)
  qed
  moreover obtain p st' where "closes (SS_ClosePendingFile st fid) = Some (st', WaitsAt p)"
    "so_far st0 fid c qs st'" "holds st' fid p"
    using step_close [OF n s] False by auto
  ultimately show ?thesis using q(2) by (auto simp: waits_ok_def)
qed

text \<open>What holds after the events so far, \<open>rest\<close> being the messages still to come.\<close>

definition upload_inv :: "store \<Rightarrow> file_id \<Rightarrow> byte list \<Rightarrow> ss_op list \<Rightarrow> ss_op list \<Rightarrow> store \<times> closer \<Rightarrow> bool" where
  "upload_inv st0 fid c qs rest x \<longleftrightarrow>
     (if snd x = Done then rest = [] \<and> stored st0 fid c (fst x)
      else so_far st0 fid c qs (fst x) \<and> waits_ok (fst x) fid qs (snd x))"

lemma upload_step:
  assumes n: "new_upload st0 fid" and c: "length c < 2 ^ 63" "length c mod 8141 \<noteq> 0"
    and inv: "upload_inv st0 fid c qs (ops_of [e] @ rest) x"
    and q: "mset (qs @ ops_of [e] @ rest) = mset (upload_ops c)"
  shows "\<exists>x'. ss_step (of_nat (length c)) fid e x = Some x' \<and> upload_inv st0 fid c (qs @ ops_of [e]) rest x'
    \<and> (e = Wakes \<and> rest = [] \<longrightarrow> snd x' = Done)"
proof -
  obtain st w where x: "x = (st, w)" by (cases x)
  have fid: "ok_id fid" using n by (simp add: new_upload_def)
  show ?thesis
  proof (cases e)
    case (Does op)
    then have nd: "w \<noteq> Done" and s: "so_far st0 fid c qs st" "waits_ok st fid qs w"
      using inv x by (auto simp: upload_inv_def split: if_splits)
    show ?thesis
    proof (cases op)
      case SizeOp
      then show ?thesis using step_size [OF fid s] Does x nd by (auto simp: upload_inv_def)
    next
      case (PieceOp off d)
      have "(off, d) \<in> set (pieces_in (upload_ops c))"
        using mset_eq_setD [OF pieces_in_perm [OF q]] Does PieceOp by (auto simp: pieces_in_append)
      then have "off < 2 ^ 64"
        using piece_offset [OF client_pieces_of, of c "(off, d)"] c(1) by simp
      then show ?thesis using step_piece [OF n s, of off d] Does PieceOp x nd by (auto simp: upload_inv_def)
    next
      case CloseOp
      have "so_far st0 fid c (qs @ [CloseOp]) st" using s(1) by (simp add: so_far_def pieces_in_append)
      moreover have "mset ((qs @ [CloseOp]) @ rest) = mset (upload_ops c)" using q Does CloseOp by simp
      ultimately obtain st' w' where "closes (SS_ClosePendingFile st fid) = Some (st', w')"
        "upload_inv st0 fid c (qs @ [CloseOp]) rest (st', w')"
        using step_close_upload [OF n _ c, of "qs @ [CloseOp]" st rest] by (auto simp: upload_inv_def)
      then show ?thesis using Does CloseOp x by auto
    qed
  next
    case Wakes
    show ?thesis
    proof (cases w)
      case NotYet
      then have s: "CloseOp \<notin> set qs" using inv x by (simp add: upload_inv_def waits_ok_def)
      have "CloseOp \<in> set (upload_ops c)" by (simp add: upload_ops_def)
      then have "rest \<noteq> []" using s mset_eq_setD [OF q] Wakes by auto
      then show ?thesis using inv Wakes x NotYet by simp
    next
      case (WaitsAt p)
      then have s: "so_far st0 fid c qs st" "CloseOp \<in> set qs" "holds st fid p"
        using inv x by (auto simp: upload_inv_def waits_ok_def)
      then have "close_wait st p = SS_ClosePendingFile st fid"
        using holds_close [OF _ _ fid] store_invD(1) by (auto simp: so_far_def)
      moreover have "mset (qs @ rest) = mset (upload_ops c)" using q Wakes by simp
      then obtain st' w' where "closes (SS_ClosePendingFile st fid) = Some (st', w')"
        "upload_inv st0 fid c qs rest (st', w')" "rest = [] \<longrightarrow> w' = Done"
        unfolding upload_inv_def fst_conv snd_conv using step_close_upload [OF n s(1) c _ s(2)] by blast
      ultimately show ?thesis using Wakes WaitsAt x by auto
    next
      case Done
      then show ?thesis using inv Wakes x by (simp add: upload_inv_def)
    qed
  qed
qed

lemma upload_run:
  assumes n: "new_upload st0 fid" and c: "length c < 2 ^ 63" "length c mod 8141 \<noteq> 0"
    and q: "mset (ops_of evs @ rest) = mset (upload_ops c)"
  shows "\<exists>x. ss_run (of_nat (length c)) fid evs (st0, NotYet) = Some x \<and> upload_inv st0 fid c (ops_of evs) rest x"
  using q
proof (induction evs arbitrary: rest rule: rev_induct)
  case Nil
  then show ?case using so_far_start [OF n] by (simp add: upload_inv_def)
next
  case (snoc e evs)
  have q: "mset (ops_of evs @ ops_of [e] @ rest) = mset (upload_ops c)"
    using snoc.prems by (simp add: ops_of_append)
  obtain x where "ss_run (of_nat (length c)) fid evs (st0, NotYet) = Some x"
    "upload_inv st0 fid c (ops_of evs) (ops_of [e] @ rest) x"
    using snoc.IH [OF q] by blast
  with upload_step [OF n c this(2) q] show ?case by (auto simp: ss_run_append ops_of_append)
qed

lemma upload_any_order:
  assumes n: "new_upload st fid" and c: "length c < 2 ^ 63" "length c mod 8141 \<noteq> 0"
    and q: "mset (ops_of evs) = mset (upload_ops c)"
  shows "\<exists>st'. ss_run (of_nat (length c)) fid (evs @ [Wakes]) (st, NotYet) = Some (st', Done) \<and> stored st fid c st'"
proof -
  have "mset (ops_of evs @ []) = mset (upload_ops c)" using q by simp
  from upload_run [OF n c this] obtain x where x: "ss_run (of_nat (length c)) fid evs (st, NotYet) = Some x"
    "upload_inv st fid c (ops_of evs) [] x" by blast
  have "mset (ops_of evs @ ops_of [Wakes] @ []) = mset (upload_ops c)" using q by simp
  moreover have "upload_inv st fid c (ops_of evs) (ops_of [Wakes] @ []) x" using x(2) by simp
  ultimately have "\<exists>x'. ss_step (of_nat (length c)) fid Wakes x = Some x'
      \<and> upload_inv st fid c (ops_of evs @ ops_of [Wakes]) [] x' \<and> (Wakes = Wakes \<and> [] = [] \<longrightarrow> snd x' = Done)"
    using upload_step [OF n c] by blast
  then obtain x' where "ss_step (of_nat (length c)) fid Wakes x = Some x'"
    "upload_inv st fid c (ops_of evs) [] x'" "snd x' = Done"
    by auto
  then show ?thesis using x(1) by (cases x') (auto simp: ss_run_append upload_inv_def)
qed

section \<open>A last message without data\<close>

lemma swap_last: "xs @ [b, a] \<in> shuffles (evens (xs @ [a, b])) (odds (xs @ [a, b]))"
proof (induction xs)
  case Nil
  then show ?case by (simp add: odds_def)
next
  case (Cons x xs)
  then have "xs @ [b, a] \<in> shuffles (odds (xs @ [a, b])) (evens (xs @ [a, b]))"
    by (simp add: shuffles_commutes)
  then show ?case by (simp add: evens_Cons Cons_in_shuffles_leftI)
qed

lemma client_pieces_last:
  "offset \<le> length c \<Longrightarrow> (length c - offset) mod 8141 = 0 \<Longrightarrow>
    \<exists>ps. client_pieces c offset = ps @ [(length c, [])]"
proof (induction offset rule: client_pieces_induct [of c])
  case (step offset)
  show ?case
  proof (cases "length (take 8141 (drop offset c)) < 8141")
    case True
    then have "length c - offset < 8141" by (simp add: min_def split: if_splits)
    then have "offset = length c" using step.prems by simp
    then show ?thesis by (subst client_pieces.simps) simp
  next
    case False
    then have n: "offset + 8141 \<le> length c" by (auto simp: min_def split: if_splits)
    then have m: "(length c - (offset + 8141)) mod 8141 = 0" using step.prems(2) by (simp add: le_mod_geq)
    from step.IH [OF False n m] obtain ps where "client_pieces c (offset + 8141) = ps @ [(length c, [])]" ..
    then have "client_pieces c offset = ((offset, take 8141 (drop offset c)) # ps) @ [(length c, [])]"
      using False by (subst client_pieces.simps) (simp add: Let_def)
    then show ?thesis by blast
  qed
qed

lemma run_pieces:
  assumes "new_upload st0 fid" "so_far st0 fid c qs st" "waits_ok st fid qs w" "\<forall>x \<in> set ps. fst x < 2 ^ 64"
  shows "\<exists>st'. ss_run n fid (map Does (map (\<lambda>x. PieceOp (fst x) (snd x)) ps)) (st, w) = Some (st', w)
    \<and> so_far st0 fid c (qs @ map (\<lambda>x. PieceOp (fst x) (snd x)) ps) st'
    \<and> waits_ok st' fid (qs @ map (\<lambda>x. PieceOp (fst x) (snd x)) ps) w"
  using assms(2-4)
proof (induction ps arbitrary: st qs)
  case (Cons x ps)
  obtain st1 where "SS_WriteData2PendingFile st fid (snd x) (of_nat (fst x)) = Some st1"
    "so_far st0 fid c (qs @ [PieceOp (fst x) (snd x)]) st1" "waits_ok st1 fid (qs @ [PieceOp (fst x) (snd x)]) w"
    using step_piece [OF assms(1) Cons.prems(1,2), of "fst x" "snd x"] Cons.prems(3) by auto
  then show ?case using Cons.IH [of "qs @ [PieceOp (fst x) (snd x)]" st1] Cons.prems(3) by simp
qed simp

lemma late_empty_piece:
  assumes n: "new_upload st fid" and c: "length c < 2 ^ 63" "length c mod 8141 = 0"
  shows "\<exists>ops st' ob. ops \<in> shuffles (evens (upload_ops c)) (odds (upload_ops c))
    \<and> ss_run (of_nat (length c)) fid (map Does ops) (st, NotYet) = Some (st', Done)
    \<and> pending st' fid = Some ob \<and> file_size ob = -1 \<and> dl_size ob = 0 \<and> 0 \<le> opened_fd ob
    \<and> disk st' = (disk st)(file_name fid \<mapsto> c) \<and> store_inv st'"
proof -
  have fid: "ok_id fid" using n by (simp add: new_upload_def)
  obtain ps where ps: "client_pieces c 0 = ps @ [(length c, [])]" using client_pieces_last [of 0 c] c(2) by auto
  let ?ps = "map (\<lambda>x. PieceOp (fst x) (snd x)) ps" and ?last = "PieceOp (length c) []"
  let ?n = "of_nat (length c) :: u64"
  have up: "upload_ops c = (SizeOp # ?ps) @ [?last, CloseOp]" by (simp add: upload_ops_def ps)
  have sh: "(SizeOp # ?ps) @ [CloseOp, ?last] \<in> shuffles (evens (upload_ops c)) (odds (upload_ops c))"
    unfolding up by (rule swap_last)
  have c64: "length c < 2 ^ 64" using c(1) by simp
  note pc = client_pieces_of [OF c64, unfolded ps]
  have off: "\<forall>x \<in> set ps. fst x < 2 ^ 64" using piece_offset [OF pc] by simp
  obtain st1 where s1: "SS_SetPendingFileSize st fid ?n = Some st1" "so_far st fid c [SizeOp] st1"
    "waits_ok st1 fid [SizeOp] NotYet"
    using step_size [OF fid] so_far_start [OF n] by fastforce
  obtain st2 where s2: "ss_run ?n fid (map Does ?ps) (st1, NotYet) = Some (st2, NotYet)"
    "so_far st fid c (SizeOp # ?ps) st2"
    using run_pieces [OF n s1(2,3) off, of ?n] by auto
  have "total ps = length c" using total_upload [OF c(1)] ps by (simp add: total_def)
  then have "file_size (entry_of st2 fid) = dl_size (entry_of st2 fid)"
    using s2(2) by (simp add: so_far_def)
  with step_close [OF n s2(2)] obtain st3 where s3: "closes (SS_ClosePendingFile st2 fid) = Some (st3, Done)"
    "store_inv st3" "pending st3 = pending st" "disk st3 = disk st2"
    by auto
  have none: "pending st fid = None" "disk st (file_name fid) = None" using n by (simp_all add: new_upload_def)
  obtain st4 fd where s4: "SS_WriteData2PendingFile st3 fid [] ?n = Some st4" "store_inv st4"
    "pending st4 = (pending st3)(fid \<mapsto> (entry_of st3 fid)\<lparr>opened_fd := fd, dl_size := dl_size (entry_of st3 fid)\<rparr>)"
    "disk st4 = (disk st3)(file_name fid \<mapsto> contents st3 fid)" "0 \<le> fd"
    using WriteData_map [OF s3(2) fid, of "[]" ?n] by (auto simp: splice_def)
  have ent: "entry_of st3 fid = fresh_pfile fid" using none s3(3) by (simp add: entry_of_def)
  have "splices [] (ps @ [(length c, [])]) = splices [] ps" by (simp add: splices_def splice_def)
  moreover have "splices [] (ps @ [(length c, [])]) = c" using pc splices_whole by (simp add: pieces_of_def)
  ultimately have sp: "splices [] ps = c" by simp
  have "contents st3 fid = c"
    using s2(2) s3(4) none sp by (cases "ps = []") (auto simp: so_far_def contents_def splices_def)
  moreover have "(disk st3)(file_name fid \<mapsto> c) = (disk st)(file_name fid \<mapsto> c)"
    using s2(2) s3(4) by (auto simp: so_far_def)
  ultimately have "disk st4 = (disk st)(file_name fid \<mapsto> c)" using s4(4) by simp
  moreover have "ss_run ?n fid (map Does ((SizeOp # ?ps) @ [CloseOp, ?last])) (st, NotYet) = Some (st4, Done)"
    using s1(1) s2(1) s3(1) s4(1) by (simp add: ss_run_append)
  ultimately show ?thesis using sh s4(2,3,5) ent by (auto simp: fresh_pfile_def)
qed

section \<open>Blocks perform the operations\<close>

text \<open>What the loop of a thread does with the block of a message.\<close>

definition performs :: "(sock \<Rightarrow> cbuf) \<Rightarrow> file_id \<Rightarrow> u64 \<Rightarrow> byte list \<Rightarrow> ss_op \<Rightarrow> bool" where
  "performs junk fid n m op \<longleftrightarrow> (\<forall>old rest st. length old = PACKAGE_SIZE \<longrightarrow>
     serve junk (arrived (package old m @ rest)) st =
       (case op of
          SizeOp \<Rightarrow> Option.bind (SS_SetPendingFileSize st fid n) (serve junk (arrived rest))
        | PieceOp off d \<Rightarrow> Option.bind (SS_WriteData2PendingFile st fid d (of_nat off)) (serve junk (arrived rest))
        | CloseOp \<Rightarrow>
            (case SS_ClosePendingFile st fid of
               None \<Rightarrow> None
             | Some (Waiting p st') \<Rightarrow> Some (Blocks p (arrived (drop 8182 old @ rest)) st')
             | Some (Closed st') \<Rightarrow> serve junk (arrived (drop 8182 old @ rest)) st')))"

lemma upload_performs:
  assumes "big junk" "ok_id fid" "length path \<le> 461"
  shows "list_all2 (performs junk fid (of_nat (length c))) (upload_msgs fid path c) (upload_ops c)"
proof -
  have h: "performs junk fid (of_nat (length c)) (header_msg fid (of_nat (length c)) path) SizeOp"
    using serve_header [OF assms(1,2)] assms(2,3) by (simp add: performs_def header_msg_def PACKAGE_SIZE_def ok_id_def)
  have d: "performs junk fid (of_nat (length c)) (data_msg fid (of_nat (fst x)) (snd x)) (PieceOp (fst x) (snd x))"
    if "x \<in> set (client_pieces c 0)" for x
    using serve_data [OF assms(1,2)] client_pieces_size [OF that] by (simp add: performs_def)
  have e: "performs junk fid (of_nat (length c)) (end_msg fid) CloseOp"
    using serve_end [OF assms(1,2)] by (simp add: performs_def)
  have "list_all2 (performs junk fid (of_nat (length c)))
      (map (\<lambda>x. data_msg fid (of_nat (fst x)) (snd x)) ps) (map (\<lambda>x. PieceOp (fst x) (snd x)) ps)"
    if "set ps \<subseteq> set (client_pieces c 0)" for ps
    using that d by (induction ps) auto
  from this [OF subset_refl] show ?thesis
    using h e by (simp add: upload_msgs_def upload_ops_def list_all2_appendI)
qed

section \<open>Two connections\<close>

text \<open>An upload sent on by the two reading processes over two connections is stored whatever the
  order in which the two threads get to their messages and the waiting thread is woken: each
  block performs one operation, every interleaving runs to its end without undefined behaviour,
  and after the last signal the file is closed with exactly the bytes sent, provided its length
  is no multiple of 8141.\<close>

theorem upload_two_connections:
  assumes "new_upload st fid" "length c < 2 ^ 63" "length c mod 8141 \<noteq> 0"
    and "ops_of evs \<in> shuffles (evens (upload_ops c)) (odds (upload_ops c))"
    and "big junk" "length path \<le> 461"
  shows "list_all2 (performs junk fid (of_nat (length c))) (upload_msgs fid path c) (upload_ops c)
    \<and> (\<exists>st'. ss_run (of_nat (length c)) fid (evs @ [Wakes]) (st, NotYet) = Some (st', Done)
        \<and> stored st fid c st')"
  using upload_performs [OF assms(5) _ assms(6), of fid c] upload_any_order [OF assms(1-3)]
    two_ways_mset [OF assms(4)] assms(1)
  by (auto simp: new_upload_def)

lemma sample_upload: "new_upload sample_store sample_id"
  by (simp add: new_upload_def sample_store)

lemma sample_ops: "upload_ops [1, 2, 3] = [SizeOp, PieceOp 0 [1, 2, 3], CloseOp]"
  unfolding upload_ops_def by (subst client_pieces.simps) simp

theorem upload_two_connections_witness:
  "list_all2 (performs (\<lambda>_. zeros PACKAGE_SIZE) sample_id (of_nat (length [1 :: byte, 2, 3])))
      (upload_msgs sample_id [0x66] [1, 2, 3]) (upload_ops [1, 2, 3])
    \<and> (\<exists>st'. ss_run (of_nat (length [1 :: byte, 2, 3])) sample_id
        ([Does SizeOp, Does CloseOp, Wakes, Does (PieceOp 0 [1, 2, 3])] @ [Wakes]) (sample_store, NotYet)
        = Some (st', Done) \<and> stored sample_store sample_id [1, 2, 3] st')"
  by (rule upload_two_connections [OF sample_upload]) (simp_all add: sample_ops odds_def big_def)

text \<open>A file whose length is a multiple of 8141 ends with a message without data, and that message
  and the end message travel over different connections: when the end message is handled
  first, the file is complete and closed, but the late message makes a new pending file of
  unknown size with an open descriptor, which no message of the upload closes.\<close>

theorem empty_piece_leaks:
  assumes "new_upload st fid" "length c < 2 ^ 63" "length c mod 8141 = 0"
  shows "\<exists>ops st' ob. ops \<in> shuffles (evens (upload_ops c)) (odds (upload_ops c))
    \<and> ss_run (of_nat (length c)) fid (map Does ops) (st, NotYet) = Some (st', Done)
    \<and> pending st' fid = Some ob \<and> file_size ob = -1 \<and> dl_size ob = 0 \<and> 0 \<le> opened_fd ob
    \<and> disk st' = (disk st)(file_name fid \<mapsto> c) \<and> store_inv st'"
  by (rule late_empty_piece [OF assms])

theorem empty_piece_leaks_witness:
  "\<exists>ops st' ob. ops \<in> shuffles (evens (upload_ops (zeros 8141))) (odds (upload_ops (zeros 8141)))
    \<and> ss_run (of_nat (length (zeros 8141))) sample_id (map Does ops) (sample_store, NotYet) = Some (st', Done)
    \<and> pending st' sample_id = Some ob \<and> file_size ob = -1 \<and> dl_size ob = 0 \<and> 0 \<le> opened_fd ob
    \<and> disk st' = (disk sample_store)(file_name sample_id \<mapsto> zeros 8141) \<and> store_inv st'"
  by (rule empty_piece_leaks [OF sample_upload]) simp_all

end
