(* ===== verification/SystemProps.thy ===== *)
theory SystemProps
  imports NewShm RelayProps TwoReaders
begin

text \<open>
  The file transfer as a whole: the set-up program, the transfer server, the two reading
  processes with their pipes and connections, and the storage server.
\<close>

section \<open>From a fresh system to the blocks of an upload\<close>

text \<open>The reading process of a pipe, attached.\<close>

definition reader_of :: "kernel \<Rightarrow> byte list \<Rightarrow> data_recv" where
  "reader_of k pipe = snd (snd (ShmReadInit k (read_process (pipe = pipe_name 0))))"

lemma attached_system:
  assumes "fresh_kernel k" "shm_keys k now1 = None" "sem_keys k now2 = None"
    and "0 < now1" "0 < now2" "int_range now1" "int_range now2"
  shows "\<exists>k1 w. new_main k now1 now2 = (0, k1) \<and> ShmReadInit k1 W_DataRecv = (True, k1, w) \<and> ready k1 w
    \<and> dr_id w = 0 \<and> (\<forall>p. w_shmctl (reader_of k1 p) = w_shmctl w \<and> w_semtable (reader_of k1 p) = w_semtable w)
    \<and> (\<forall>b. \<exists>d. ShmReadInit k1 (read_process b) = (True, k1, d) \<and> GetFifoName d = pipe_name (if b then 0 else 1))"
proof -
  obtain k1 c t where m: "new_main k now1 now2 = (0, k1)"
    and a: "\<And>i. ShmReadInit k1 (W_DataRecv\<lparr>dr_id := i\<rparr>)
        = (True, k1, W_DataRecv\<lparr>dr_id := i, w_shmctl := c, w_semtable := t\<rparr>)"
      "\<And>i. ready k1 (W_DataRecv\<lparr>dr_id := i, w_shmctl := c, w_semtable := t\<rparr>)"
    using setup_attach [OF assms] by blast
  let ?d = "\<lambda>i. W_DataRecv\<lparr>dr_id := i, w_shmctl := c, w_semtable := t\<rparr>"
  have "W_DataRecv\<lparr>dr_id := 0\<rparr> = W_DataRecv" by (simp add: W_DataRecv_def)
  then have w: "ShmReadInit k1 W_DataRecv = (True, k1, ?d 0)" using a(1) [of 0] by simp
  have r: "ShmReadInit k1 (read_process b) = (True, k1, ?d (if b then 0 else 1))" for b
    using a(1) [of "if b then 0 else 1"] by (simp add: read_process_def)
  have "w_shmctl (reader_of k1 p) = c \<and> w_semtable (reader_of k1 p) = t" for p
    by (simp add: reader_of_def r)
  moreover have "GetFifoName (?d i) = pipe_name i" for i by (simp add: GetFifoName_def pipe_name_def)
  ultimately show ?thesis
    by (intro exI [of _ k1] exI [of _ "?d 0"]) (auto simp: m w r a(2))
qed

lemma performs_blocks:
  assumes "list_all2 (performs junk fid n) msgs ops" "length olds = length msgs" "blocks olds"
  shows "list_all2 (\<lambda>b op. \<exists>old m. b = package old m \<and> length old = PACKAGE_SIZE \<and> performs junk fid n m op)
    (map2 package olds msgs) ops"
proof -
  have "length old = PACKAGE_SIZE" if "old \<in> set olds" for old
    using assms(3) that by (simp add: blocks_def)
  with assms(1,2) show ?thesis
  proof (induction msgs ops arbitrary: olds rule: list_all2_induct)
    case (Cons m ms op ops)
    then obtain old os where o: "olds = old # os" by (cases olds) auto
    then have "length old = PACKAGE_SIZE" using Cons.prems(2) by simp
    then show ?case using Cons o by auto
  qed simp
qed

text \<open>From a fresh system to the disk: the set-up program succeeds, the transfer server and both
  reading processes attach, and the messages of \<open>SendFile\<close> pass through the ring of blocks to the
  pipes of the two processes in turn, each block being read before the next is written. The block of each message performs one operation of the
  storage server; and whatever the order in which its two threads get to the blocks of the two
  processes, the file is stored and nothing stays pending.\<close>

theorem system_upload:
  assumes "fresh_kernel k" "shm_keys k now1 = None" "sem_keys k now2 = None"
    and "0 < now1" "0 < now2" "int_range now1" "int_range now2"
    and "new_upload st fid" "length c < 2 ^ 63" "length c mod 8141 \<noteq> 0" "length path \<le> 461" "big junk"
    and "length raw1 = 512" "length raw40 = 40" "length raw2 = PACKAGE_SIZE" "length raw3 = 512"
    and "ops_of evs \<in> shuffles (evens (upload_ops c)) (odds (upload_ops c))"
  shows "\<exists>k1 w msgs k2 w2 bs st'.
      new_main k now1 now2 = (0, k1) \<and> ShmReadInit k1 W_DataRecv = (True, k1, w)
    \<and> SendFile True (raw1, raw40, raw2, raw3) (hex (sha1sum fid) @ rest_out) path (Some c) = Some (SendReturns 0 msgs)
    \<and> hand_over (reader_of k1) raw k1 w msgs = Some (k2, w2, bs)
    \<and> map fst bs = map (\<lambda>n. pipe_name ((1 + int n) mod 2)) [0..<length msgs]
    \<and> list_all2 (\<lambda>b op. \<exists>old m. b = package old m \<and> length old = PACKAGE_SIZE
        \<and> performs junk fid (of_nat (length c)) m op) (map snd bs) (upload_ops c)
    \<and> ss_run (of_nat (length c)) fid (evs @ [Wakes]) (st, NotYet) = Some (st', Done) \<and> stored st fid c st'"
proof -
  have fid: "ok_id fid" and st: "store_inv st" "pending st fid = None" "disk st (file_name fid) = None"
    using assms(8) by (simp_all add: new_upload_def)
  have c64: "length c < 2 ^ 64" using assms(9) by simp
  obtain k1 w where s: "new_main k now1 now2 = (0, k1)" "ShmReadInit k1 W_DataRecv = (True, k1, w)" "ready k1 w"
    "dr_id w = 0" "\<forall>p. w_shmctl (reader_of k1 p) = w_shmctl w \<and> w_semtable (reader_of k1 p) = w_semtable w"
    using attached_system [OF assms(1-7)] by blast
  let ?ms = "upload_msgs fid path c"
  have "\<forall>m \<in> set ?ms. length m \<le> 8192"
    using framed_upload [OF fid assms(11), of c] by (auto simp: framed_def PACKAGE_SIZE_def)
  from hand_over_packages [OF s(3) this s(5), of raw] obtain k2 w2 olds where
    h: "hand_over (reader_of k1) raw k1 w ?ms = Some (k2, w2,
        map2 (\<lambda>n b. (pipe_name ((dr_id w + 1 + int n) mod 2), b)) [0..<length ?ms] (map2 package olds ?ms))"
    and o: "length olds = length ?ms" "blocks olds" by blast
  have l: "length [0..<length ?ms] = length (map2 package olds ?ms)" using o(1) by simp
  note fs = map2_pair [OF l, of "\<lambda>n. pipe_name ((dr_id w + 1 + int n) mod 2)"]
  obtain bs where b: "hand_over (reader_of k1) raw k1 w ?ms = Some (k2, w2, bs)"
    "map fst bs = map (\<lambda>n. pipe_name ((1 + int n) mod 2)) [0..<length ?ms]" "map snd bs = map2 package olds ?ms"
    using h fs unfolding s(4) add_0 by blast
  have send: "SendFile True (raw1, raw40, raw2, raw3) (hex (sha1sum fid) @ rest_out) path (Some c)
      = Some (SendReturns 0 ?ms)"
    using upload_stores [OF fid assms(11) c64 st assms(12-16) o] by blast
  have perf: "list_all2 (\<lambda>b op. \<exists>old m. b = package old m \<and> length old = PACKAGE_SIZE
      \<and> performs junk fid (of_nat (length c)) m op) (map2 package olds ?ms) (upload_ops c)"
    by (rule performs_blocks [OF upload_performs [OF assms(12) fid assms(11)] o])
  obtain st' where "ss_run (of_nat (length c)) fid (evs @ [Wakes]) (st, NotYet) = Some (st', Done)" "stored st fid c st'"
    using upload_any_order [OF assms(8-10) two_ways_mset [OF assms(17)]] by blast
  then show ?thesis using s(1,2) send b perf [folded b(3)] by blast
qed

theorem system_upload_witness:
  "\<exists>k1 w msgs k2 w2 bs st'.
      new_main empty_kernel 1000 1001 = (0, k1) \<and> ShmReadInit k1 W_DataRecv = (True, k1, w)
    \<and> SendFile True (zeros 512, zeros 40, zeros PACKAGE_SIZE, zeros 512) (hex (sha1sum sample_id) @ []) [0x66]
        (Some [1, 2, 3]) = Some (SendReturns 0 msgs)
    \<and> hand_over (reader_of k1) (zeros 32) k1 w msgs = Some (k2, w2, bs)
    \<and> map fst bs = map (\<lambda>n. pipe_name ((1 + int n) mod 2)) [0..<length msgs]
    \<and> list_all2 (\<lambda>b op. \<exists>old m. b = package old m \<and> length old = PACKAGE_SIZE
        \<and> performs (\<lambda>_. zeros PACKAGE_SIZE) sample_id (of_nat (length [1 :: byte, 2, 3])) m op)
        (map snd bs) (upload_ops [1, 2, 3])
    \<and> ss_run (of_nat (length [1 :: byte, 2, 3])) sample_id
        ([Does SizeOp, Does CloseOp, Wakes, Does (PieceOp 0 [1, 2, 3])] @ [Wakes]) (sample_store, NotYet)
        = Some (st', Done) \<and> stored sample_store sample_id [1, 2, 3] st'"
  by (rule system_upload [OF fresh_empty])
    (simp_all add: empty_kernel_def int_range_def sample_upload sample_ops odds_def big_def)

end
