(* ===== verification/Pool.thy ===== *)
theory Pool
  imports StorageFacts TableEnd Sockets
begin

text \<open>
  The storage server as a process (\<^verbatim>\<open>storage_server/storage_server.cpp\<close>): \<^verbatim>\<open>main\<close> with its
  listening socket, table and five threads, the outer loop of \<^verbatim>\<open>thread_main\<close> that accepts the
  next connection when the last one has ended, and the signal handler. A schedule is a list of
  events; the turns of different threads do not overlap. \<open>None\<close> is undefined behaviour.
\<close>

section \<open>Threads and connections\<close>

definition SS_N_THREADS :: nat where
  "SS_N_THREADS = 5"

text \<open>
  \<open>AtAccept\<close> is a thread in \<^verbatim>\<open>accept\<close> or waiting for the lock around it, \<open>InClose\<close> one in
  \<^verbatim>\<open>pthread_cond_wait\<close> with its object, \<open>Spinning\<close> one in the loop of the default branch,
  which never ends.
\<close>

datatype thread_state = AtAccept | Serving sock | InClose ptr sock | Spinning

record pool =
  backlog :: "sock list"
  threads :: "thread_state list"
  held :: store

datatype pool_end = ExitsWith int store | AssertFails

datatype pool_event =
  Arrives sock
| Accepts nat
| AcceptFails nat
| Turn nat
| Signalled nat
| Interrupt

definition thread_of :: "pool \<Rightarrow> nat \<Rightarrow> thread_state option" where
  "thread_of p t = (if t < length (threads p) then Some (threads p ! t) else None)"

definition set_thread :: "nat \<Rightarrow> thread_state \<Rightarrow> pool \<Rightarrow> pool" where
  "set_thread t x p = p\<lparr>threads := (threads p)[t := x]\<rparr>"

text \<open>\<^verbatim>\<open>sig_int\<close>: the table is released before the exit.\<close>

definition sig_int :: "store \<Rightarrow> pool_end option" where
  "sig_int st = map_option (ExitsWith 1) (DeinitHashTable st)"

text \<open>
  An iteration of the outer loop of \<^verbatim>\<open>thread_main\<close> starts with the connection that has waited
  longest; a failed \<^verbatim>\<open>accept\<close> ends the process.
\<close>

definition do_accept :: "nat \<Rightarrow> bool \<Rightarrow> pool \<Rightarrow> pool_end + pool" where
  "do_accept t ok p =
     (if thread_of p t = Some AtAccept then
        (if \<not> ok then Inl (ExitsWith 1 (held p))
         else (case backlog p of
                 [] \<Rightarrow> Inr p
               | s # q \<Rightarrow> Inr (set_thread t (Serving s) (p\<lparr>backlog := q\<rparr>))))
      else Inr p)"

text \<open>A turn of the inner loop; after the end of the connection the thread accepts again.\<close>

definition do_turn :: "(sock \<Rightarrow> cbuf) \<Rightarrow> nat \<Rightarrow> pool \<Rightarrow> (pool_end + pool) option" where
  "do_turn junk t p =
     (case thread_of p t of
        Some (Serving s) \<Rightarrow>
          map_option (\<lambda>r. case r of
              TurnEnds \<Rightarrow> Inr (set_thread t AtAccept p)
            | TurnGoes s' st' \<Rightarrow> Inr (set_thread t (Serving s') (p\<lparr>held := st'\<rparr>))
            | TurnWaits fp s' st' \<Rightarrow> Inr (set_thread t (InClose fp s') (p\<lparr>held := st'\<rparr>))
            | TurnAborts \<Rightarrow> Inl AssertFails
            | TurnSpins \<Rightarrow> Inr (set_thread t Spinning p))
            (serve_turn junk s (held p))
      | _ \<Rightarrow> Some (Inr p))"

definition do_wake :: "nat \<Rightarrow> pool \<Rightarrow> (pool_end + pool) option" where
  "do_wake t p =
     (case thread_of p t of
        Some (InClose fp s) \<Rightarrow>
          map_option (\<lambda>c. case c of
              Waiting fp' st' \<Rightarrow> Inr (set_thread t (InClose fp' s) (p\<lparr>held := st'\<rparr>))
            | Closed st' \<Rightarrow> Inr (set_thread t (Serving s) (p\<lparr>held := st'\<rparr>)))
            (close_wait (held p) fp)
      | _ \<Rightarrow> Some (Inr p))"

fun pool_step :: "(sock \<Rightarrow> cbuf) \<Rightarrow> pool_event \<Rightarrow> pool \<Rightarrow> (pool_end + pool) option" where
  "pool_step junk (Arrives s) p = Some (Inr (p\<lparr>backlog := backlog p @ [s]\<rparr>))"
| "pool_step junk (Accepts t) p = Some (do_accept t True p)"
| "pool_step junk (AcceptFails t) p = Some (do_accept t False p)"
| "pool_step junk (Turn t) p = do_turn junk t p"
| "pool_step junk (Signalled t) p = do_wake t p"
| "pool_step junk Interrupt p = map_option Inl (sig_int (held p))"

fun pool_run :: "(sock \<Rightarrow> cbuf) \<Rightarrow> pool_event list \<Rightarrow> pool \<Rightarrow> (pool_end + pool) option" where
  "pool_run junk [] p = Some (Inr p)"
| "pool_run junk (e # es) p =
     (case pool_step junk e p of
        None \<Rightarrow> None
      | Some (Inl x) \<Rightarrow> Some (Inl x)
      | Some (Inr p') \<Rightarrow> pool_run junk es p')"

text \<open>
  \<^verbatim>\<open>main\<close>: the exit code, or the running process. \<open>st\<close> is the memory and the file system at its
  start.
\<close>

definition ss_main :: "tcp_env \<Rightarrow> socks \<Rightarrow> nat list \<Rightarrow> store \<Rightarrow> (int + pool) \<times> socks \<times> nat list" where
  "ss_main e s ports st =
     (let (err, listen_fd, s', ports') = start_server e s ports in
      (if err < 0 then Inl 1
       else Inr \<lparr>backlog = [], threads = replicate SS_N_THREADS AtAccept, held = InitHashTable st\<rparr>,
       s', ports'))"

section \<open>Steps of single threads\<close>

lemma set_thread_simps [simp]:
  "threads (set_thread t x p) = (threads p)[t := x]" "held (set_thread t x p) = held p"
  "backlog (set_thread t x p) = backlog p"
  by (simp_all add: set_thread_def)

lemma set_thread_again [simp]: "set_thread t y (set_thread t x p) = set_thread t y p"
  by (simp add: set_thread_def)

lemma thread_of_set [simp]:
  "thread_of (set_thread t x p) t' = (if t = t' \<and> t < length (threads p) then Some x else thread_of p t')"
  by (simp add: thread_of_def)

lemma thread_of_upd [simp]: "thread_of (p\<lparr>held := st\<rparr>) t = thread_of p t" "thread_of (p\<lparr>backlog := q\<rparr>) t = thread_of p t"
  by (simp_all add: thread_of_def)

lemma thread_of_less: "thread_of p t = Some x \<Longrightarrow> t < length (threads p)"
  by (simp add: thread_of_def split: if_splits)

lemma pool_run_append:
  "pool_run junk (xs @ ys) p = (case pool_run junk xs p of
     Some (Inr p') \<Rightarrow> pool_run junk ys p' | r \<Rightarrow> r)"
  by (induction xs arbitrary: p) (auto split: option.split sum.split)

text \<open>What a turn and a signal can lead to.\<close>

lemma do_turn_Inr:
  assumes "do_turn junk t p = Some (Inr p')"
  obtains (idle) "p' = p"
  | (ends) s where "thread_of p t = Some (Serving s)" "serve_turn junk s (held p) = Some TurnEnds"
      "p' = set_thread t AtAccept p"
  | (goes) s s' st' where "thread_of p t = Some (Serving s)"
      "serve_turn junk s (held p) = Some (TurnGoes s' st')" "p' = set_thread t (Serving s') (p\<lparr>held := st'\<rparr>)"
  | (waits) s fp s' st' where "thread_of p t = Some (Serving s)"
      "serve_turn junk s (held p) = Some (TurnWaits fp s' st')"
      "p' = set_thread t (InClose fp s') (p\<lparr>held := st'\<rparr>)"
  | (spins) s where "thread_of p t = Some (Serving s)" "serve_turn junk s (held p) = Some TurnSpins"
      "p' = set_thread t Spinning p"
proof (cases "\<exists>s. thread_of p t = Some (Serving s)")
  case True
  then obtain s r where s: "thread_of p t = Some (Serving s)" "serve_turn junk s (held p) = Some r"
    using assms by (auto simp: do_turn_def)
  then show ?thesis using assms that by (cases r) (auto simp: do_turn_def)
next
  case False
  then show ?thesis using assms that(1) by (auto simp: do_turn_def split: option.splits thread_state.splits)
qed

lemma do_wake_Inr:
  assumes "do_wake t p = Some r"
  obtains (idle) "r = Inr p"
  | (again) fp s fp' st' where "thread_of p t = Some (InClose fp s)" "close_wait (held p) fp = Some (Waiting fp' st')"
      "r = Inr (set_thread t (InClose fp' s) (p\<lparr>held := st'\<rparr>))"
  | (closed) fp s st' where "thread_of p t = Some (InClose fp s)" "close_wait (held p) fp = Some (Closed st')"
      "r = Inr (set_thread t (Serving s) (p\<lparr>held := st'\<rparr>))"
proof (cases "\<exists>fp s. thread_of p t = Some (InClose fp s)")
  case True
  then obtain fp s c where s: "thread_of p t = Some (InClose fp s)" "close_wait (held p) fp = Some c"
    using assms by (auto simp: do_wake_def)
  then show ?thesis using assms that by (cases c) (auto simp: do_wake_def)
next
  case False
  then show ?thesis using assms that(1) by (auto simp: do_wake_def split: option.splits thread_state.splits)
qed

lemma do_accept_Inr:
  assumes "do_accept t ok p = Inr p'"
  obtains (idle) "p' = p"
  | (takes) s q where "thread_of p t = Some AtAccept" "backlog p = s # q"
      "p' = set_thread t (Serving s) (p\<lparr>backlog := q\<rparr>)"
  using assms that by (auto simp: do_accept_def split: if_splits list.splits)

lemma pool_threads: "pool_step junk e p = Some (Inr p') \<Longrightarrow> length (threads p') = length (threads p)"
  by (cases e) (auto elim!: do_accept_Inr do_turn_Inr do_wake_Inr)

lemma pool_run_threads: "pool_run junk es p = Some (Inr p') \<Longrightarrow> length (threads p') = length (threads p)"
proof (induction es arbitrary: p)
  case (Cons e es)
  then show ?case using pool_threads by (fastforce split: option.splits sum.splits)
qed simp

end
