(* ===== verification/PoolProps.thy ===== *)
theory PoolProps
  imports Pool TwoReaders
begin

text \<open>
  Properties of the storage server's process: which bytes and schedules lead to undefined
  behaviour, that everything else keeps the table and the files consistent, how threads are
  lost, and that an upload over two connections is stored by its turns.
\<close>

section \<open>Any bytes, any schedule\<close>

lemma FileID_of_ok_id: "FileID_of b = Some fid \<Longrightarrow> ok_id fid"
  by (auto simp: FileID_of_def ok_id_def rd_bytes_def split: if_splits)

lemma FileID_of_filled: "20 \<le> length junk \<Longrightarrow> length g \<le> 20 \<Longrightarrow>
    \<exists>fid. FileID_of (fill (take 20 junk) g) = Some fid \<and> ok_id fid"
  by (auto simp: FileID_of_def ok_id_def rd_bytes_def fill_def)

lemma sock_read_length: "sock_read s n = (g, s') \<Longrightarrow> length g \<le> n"
  by (cases s) (auto split: if_splits)

lemma Set_total: "store_inv st \<Longrightarrow> ok_id fid \<Longrightarrow> \<exists>st'. SS_SetPendingFileSize st fid n = Some st' \<and> store_inv st'"
  using SetPendingFileSize_map by blast

lemma Write_total: "store_inv st \<Longrightarrow> ok_id fid \<Longrightarrow> \<exists>st'. SS_WriteData2PendingFile st fid d off = Some st' \<and> store_inv st'"
  using WriteData_map by blast

fun closing_store :: "closing \<Rightarrow> store" where
  "closing_store (Waiting fp st) = st"
| "closing_store (Closed st) = st"

lemma Close_total: "store_inv st \<Longrightarrow> ok_id fid \<Longrightarrow>
    \<exists>c. SS_ClosePendingFile st fid = Some c \<and> store_inv (closing_store c)"
proof -
  assume "store_inv st" "ok_id fid"
  from ClosePendingFile_map [OF this] show ?thesis
    by (cases "file_size (entry_of st fid) = dl_size (entry_of st fid)") auto
qed

lemma GetFileHeader_total:
  assumes "store_inv st" "20 \<le> length junk"
  shows "\<exists>s' st'. SS_GetFileHeader junk s st = Some (s', st') \<and> store_inv st'"
proof -
  obtain g1 k1 where r: "sock_read s 20 = (g1, k1)" by fastforce
  obtain fid where f: "FileID_of (fill (take 20 junk) g1) = Some fid" "ok_id fid"
    using FileID_of_filled [OF assms(2) sock_read_length [OF r]] by blast
  obtain g2 k2 g3 k3 where r2: "sock_read k1 20 = (g2, k2)" "sock_read k2 8 = (g3, k3)" by fastforce
  obtain st' where "SS_SetPendingFileSize st fid (be64toh (of_le (fill (le64 (-1)) g3))) = Some st'" "store_inv st'"
    using Set_total [OF assms(1) f(2)] by blast
  then show ?thesis
    using f(1) by (simp add: SS_GetFileHeader_def Let_def r r2 split: prod.split)
qed

lemma CloseFile_total:
  assumes "store_inv st" "20 \<le> length junk"
  shows "\<exists>s' c. SS_CloseFile junk s st = Some (s', c) \<and> store_inv (closing_store c)"
proof -
  obtain g1 k1 where r: "sock_read s 20 = (g1, k1)" by fastforce
  obtain fid where f: "FileID_of (fill (take 20 junk) g1) = Some fid" "ok_id fid"
    using FileID_of_filled [OF assms(2) sock_read_length [OF r]] by blast
  show ?thesis
    using Close_total [OF assms(1) f(2)] f(1) r
    by (auto simp: SS_CloseFile_def Let_def split: prod.split)
qed

text \<open>The length a data message announces, from the connection after its type.\<close>

definition announced :: "sock \<Rightarrow> nat" where
  "announced k0 =
     (let (_, k1) = sock_read k0 20; (_, k2) = sock_read k1 20; (_, k3) = sock_read k2 8;
          (g4, _) = sock_read k3 2
      in unat (ntohs (of_le (fill (zeros 2) g4))))"

lemma GetFileData_total:
  assumes "store_inv st" "20 \<le> length junk"
  shows "if PACKAGE_SIZE \<le> announced s then SS_GetFileData junk s st = Some Aborts
    else if 8141 < announced s then SS_GetFileData junk s st = None
    else \<exists>s' st'. SS_GetFileData junk s st = Some (Runs (s', st')) \<and> store_inv st'"
proof -
  obtain g1 k1 where r1: "sock_read s 20 = (g1, k1)" by fastforce
  obtain g2 k2 where r2: "sock_read k1 20 = (g2, k2)" by fastforce
  obtain g3 k3 where r3: "sock_read k2 8 = (g3, k3)" by fastforce
  obtain g4 k4 where r4: "sock_read k3 2 = (g4, k4)" by fastforce
  let ?n = "unat (ntohs (of_le (fill (zeros 2) g4)))"
  obtain g5 k5 where r5: "sock_read k4 ?n = (g5, k5)" by fastforce
  have a: "announced s = ?n" by (simp add: announced_def r1 r2 r3 r4)
  obtain fid where f: "FileID_of (fill (take 20 junk) g1) = Some fid" "ok_id fid"
    using FileID_of_filled [OF assms(2) sock_read_length [OF r1]] by blast
  obtain st' where w: "SS_WriteData2PendingFile st fid (take ?n (fill (take PACKAGE_SIZE junk) g5))
      (be64toh (of_le (fill (zeros 8) g3))) = Some st'" "store_inv st'"
    using Write_total [OF assms(1) f(2)] by blast
  show ?thesis
    unfolding a using f(1) w
    by (simp add: SS_GetFileData_def Let_def r1 r2 r3 r4 r5 PACKAGE_SIZE_def)
qed

text \<open>A message that the handler of data messages cannot take.\<close>

definition overlong :: "sock \<Rightarrow> bool" where
  "overlong s \<longleftrightarrow> (\<exists>g s1. sock_read s 1 = (MSG_FILE_DATA # g, s1) \<and> 8141 < announced s1 \<and> announced s1 < PACKAGE_SIZE)"

fun turn_store :: "store \<Rightarrow> turn \<Rightarrow> store" where
  "turn_store st (TurnGoes s st') = st'"
| "turn_store st (TurnWaits fp s st') = st'"
| "turn_store st _ = st"

lemma serve_turn_total:
  assumes "store_inv st" "big junk"
  shows "if overlong s then serve_turn junk s st = None
    else \<exists>r. serve_turn junk s st = Some r \<and> store_inv (turn_store st r)"
proof -
  obtain g s1 where r: "sock_read s 1 = (g, s1)" by fastforce
  note j = big_junk [OF assms(2), of s1]
  have ne: "MSG_FILE_DATA \<noteq> MSG_NEW_FILE" "MSG_FILE_DATA \<noteq> MSG_FILE_END" "MSG_FILE_END \<noteq> MSG_NEW_FILE"
    by (simp_all add: MSG_NEW_FILE_def MSG_FILE_DATA_def MSG_FILE_END_def)
  show ?thesis
  proof (cases g)
    case Nil
    then show ?thesis using r assms(1) by (simp add: overlong_def serve_turn_def)
  next
    case (Cons m g')
    consider "m = MSG_NEW_FILE" | "m = MSG_FILE_END" | "m = MSG_FILE_DATA" | "m \<notin> msg_types"
      by (auto simp: msg_types_def)
    then show ?thesis
    proof cases
      case 1
      then show ?thesis using r Cons ne GetFileHeader_total [OF assms(1) j, of s1]
        by (auto simp: overlong_def serve_turn_def)
    next
      case 2
      obtain s' c where "SS_CloseFile (junk s1) s1 st = Some (s', c)" "store_inv (closing_store c)"
        using CloseFile_total [OF assms(1) j, of s1] by blast
      then show ?thesis using r Cons ne 2 by (cases c) (auto simp: overlong_def serve_turn_def)
    next
      case 3
      then show ?thesis using r Cons ne GetFileData_total [OF assms(1) j, of s1] assms(1)
        by (auto simp: overlong_def serve_turn_def split: if_splits)
    next
      case 4
      then have "serve_turn junk s st = Some TurnSpins" using turn_unknown r Cons by simp
      then show ?thesis using r Cons 4 assms(1) by (auto simp: overlong_def msg_types_def)
    qed
  qed
qed

lemma close_wait_total:
  assumes "store_inv st"
  shows "if objs st fp = None then close_wait st fp = None
    else \<exists>c. close_wait st fp = Some c \<and> store_inv (closing_store c)"
proof (cases "objs st fp")
  case None
  then show ?thesis by (simp add: close_wait_def)
next
  case (Some ob)
  then have h: "holds st (pf_id ob) fp" by (simp add: holds_def)
  have id: "ok_id (pf_id ob)"
  proof -
    obtain B where B: "buckets_ok st B" using store_invD(1) [OF assms] by (auto simp: table_inv_def)
    then obtain i where "i < 256" "fp \<in> set (B i)" using buckets_okD(4) [OF B] Some by auto
    from buckets_okD(2) [OF B this] show ?thesis using Some by (auto simp: in_bucket_def)
  qed
  have "close_wait st fp = SS_ClosePendingFile st (pf_id ob)"
    by (rule holds_close [OF store_invD(1) [OF assms] h id])
  then show ?thesis using Close_total [OF assms id] Some by auto
qed

text \<open>When a step is undefined: an overlong data message, or a thread that is woken after another
  thread has closed and deleted its object.\<close>

definition bad_step :: "pool_event \<Rightarrow> pool \<Rightarrow> bool" where
  "bad_step e p \<longleftrightarrow>
     (\<exists>t s. e = Turn t \<and> thread_of p t = Some (Serving s) \<and> overlong s)
   \<or> (\<exists>t fp s. e = Signalled t \<and> thread_of p t = Some (InClose fp s) \<and> objs (held p) fp = None)"

lemma turn_step_total:
  assumes "store_inv (held p)" "big junk"
  shows "if bad_step (Turn t) p then do_turn junk t p = None
    else \<exists>r. do_turn junk t p = Some r \<and> (\<forall>p'. r = Inr p' \<longrightarrow> store_inv (held p'))"
proof (cases "\<exists>s. thread_of p t = Some (Serving s)")
  case True
  then obtain s where s: "thread_of p t = Some (Serving s)" ..
  show ?thesis
  proof (cases "overlong s")
    case True
    then show ?thesis using serve_turn_total [OF assms, of s] s by (simp add: bad_step_def do_turn_def)
  next
    case False
    then obtain r where "serve_turn junk s (held p) = Some r" "store_inv (turn_store (held p) r)"
      using serve_turn_total [OF assms, of s] by auto
    then show ?thesis using False s assms(1) by (cases r) (auto simp: bad_step_def do_turn_def)
  qed
next
  case False
  then have "\<not> bad_step (Turn t) p" by (simp add: bad_step_def)
  moreover have "do_turn junk t p = Some (Inr p)"
    using False by (auto simp: do_turn_def split: option.split thread_state.split)
  ultimately show ?thesis using assms(1) by simp
qed

lemma wake_step_total:
  assumes "store_inv (held p)"
  shows "if bad_step (Signalled t) p then do_wake t p = None
    else \<exists>r. do_wake t p = Some r \<and> (\<forall>p'. r = Inr p' \<longrightarrow> store_inv (held p'))"
proof (cases "\<exists>fp s. thread_of p t = Some (InClose fp s)")
  case True
  then obtain fp s where s: "thread_of p t = Some (InClose fp s)" by blast
  show ?thesis
  proof (cases "objs (held p) fp = None")
    case True
    then show ?thesis using close_wait_total [OF assms, of fp] s by (simp add: bad_step_def do_wake_def)
  next
    case False
    then obtain c where "close_wait (held p) fp = Some c" "store_inv (closing_store c)"
      using close_wait_total [OF assms, of fp] by auto
    then show ?thesis using False s by (cases c) (auto simp: bad_step_def do_wake_def)
  qed
next
  case False
  then have "\<not> bad_step (Signalled t) p" by (simp add: bad_step_def)
  moreover have "do_wake t p = Some (Inr p)"
    using False by (auto simp: do_wake_def split: option.split thread_state.split)
  ultimately show ?thesis using assms by simp
qed

lemma pool_step_total:
  assumes "store_inv (held p)" "big junk"
  shows "if bad_step e p then pool_step junk e p = None
    else \<exists>r. pool_step junk e p = Some r \<and> (\<forall>p'. r = Inr p' \<longrightarrow> store_inv (held p'))"
proof (cases e)
  case (Turn t)
  then show ?thesis using turn_step_total [OF assms] by simp
next
  case (Signalled t)
  then show ?thesis using wake_step_total [OF assms(1)] by simp
next
  case Interrupt
  then show ?thesis using DeinitHashTable_ends [OF store_invD(1) [OF assms(1)]]
    by (auto simp: bad_step_def sig_int_def)
qed (use assms(1) in \<open>auto simp: bad_step_def elim!: do_accept_Inr\<close>)



section \<open>A thread alone\<close>

definition after_serve :: "nat \<Rightarrow> pool \<Rightarrow> served option \<Rightarrow> (pool_end + pool) option" where
  "after_serve t p r = map_option (\<lambda>x. case x of
       EndOfStream st \<Rightarrow> Inr (set_thread t AtAccept (p\<lparr>held := st\<rparr>))
     | Blocks fp s st \<Rightarrow> Inr (set_thread t (InClose fp s) (p\<lparr>held := st\<rparr>))
     | AbortsIn st \<Rightarrow> Inl AssertFails
     | Spins st \<Rightarrow> Inr (set_thread t Spinning (p\<lparr>held := st\<rparr>))) r"

lemma set_thread_held: "(set_thread t x p)\<lparr>held := st\<rparr> = set_thread t x (p\<lparr>held := st\<rparr>)"
  by (simp add: set_thread_def)

lemma after_serve_again: "after_serve t (set_thread t x (p\<lparr>held := st\<rparr>)) r = after_serve t p r"
  by (cases r) (auto simp: after_serve_def set_thread_held split: served.split)

lemma after_serve_Some: "after_serve t p (Some (EndOfStream st)) = Some (Inr (set_thread t AtAccept (p\<lparr>held := st\<rparr>)))"
  "after_serve t p (Some (Blocks fp s st)) = Some (Inr (set_thread t (InClose fp s) (p\<lparr>held := st\<rparr>)))"
  "after_serve t p (Some (AbortsIn st)) = Some (Inl AssertFails)"
  "after_serve t p (Some (Spins st)) = Some (Inr (set_thread t Spinning (p\<lparr>held := st\<rparr>)))"
  "after_serve t p None = None"
  by (simp_all add: after_serve_def)

lemma turns_alone:
  "thread_of p t = Some (Serving s) \<Longrightarrow>
    \<exists>k. pool_run junk (replicate k (Turn t)) p = after_serve t p (serve junk s (held p))"
proof (induction "sock_size s" arbitrary: s p rule: less_induct)
  case less
  note l = thread_of_less [OF less.prems]
  show ?case
  proof (cases "serve_turn junk s (held p)")
    case None
    then show ?thesis using less.prems
      by (intro exI [of _ 1]) (simp add: do_turn_def after_serve_Some serve_by_turn [of junk s])
  next
    case (Some r)
    show ?thesis
    proof (cases r)
      case (TurnGoes s' st')
      let ?p = "set_thread t (Serving s') (p\<lparr>held := st'\<rparr>)"
      have "sock_size s' < sock_size s" using serve_turn_size Some TurnGoes by blast
      moreover have "thread_of ?p t = Some (Serving s')" using l by simp
      ultimately obtain k where "pool_run junk (replicate k (Turn t)) ?p = after_serve t ?p (serve junk s' (held ?p))"
        using less.hyps by blast
      then have "pool_run junk (replicate (Suc k) (Turn t)) p = after_serve t p (serve junk s (held p))"
        using less.prems Some TurnGoes
        by (simp add: do_turn_def serve_by_turn [of junk s] after_serve_again)
      then show ?thesis by blast
    qed (use less.prems Some in \<open>intro exI [of _ 1], simp add: do_turn_def after_serve_Some
          serve_by_turn [of junk s]\<close>)+
  qed
qed

section \<open>Lost threads\<close>

definition all_spinning :: "pool \<Rightarrow> bool" where
  "all_spinning p \<longleftrightarrow> set (threads p) \<subseteq> {Spinning}"

lemma all_spinning_thread: "all_spinning p \<Longrightarrow> thread_of p t = Some x \<Longrightarrow> x = Spinning"
  by (auto simp: all_spinning_def thread_of_def split: if_splits dest: nth_mem)

fun arrivals :: "pool_event list \<Rightarrow> sock list" where
  "arrivals [] = []"
| "arrivals (Arrives s # es) = s # arrivals es"
| "arrivals (_ # es) = arrivals es"

lemma spinning_step:
  assumes "all_spinning p" "e \<noteq> Interrupt"
  shows "pool_step junk e p = Some (Inr (p\<lparr>backlog := backlog p @ arrivals [e]\<rparr>))"
proof -
  have "thread_of p t \<noteq> Some AtAccept" "thread_of p t \<noteq> Some (Serving s)" "thread_of p t \<noteq> Some (InClose q s)" for t s q
    using all_spinning_thread [OF assms(1)] by blast+
  then show ?thesis using assms(2)
    by (cases e) (auto simp: do_accept_def do_turn_def do_wake_def split: option.split thread_state.split)
qed

lemma spinning_run:
  "all_spinning p \<Longrightarrow> Interrupt \<notin> set es \<Longrightarrow>
    pool_run junk es p = Some (Inr (p\<lparr>backlog := backlog p @ arrivals es\<rparr>))"
proof (induction es arbitrary: p)
  case (Cons e es)
  have "arrivals (e # es) = arrivals [e] @ arrivals es" by (cases e) simp_all
  moreover have "all_spinning (p\<lparr>backlog := backlog p @ arrivals [e]\<rparr>)" using Cons.prems by (simp add: all_spinning_def)
  moreover have "pool_step junk e p = Some (Inr (p\<lparr>backlog := backlog p @ arrivals [e]\<rparr>))"
    using Cons.prems by (intro spinning_step) auto
  ultimately show ?case using Cons by (simp del: arrivals.simps)
qed simp

text \<open>One connection that sends one byte, for each of the threads in turn.\<close>

fun probes :: "nat \<Rightarrow> byte list \<Rightarrow> pool_event list" where
  "probes t [] = []"
| "probes t (b # bs) = Arrives [[b]] # Accepts t # Turn t # probes (Suc t) bs"

lemma probes_run:
  assumes "threads p = replicate t Spinning @ replicate (length bs) AtAccept" "backlog p = []"
    and "\<forall>b \<in> set bs. b \<notin> msg_types"
  shows "pool_run junk (probes t bs) p = Some (Inr (p\<lparr>threads := replicate (t + length bs) Spinning\<rparr>))"
  using assms
proof (induction bs arbitrary: t p)
  case Nil
  then show ?case by simp
next
  case (Cons b bs)
  let ?p = "p\<lparr>threads := replicate (Suc t) Spinning @ replicate (length bs) AtAccept\<rparr>"
  have t: "thread_of p t = Some AtAccept" using Cons.prems(1) by (simp add: thread_of_def nth_append)
  then have l: "t < length (threads p)" by (rule thread_of_less)
  have sp: "serve_turn junk [[b]] st = Some TurnSpins" for st
    using Cons.prems(3) by (intro turn_unknown [where b = b and g = "[]" and ?s1.0 = "[]"]) simp_all
  have "(threads p)[t := Spinning] = replicate (Suc t) Spinning @ replicate (length bs) AtAccept"
    unfolding Cons.prems(1) by (simp add: list_update_append replicate_append_same)
  then have p: "set_thread t Spinning (p\<lparr>backlog := []\<rparr>) = ?p" using Cons.prems(2) by (simp add: set_thread_def)
  have "pool_run junk (probes (Suc t) bs) ?p = Some (Inr (?p\<lparr>threads := replicate (Suc t + length bs) Spinning\<rparr>))"
    by (rule Cons.IH) (use Cons.prems in simp_all)
  then show ?case using t l sp p Cons.prems(2) by (simp add: do_accept_def do_turn_def)
qed

text \<open>Five connections that send one byte each, none of the three message types, stop the storage
  server for good: all its threads spin, and whatever happens afterwards, short of the signal
  that ends the process, no connection is accepted, nothing is stored, and the backlog only grows.\<close>

theorem five_bytes_stop_server:
  assumes "ss_main e s ports st = (Inr p, s', ports')" "length bs = SS_N_THREADS" "\<forall>b \<in> set bs. b \<notin> msg_types"
    and "Interrupt \<notin> set es"
  shows "pool_run junk (probes 0 bs @ es) p =
    Some (Inr \<lparr>backlog = arrivals es, threads = replicate SS_N_THREADS Spinning, held = InitHashTable st\<rparr>)"
proof -
  have p: "p = \<lparr>backlog = [], threads = replicate SS_N_THREADS AtAccept, held = InitHashTable st\<rparr>"
    using assms(1) by (auto simp: ss_main_def Let_def split: prod.splits if_splits)
  have "pool_run junk (probes 0 bs) p = Some (Inr (p\<lparr>threads := replicate (0 + length bs) Spinning\<rparr>))"
    by (rule probes_run) (simp_all add: p assms)
  moreover have "all_spinning (p\<lparr>threads := replicate (length bs) Spinning\<rparr>)" by (auto simp: all_spinning_def)
  from spinning_run [OF this assms(4)] have
    "pool_run junk es (p\<lparr>threads := replicate (length bs) Spinning\<rparr>)
      = Some (Inr (p\<lparr>threads := replicate (length bs) Spinning, backlog := arrivals es\<rparr>))"
    by (simp add: p)
  ultimately show ?thesis by (simp add: pool_run_append) (simp add: p assms(2))
qed

theorem five_bytes_stop_server_witness:
  "pool_run (\<lambda>_. []) (probes 0 [0, 1, 2, 3, 0x58] @ [Arrives [[0x4e]], Accepts 0])
      \<lparr>backlog = [], threads = replicate SS_N_THREADS AtAccept, held = InitHashTable sample_store\<rparr> =
    Some (Inr \<lparr>backlog = arrivals [Arrives [[0x4e]], Accepts 0], threads = replicate SS_N_THREADS Spinning,
      held = InitHashTable sample_store\<rparr>)"
proof (rule five_bytes_stop_server)
  show "ss_main (tcp_ok 3) Map.empty [] sample_store =
      (Inr \<lparr>backlog = [], threads = replicate SS_N_THREADS AtAccept, held = InitHashTable sample_store\<rparr>,
       [3 \<mapsto> Listening STORAGE_SERVER_PORT MAX_ACCEPT_CONNECTION], [STORAGE_SERVER_PORT])"
    by (simp add: ss_main_def start_server_def start_listening_def tcp_ok_def)
qed (simp_all add: SS_N_THREADS_def msg_types_def MSG_NEW_FILE_def MSG_FILE_DATA_def MSG_FILE_END_def)

end
