(* ===== verification/PoolUpload.thy ===== *)
theory PoolUpload
  imports PoolProps
begin

text \<open>
  An upload whose blocks arrive over two connections, byte by byte, at two threads of the storage
  server: the turns of the two threads refine the operations of \<open>TwoReaders\<close>, in whatever order
  the scheduler takes them.
\<close>

section \<open>A turn performs an operation\<close>

definition turn_performs :: "(sock \<Rightarrow> cbuf) \<Rightarrow> file_id \<Rightarrow> u64 \<Rightarrow> cbuf \<Rightarrow> ss_op \<Rightarrow> bool" where
  "turn_performs junk fid n b op \<longleftrightarrow> (\<forall>rest st.
     serve_turn junk (arrived (b @ rest)) st =
       (case op of
          SizeOp \<Rightarrow> map_option (TurnGoes (arrived rest)) (SS_SetPendingFileSize st fid n)
        | PieceOp off d \<Rightarrow> map_option (TurnGoes (arrived rest)) (SS_WriteData2PendingFile st fid d (of_nat off))
        | CloseOp \<Rightarrow> map_option (\<lambda>c. case c of
              Waiting fp st' \<Rightarrow> TurnWaits fp (arrived (drop 8182 b @ rest)) st'
            | Closed st' \<Rightarrow> TurnGoes (arrived (drop 8182 b @ rest)) st') (SS_ClosePendingFile st fid)))"

lemma drop_package_end: "ok_id fid \<Longrightarrow> length old = PACKAGE_SIZE \<Longrightarrow> drop 8182 (package old (end_msg fid)) = drop 8182 old"
  by (simp add: package_def fill_def end_msg_def PACKAGE_SIZE_def)

lemma upload_turns:
  assumes "big junk" "ok_id fid" "length path \<le> 461" "length olds = length (upload_msgs fid path c)" "blocks olds"
  shows "list_all2 (turn_performs junk fid (of_nat (length c)))
    (map2 package olds (upload_msgs fid path c)) (upload_ops c)"
proof -
  let ?P = "\<lambda>m op. \<forall>old. length old = PACKAGE_SIZE \<longrightarrow> turn_performs junk fid (of_nat (length c)) (package old m) op"
  have h: "?P (header_msg fid (of_nat (length c)) path) SizeOp"
    using turn_header [OF assms(1,2)] assms(2,3)
    by (simp add: turn_performs_def header_msg_def PACKAGE_SIZE_def ok_id_def)
  have d: "?P (data_msg fid (of_nat (fst x)) (snd x)) (PieceOp (fst x) (snd x))"
    if "x \<in> set (client_pieces c 0)" for x
    using turn_data [OF assms(1,2)] client_pieces_size [OF that] by (simp add: turn_performs_def)
  have e: "?P (end_msg fid) CloseOp"
    using turn_end [OF assms(1,2)] drop_package_end [OF assms(2)] by (simp add: turn_performs_def)
  have "list_all2 ?P (map (\<lambda>x. data_msg fid (of_nat (fst x)) (snd x)) ps) (map (\<lambda>x. PieceOp (fst x) (snd x)) ps)"
    if "set ps \<subseteq> set (client_pieces c 0)" for ps
    using that d by (induction ps) auto
  from this [OF subset_refl] have "list_all2 ?P (upload_msgs fid path c) (upload_ops c)"
    using h e by (simp add: upload_msgs_def upload_ops_def list_all2_appendI)
  then show ?thesis
    using assms(4,5)
  proof (induction arbitrary: olds rule: list_all2_induct)
    case (Cons m ms op ops)
    then obtain old os where "olds = old # os" by (cases olds) auto
    then show ?case using Cons by (simp add: blocks_def)
  qed simp
qed

lemma list_all2_evens: "list_all2 P xs ys \<Longrightarrow> list_all2 P (evens xs) (evens ys) \<and> list_all2 P (odds xs) (odds ys)"
proof (induction rule: list_all2_induct)
  case Nil
  then show ?case by (simp add: odds_def)
next
  case (Cons x xs y ys)
  then show ?case by (simp add: evens_Cons)
qed

section \<open>Schedules\<close>

text \<open>The operations that a schedule of the threads \<open>i\<close> and another one comes to.\<close>

fun as_ops :: "nat \<Rightarrow> pool_event list \<Rightarrow> ss_op list \<Rightarrow> ss_op list \<Rightarrow> ss_event list" where
  "as_ops i [] as bs = []"
| "as_ops i (Turn t # es) as bs =
     (if t = i then Does (hd as) # as_ops i es (tl as) bs else Does (hd bs) # as_ops i es as (tl bs))"
| "as_ops i (e # es) as bs = Wakes # as_ops i es as bs"

definition turns_of :: "nat \<Rightarrow> pool_event list \<Rightarrow> nat" where
  "turns_of t es = count_list es (Turn t)"

text \<open>A schedule of two threads that takes as many turns of each as it has messages, and signals
  the one that has the end message.\<close>

definition two_threads :: "nat \<Rightarrow> nat \<Rightarrow> nat \<Rightarrow> pool_event list \<Rightarrow> nat \<Rightarrow> nat \<Rightarrow> bool" where
  "two_threads i j k es m n \<longleftrightarrow> set es \<subseteq> {Turn i, Turn j, Signalled k} \<and> turns_of i es = m \<and> turns_of j es = n"

lemma two_threads_Cons:
  "i \<noteq> j \<Longrightarrow> two_threads i j k (e # es) m n \<longleftrightarrow>
     (e = Turn i \<and> 0 < m \<and> two_threads i j k es (m - 1) n)
   \<or> (e = Turn j \<and> 0 < n \<and> two_threads i j k es m (n - 1))
   \<or> (e = Signalled k \<and> two_threads i j k es m n)"
  by (auto simp: two_threads_def turns_of_def)

lemma as_ops_shuffles:
  assumes "i \<noteq> j" "two_threads i j k es (length as) (length bs)"
  shows "ops_of (as_ops i es as bs) \<in> shuffles as bs"
  using assms(2)
proof (induction es arbitrary: as bs)
  case Nil
  then show ?case by (simp add: two_threads_def turns_of_def)
next
  case (Cons e es)
  from Cons.prems consider
    "e = Turn i" "as \<noteq> []" "two_threads i j k es (length (tl as)) (length bs)"
  | "e = Turn j" "bs \<noteq> []" "two_threads i j k es (length as) (length (tl bs))"
  | "e = Signalled k" "two_threads i j k es (length as) (length bs)"
    unfolding two_threads_Cons [OF assms(1)] by auto
  then show ?case
  proof cases
    case 1
    then obtain a as' where "as = a # as'" by (cases as) auto
    then show ?thesis using 1 Cons.IH by (auto intro: Cons_in_shuffles_leftI)
  next
    case 2
    then obtain b bs' where "bs = b # bs'" by (cases bs) auto
    then show ?thesis using 2 assms(1) Cons.IH by (auto intro: Cons_in_shuffles_rightI)
  next
    case 3
    then show ?thesis using Cons.IH by simp
  qed
qed

section \<open>The threads refine the operations\<close>

text \<open>What is left on a connection when its blocks have been handled: the end message is read short.\<close>

definition left_over :: "cbuf list \<Rightarrow> ss_op list \<Rightarrow> byte list" where
  "left_over bs ops = (if ops \<noteq> [] \<and> last ops = CloseOp then drop 8182 (last bs) else [])"

lemma left_over_Cons: "length ops = length bs \<Longrightarrow> bs \<noteq> [] \<Longrightarrow> left_over (b # bs) (op # ops) = left_over bs ops"
  by (auto simp: left_over_def)

text \<open>The thread \<open>t\<close> still has the blocks \<open>bs\<close> of its connection, or what is left after them.\<close>

definition carries :: "pool \<Rightarrow> nat \<Rightarrow> cbuf list \<Rightarrow> byte list \<Rightarrow> bool" where
  "carries p t bs lf \<longleftrightarrow> t < length (threads p)
     \<and> (if bs \<noteq> [] then thread_of p t = Some (Serving (arrived (concat bs)))
        else thread_of p t = Some (Serving (arrived lf)) \<or> (\<exists>q. thread_of p t = Some (InClose q (arrived lf))))"

text \<open>Only the thread \<open>k\<close> can be inside the close, and \<open>w\<close> says whether it is.\<close>

definition in_close :: "pool \<Rightarrow> nat \<Rightarrow> closer \<Rightarrow> bool" where
  "in_close p k w \<longleftrightarrow> (\<forall>t q s. t \<noteq> k \<longrightarrow> thread_of p t \<noteq> Some (InClose q s)) \<and> (case w of
     WaitsAt q \<Rightarrow> \<exists>s. thread_of p k = Some (InClose q s)
   | _ \<Rightarrow> \<forall>q s. thread_of p k \<noteq> Some (InClose q s))"

text \<open>The end message is the last of the thread \<open>k\<close>.\<close>

definition close_last :: "nat \<Rightarrow> nat \<Rightarrow> ss_op list \<Rightarrow> bool" where
  "close_last k t ops \<longleftrightarrow> CloseOp \<notin> set (butlast ops) \<and> (CloseOp \<in> set ops \<longrightarrow> k = t)"

lemma close_last_Cons:
  "close_last k t (op # ops) \<Longrightarrow> close_last k t ops \<and> (op = CloseOp \<longrightarrow> ops = [] \<and> k = t)"
  by (auto simp: close_last_def split: if_splits)

lemma turn_refines:
  assumes "carries p t (b # bs) lf" "turn_performs junk fid n b op" "in_close p k w" "close_last k t (op # ops)"
    and "lf = left_over (b # bs) (op # ops)"
    and "ss_step n fid (Does op) (held p, w) = Some (st', w')" "length ops = length bs"
  shows "\<exists>p'. pool_step junk (Turn t) p = Some (Inr p') \<and> held p' = st' \<and> carries p' t bs lf \<and> in_close p' k w'
    \<and> (\<forall>t'. t' \<noteq> t \<longrightarrow> thread_of p' t' = thread_of p t') \<and> length (threads p') = length (threads p)"
proof -
  have t: "thread_of p t = Some (Serving (arrived (b @ concat bs)))" and l: "t < length (threads p)"
    using assms(1) by (simp_all add: carries_def)
  have oth: "t' \<noteq> k \<Longrightarrow> thread_of p t' \<noteq> Some (InClose q s)" for t' q s
    using assms(3) by (simp add: in_close_def)
  note perf = assms(2) [unfolded turn_performs_def, rule_format, of "concat bs" "held p"]
  note cl = close_last_Cons [OF assms(4)]
  have k: "in_close (set_thread t (Serving s) (p\<lparr>held := st\<rparr>)) k w" for s st
    using assms(3) t by (auto simp: in_close_def split: closer.splits)
  have lf: "op \<noteq> CloseOp \<Longrightarrow> bs = [] \<Longrightarrow> lf = []" "op = CloseOp \<Longrightarrow> bs = [] \<Longrightarrow> lf = drop 8182 b"
    using assms(5,7) by (auto simp: left_over_def)
  show ?thesis
  proof (cases op)
    case SizeOp
    then show ?thesis using assms(6) perf t l k lf(1)
      by (auto simp: do_turn_def carries_def intro!: exI)
  next
    case (PieceOp off d)
    then show ?thesis using assms(6) perf t l k lf(1)
      by (auto simp: do_turn_def carries_def intro!: exI)
  next
    case CloseOp
    then have bs: "bs = []" and kt: "k = t" using cl assms(7) by auto
    obtain c where c: "SS_ClosePendingFile (held p) fid = Some c"
      using assms(6) CloseOp by (auto simp: closes_def)
    show ?thesis
      using assms(6) perf t l CloseOp c bs kt lf(2) oth
      by (cases c) (auto simp: do_turn_def carries_def closes_def in_close_def intro!: exI)
  qed
qed

lemma wake_refines:
  assumes "in_close p k w" "ss_step n fid Wakes (held p, w) = Some (st', w')"
  shows "\<exists>p'. pool_step junk (Signalled k) p = Some (Inr p') \<and> held p' = st' \<and> in_close p' k w'
    \<and> (\<forall>t bs lf. carries p t bs lf \<longrightarrow> carries p' t bs lf) \<and> length (threads p') = length (threads p)"
proof (cases w)
  case (WaitsAt q)
  then obtain s where t: "thread_of p k = Some (InClose q s)" using assms(1) by (auto simp: in_close_def)
  then have l: "k < length (threads p)" by (rule thread_of_less)
  have oth: "t' \<noteq> k \<Longrightarrow> thread_of p t' \<noteq> Some (InClose q s)" for t' q s
    using assms(1) by (simp add: in_close_def)
  obtain c where c: "close_wait (held p) q = Some c" "closes (Some c) = Some (st', w')"
    using assms(2) WaitsAt by (auto simp: closes_def)
  show ?thesis using t l c oth
    by (cases c) (auto simp: do_wake_def closes_def in_close_def carries_def intro!: exI split: if_splits)
qed (use assms in \<open>auto simp: do_wake_def in_close_def split: option.splits thread_state.splits\<close>)

lemma carries_other: "carries p t bs lf \<Longrightarrow> thread_of p' t = thread_of p t \<Longrightarrow> length (threads p') = length (threads p)
    \<Longrightarrow> carries p' t bs lf"
  by (simp add: carries_def)

lemma threads_refine:
  assumes "i \<noteq> j" "k = i \<or> k = j"
    and "two_threads i j k es (length as) (length bs)"
    and "list_all2 (turn_performs junk fid n) As as" "list_all2 (turn_performs junk fid n) Bs bs"
    and "carries p i As ti" "carries p j Bs tj" "in_close p k w" "close_last k i as" "close_last k j bs"
    and "ss_run n fid (as_ops i es as bs) (held p, w) = Some x"
    and "As \<noteq> [] \<longrightarrow> ti = left_over As as" "Bs \<noteq> [] \<longrightarrow> tj = left_over Bs bs"
  shows "\<exists>p'. pool_run junk es p = Some (Inr p') \<and> held p' = fst x \<and> in_close p' k (snd x)
    \<and> length (threads p') = length (threads p) \<and> carries p' i [] ti \<and> carries p' j [] tj"
  using assms(3-)
proof (induction es arbitrary: as bs As Bs p w)
  case Nil
  then have "as = []" "bs = []" by (simp_all add: two_threads_def turns_of_def)
  then have "As = []" "Bs = []" using Nil.prems(2,3) by simp_all
  then show ?case using Nil by auto
next
  case (Cons e es)
  from Cons.prems(1) consider
    "e = Turn i" "as \<noteq> []" "two_threads i j k es (length (tl as)) (length bs)"
  | "e = Turn j" "bs \<noteq> []" "two_threads i j k es (length as) (length (tl bs))"
  | "e = Signalled k" "two_threads i j k es (length as) (length bs)"
    unfolding two_threads_Cons [OF assms(1)] by auto
  then show ?case
  proof cases
    case 1
    then obtain op ops where as: "as = op # ops" by (cases as) auto
    then obtain b Bs' where As: "As = b # Bs'" "turn_performs junk fid n b op" "list_all2 (turn_performs junk fid n) Bs' ops"
      using Cons.prems(2) by (auto simp: list_all2_Cons2)
    obtain st' w' where s: "ss_step n fid (Does op) (held p, w) = Some (st', w')"
      "ss_run n fid (as_ops i es ops bs) (st', w') = Some x"
      using Cons.prems(9) 1(1) as by (cases "ss_step n fid (Does op) (held p, w)") auto
    have len: "length ops = length Bs'" using list_all2_lengthD [OF As(3)] by simp
    have ti: "ti = left_over (b # Bs') (op # ops)" using Cons.prems(10) As(1) as by simp
    obtain p' where p': "pool_step junk (Turn i) p = Some (Inr p')" "held p' = st'" "carries p' i Bs' ti" "in_close p' k w'"
      "\<And>t'. t' \<noteq> i \<Longrightarrow> thread_of p' t' = thread_of p t'" "length (threads p') = length (threads p)"
      using turn_refines [OF Cons.prems(4) [unfolded As(1)] As(2) Cons.prems(6) Cons.prems(7) [unfolded as] ti s(1) len]
      by auto
    have "\<exists>p2. pool_run junk es p' = Some (Inr p2) \<and> held p2 = fst x \<and> in_close p2 k (snd x)
        \<and> length (threads p2) = length (threads p') \<and> carries p2 i [] ti \<and> carries p2 j [] tj"
    proof (rule Cons.IH)
      show "two_threads i j k es (length ops) (length bs)" using 1(3) as by simp
      show "carries p' j Bs tj" using carries_other [OF Cons.prems(5) p'(5,6)] assms(1) by simp
      show "close_last k i ops" using close_last_Cons Cons.prems(7) as by blast
      show "ss_run n fid (as_ops i es ops bs) (held p', w') = Some x" using s(2) p'(2) by simp
      show "Bs' \<noteq> [] \<longrightarrow> ti = left_over Bs' ops" using ti left_over_Cons [OF len] by simp
    qed (use As Cons.prems(3,8,11) p' in simp_all)
    then show ?thesis using 1(1) p'(1,6) by auto
  next
    case 2
    then obtain op ops where bs: "bs = op # ops" by (cases bs) auto
    then obtain b Bs' where Bs: "Bs = b # Bs'" "turn_performs junk fid n b op" "list_all2 (turn_performs junk fid n) Bs' ops"
      using Cons.prems(3) by (auto simp: list_all2_Cons2)
    obtain st' w' where s: "ss_step n fid (Does op) (held p, w) = Some (st', w')"
      "ss_run n fid (as_ops i es as ops) (st', w') = Some x"
      using Cons.prems(9) 2(1) bs assms(1) by (cases "ss_step n fid (Does op) (held p, w)") auto
    have len: "length ops = length Bs'" using list_all2_lengthD [OF Bs(3)] by simp
    have tj: "tj = left_over (b # Bs') (op # ops)" using Cons.prems(11) Bs(1) bs by simp
    obtain p' where p': "pool_step junk (Turn j) p = Some (Inr p')" "held p' = st'" "carries p' j Bs' tj" "in_close p' k w'"
      "\<And>t'. t' \<noteq> j \<Longrightarrow> thread_of p' t' = thread_of p t'" "length (threads p') = length (threads p)"
      using turn_refines [OF Cons.prems(5) [unfolded Bs(1)] Bs(2) Cons.prems(6) Cons.prems(8) [unfolded bs] tj s(1) len]
      by auto
    have "\<exists>p2. pool_run junk es p' = Some (Inr p2) \<and> held p2 = fst x \<and> in_close p2 k (snd x)
        \<and> length (threads p2) = length (threads p') \<and> carries p2 i [] ti \<and> carries p2 j [] tj"
    proof (rule Cons.IH)
      show "two_threads i j k es (length as) (length ops)" using 2(3) bs by simp
      show "carries p' i As ti" using carries_other [OF Cons.prems(4) p'(5,6)] assms(1) by simp
      show "close_last k j ops" using close_last_Cons Cons.prems(8) bs by blast
      show "ss_run n fid (as_ops i es as ops) (held p', w') = Some x" using s(2) p'(2) by simp
      show "Bs' \<noteq> [] \<longrightarrow> tj = left_over Bs' ops" using tj left_over_Cons [OF len] by simp
    qed (use Bs Cons.prems(2,7,10) p' in simp_all)
    then show ?thesis using 2(1) p'(1,6) by auto
  next
    case 3
    obtain st' w' where s: "ss_step n fid Wakes (held p, w) = Some (st', w')"
      "ss_run n fid (as_ops i es as bs) (st', w') = Some x"
      using Cons.prems(9) 3(1) by (cases "ss_step n fid Wakes (held p, w)") auto
    obtain p' where p': "pool_step junk (Signalled k) p = Some (Inr p')" "held p' = st'" "in_close p' k w'"
      "\<And>t bs lf. carries p t bs lf \<Longrightarrow> carries p' t bs lf" "length (threads p') = length (threads p)"
      using wake_refines [OF Cons.prems(6) s(1), of junk] by blast
    have "\<exists>p2. pool_run junk es p' = Some (Inr p2) \<and> held p2 = fst x \<and> in_close p2 k (snd x)
        \<and> length (threads p2) = length (threads p') \<and> carries p2 i [] ti \<and> carries p2 j [] tj"
      by (rule Cons.IH [OF 3(2) Cons.prems(2,3) p'(4) [OF Cons.prems(4)] p'(4) [OF Cons.prems(5)] p'(3)
            Cons.prems(7,8) _ Cons.prems(10,11)]) (use s(2) p'(2) in simp)
    then show ?thesis using 3(1) p'(1,5) by auto
  qed
qed

text \<open>Threads that take no part in a schedule, and the queue, stay as they are.\<close>

lemma pool_run_others:
  assumes "set es \<subseteq> {Turn i, Turn j, Signalled k}" "k = i \<or> k = j" "pool_run junk es p = Some (Inr p')"
  shows "backlog p' = backlog p \<and> (\<forall>t. t \<noteq> i \<and> t \<noteq> j \<longrightarrow> thread_of p' t = thread_of p t)"
  using assms(1,3)
proof (induction es arbitrary: p)
  case (Cons e es)
  then obtain p1 where p1: "pool_step junk e p = Some (Inr p1)" "pool_run junk es p1 = Some (Inr p')"
    by (auto split: option.splits sum.splits)
  have "backlog p1 = backlog p \<and> (\<forall>t. t \<noteq> i \<and> t \<noteq> j \<longrightarrow> thread_of p1 t = thread_of p t)"
  proof -
    consider t where "e = Turn t" "t = i \<or> t = j" | "e = Signalled k" using Cons.prems(1) by auto
    then show ?thesis
    proof cases
      case 1
      then have "do_turn junk t p = Some (Inr p1)" using p1(1) by simp
      then show ?thesis using 1(2) by (cases rule: do_turn_Inr) auto
    next
      case 2
      then have "do_wake k p = Some (Inr p1)" using p1(1) by simp
      then show ?thesis using assms(2) by (cases rule: do_wake_Inr) auto
    qed
  qed
  then show ?case using Cons.IH [OF _ p1(2)] Cons.prems(1) by auto
qed simp

section \<open>The upload\<close>

lemma evens_snoc:
  "evens (xs @ [x]) = (if even (length xs) then evens xs @ [x] else evens xs)
   \<and> odds (xs @ [x]) = (if even (length xs) then odds xs else odds xs @ [x])"
  by (induction xs) (auto simp: evens_Cons odds_def [of "[]"] odds_def [of "[x]"])

definition end_thread :: "nat \<Rightarrow> nat \<Rightarrow> 'a list \<Rightarrow> nat" where
  "end_thread i j ops = (if even (length ops) then j else i)"

lemma set_evens: "set (evens xs) \<subseteq> set xs" "set (odds xs) \<subseteq> set xs"
  using evens_odds_mset [of xs] by (metis set_mset_mset set_mset_union sup.cobounded1 sup.cobounded2)+

lemma upload_close_last:
  "close_last (end_thread i j (upload_ops c)) i (evens (upload_ops c))
   \<and> close_last (end_thread i j (upload_ops c)) j (odds (upload_ops c))"
proof -
  let ?xs = "SizeOp # map (\<lambda>x. PieceOp (fst x) (snd x)) (client_pieces c 0)"
  have u: "upload_ops c = ?xs @ [CloseOp]" by (simp add: upload_ops_def)
  have "CloseOp \<notin> set ?xs" by auto
  then have n: "CloseOp \<notin> set (evens ?xs)" "CloseOp \<notin> set (odds ?xs)"
    using set_evens(1) [of ?xs] set_evens(2) [of ?xs] by (meson subsetD)+
  then have "CloseOp \<notin> set (butlast (evens ?xs))" "CloseOp \<notin> set (butlast (odds ?xs))" by (meson in_set_butlastD)+
  then show ?thesis
    unfolding close_last_def u evens_snoc [THEN conjunct1] evens_snoc [THEN conjunct2] end_thread_def
    using n by simp
qed

lemma upload_two_way: "evens (upload_ops c) \<noteq> []" "odds (upload_ops c) \<noteq> []"
proof -
  have "client_pieces c 0 \<noteq> []" by (subst client_pieces.simps) (simp add: Let_def)
  then obtain x xs where "client_pieces c 0 = x # xs" by (cases "client_pieces c 0") auto
  then have u: "upload_ops c = SizeOp # PieceOp (fst x) (snd x) # map (\<lambda>x. PieceOp (fst x) (snd x)) xs @ [CloseOp]"
    by (simp add: upload_ops_def)
  show "evens (upload_ops c) \<noteq> []" "odds (upload_ops c) \<noteq> []" by (simp_all add: u evens_Cons)
qed

lemma as_ops_snoc: "as_ops i (es @ [Signalled k]) as bs = as_ops i es as bs @ [Wakes]"
  by (induction i es as bs rule: as_ops.induct) auto

lemma two_threads_snoc: "two_threads i j k (es @ [Signalled k]) m n \<longleftrightarrow> two_threads i j k es m n"
  by (simp add: two_threads_def turns_of_def)

lemma left_over_halves:
  assumes "CloseOp \<notin> set ops" "length bs = length ops"
  shows "left_over (evens (bs @ [b])) (evens (ops @ [CloseOp])) = (if even (length bs) then drop 8182 b else [])
    \<and> left_over (odds (bs @ [b])) (odds (ops @ [CloseOp])) = (if even (length bs) then [] else drop 8182 b)"
proof -
  have "CloseOp \<notin> set (evens ops)" "CloseOp \<notin> set (odds ops)" using assms(1) set_evens by fast+
  then have n: "\<not> (evens ops \<noteq> [] \<and> last (evens ops) = CloseOp)" "\<not> (odds ops \<noteq> [] \<and> last (odds ops) = CloseOp)"
    using last_in_set by metis+
  show ?thesis unfolding left_over_def evens_snoc [THEN conjunct1] evens_snoc [THEN conjunct2] assms(2)
    using n by auto
qed

lemma upload_left_over:
  assumes "list_all2 P blks (upload_ops c)"
  shows "left_over (evens blks) (evens (upload_ops c)) = (if even (length blks) then [] else drop 8182 (last blks))
    \<and> left_over (odds blks) (odds (upload_ops c)) = (if even (length blks) then drop 8182 (last blks) else [])"
proof -
  obtain ops where u: "upload_ops c = ops @ [CloseOp]" "CloseOp \<notin> set ops"
    by (rule that [of "SizeOp # map (\<lambda>x. PieceOp (fst x) (snd x)) (client_pieces c 0)"]) (auto simp: upload_ops_def)
  have l: "length blks = length ops + 1" using list_all2_lengthD [OF assms] u(1) by simp
  then have "blks \<noteq> []" by auto
  then obtain bs b where b: "blks = bs @ [b]" using append_butlast_last_id by metis
  then show ?thesis using left_over_halves [OF u(2), of bs b] l u(1) by auto
qed

lemma carries_done: "carries p t [] lf \<Longrightarrow> in_close p k Done \<Longrightarrow> thread_of p t = Some (Serving (arrived lf))"
  by (cases "t = k") (auto simp: carries_def in_close_def)

definition nobody_closes :: "pool \<Rightarrow> bool" where
  "nobody_closes p \<longleftrightarrow> (\<forall>t q s. thread_of p t \<noteq> Some (InClose q s))"

lemma pool_upload_stored:
  assumes n: "new_upload (held p) fid" and c: "length c < 2 ^ 63" "length c mod 8141 \<noteq> 0"
    and perf: "list_all2 (turn_performs junk fid (of_nat (length c))) blks (upload_ops c)"
    and ij: "i \<noteq> j" and s: "thread_of p i = Some (Serving (arrived (concat (evens blks))))"
      "thread_of p j = Some (Serving (arrived (concat (odds blks))))"
    and nc: "nobody_closes p" and k: "k = end_thread i j blks"
    and es: "two_threads i j k es (length (evens blks)) (length (odds blks))"
  shows "\<exists>p'. pool_run junk (es @ [Signalled k]) p = Some (Inr p') \<and> stored (held p) fid c (held p')
    \<and> length (threads p') = length (threads p) \<and> backlog p' = backlog p
    \<and> thread_of p' k = Some (Serving (arrived (drop 8182 (last blks))))
    \<and> thread_of p' (if k = i then j else i) = Some (Serving (arrived [])) \<and> nobody_closes p'
    \<and> (\<forall>t. t \<noteq> i \<and> t \<noteq> j \<longrightarrow> thread_of p' t = thread_of p t)"
proof -
  let ?as = "evens (upload_ops c)" and ?bs = "odds (upload_ops c)" and ?m = "of_nat (length c) :: u64"
  let ?ti = "left_over (evens blks) ?as" and ?tj = "left_over (odds blks) ?bs"
  note ev = list_all2_evens [OF perf]
  have len: "length (evens blks) = length ?as" "length (odds blks) = length ?bs" "length blks = length (upload_ops c)"
    using ev perf by (auto dest: list_all2_lengthD)
  have ne: "evens blks \<noteq> []" "odds blks \<noteq> []" using upload_two_way [of c] len by auto
  have ca: "carries p i (evens blks) ?ti" "carries p j (odds blks) ?tj"
    using s ne by (auto simp: carries_def dest: thread_of_less)
  have k': "k = end_thread i j (upload_ops c)" "k = i \<or> k = j" using k len(3) by (auto simp: end_thread_def)
  have "ops_of (as_ops i es ?as ?bs) \<in> shuffles ?as ?bs"
    by (rule as_ops_shuffles [OF ij]) (use es len in simp)
  then have "mset (ops_of (as_ops i es ?as ?bs)) = mset (upload_ops c)" by (rule two_ways_mset)
  then obtain st' where r: "ss_run ?m fid (as_ops i es ?as ?bs @ [Wakes]) (held p, NotYet) = Some (st', Done)"
    "stored (held p) fid c st'"
    using upload_any_order [OF n c] by blast
  have "in_close p k NotYet" using nc by (simp add: in_close_def nobody_closes_def)
  then obtain p' where p': "pool_run junk (es @ [Signalled k]) p = Some (Inr p')" "held p' = fst (st', Done)"
      "in_close p' k (snd (st', Done))" "length (threads p') = length (threads p)" "carries p' i [] ?ti" "carries p' j [] ?tj"
    using threads_refine [OF ij k'(2), of "es @ [Signalled k]" ?as ?bs junk fid ?m "evens blks" "odds blks" p ?ti ?tj NotYet "(st', Done)"]
      upload_close_last [of i j c] k' ca ev es len r(1)
    by (auto simp: as_ops_snoc two_threads_snoc)
  have "set (es @ [Signalled k]) \<subseteq> {Turn i, Turn j, Signalled k}" using es by (simp add: two_threads_def)
  note others = pool_run_others [OF this k'(2) p'(1)]
  have d: "in_close p' k Done" using p'(3) by simp
  then have "thread_of p' t \<noteq> Some (InClose q s)" for t q s by (cases "t = k") (simp_all add: in_close_def)
  then have "nobody_closes p'" by (simp add: nobody_closes_def)
  moreover have "thread_of p' k = Some (Serving (arrived (drop 8182 (last blks))))
      \<and> thread_of p' (if k = i then j else i) = Some (Serving (arrived []))"
    using carries_done [OF p'(5) d] carries_done [OF p'(6) d] upload_left_over [OF perf] k ij
    by (auto simp: end_thread_def split: if_splits)
  ultimately show ?thesis using r(2) p' others by simp
qed

text \<open>Two connections that arrive one after the other, and the threads that take them.\<close>

lemma accept_run:
  assumes "thread_of p t = Some AtAccept" "backlog p = []"
  shows "pool_run junk (Arrives s # Accepts t # es) p = pool_run junk es (set_thread t (Serving s) p)"
proof -
  have e: "p\<lparr>backlog := []\<rparr> = p" using assms(2) by (cases p) simp
  have "do_accept t True (p\<lparr>backlog := [s]\<rparr>) = Inr (set_thread t (Serving s) (p\<lparr>backlog := []\<rparr>))"
    using assms by (simp add: do_accept_def)
  then have "do_accept t True (p\<lparr>backlog := [s]\<rparr>) = Inr (set_thread t (Serving s) p)" unfolding e .
  then show ?thesis using assms(2) by simp
qed

lemma two_accepts:
  assumes "thread_of p0 i = Some AtAccept" "thread_of p0 j = Some AtAccept" "backlog p0 = []"
    and "nobody_closes p0" "i \<noteq> j"
  shows "\<exists>p. pool_run junk (Arrives s # Accepts i # Arrives s' # Accepts j # es) p0 = pool_run junk es p
    \<and> held p = held p0 \<and> thread_of p i = Some (Serving s) \<and> thread_of p j = Some (Serving s') \<and> nobody_closes p
    \<and> backlog p = [] \<and> length (threads p) = length (threads p0)
    \<and> (\<forall>t. t \<noteq> i \<and> t \<noteq> j \<longrightarrow> thread_of p t = thread_of p0 t)"
proof -
  let ?p = "set_thread i (Serving s) p0"
  let ?q = "set_thread j (Serving s') ?p"
  have "thread_of ?p j = Some AtAccept" using assms(2,5) by simp
  then have "pool_run junk (Arrives s # Accepts i # Arrives s' # Accepts j # es) p0 = pool_run junk es ?q"
    using accept_run [OF assms(1,3)] accept_run [of ?p j] assms(3) by simp
  then show ?thesis using assms thread_of_less [OF assms(1)] thread_of_less [OF assms(2)]
    by (intro exI [of _ ?q]) (auto simp: nobody_closes_def)
qed

end
