(* ===== verification/Programs.thy ===== *)
theory Programs
  imports TransferServer
begin

text \<open>
  The \<^verbatim>\<open>main\<close> functions of the file transfer's client and of the transfer server, with their exit
  codes, and what goes wrong when a server cannot be reached. The storage server's \<^verbatim>\<open>main\<close> is in
  \<open>Pool\<close>.
\<close>

section \<open>The client\<close>

text \<open>\<^verbatim>\<open>CheckFile\<close>: \<open>access_res\<close> is what \<^verbatim>\<open>access(file_path, R_OK)\<close> returns.\<close>

definition CheckFile :: "int \<Rightarrow> int" where
  "CheckFile access_res = (if access_res \<noteq> 0 then -1 else 0)"

text \<open>The end of a program: its exit code and what it has written to its connection, or an abort.\<close>

datatype program_end = ProgramExits int "byte list list" | ProgramAborts

text \<open>
  \<open>SendFile\<close> connects first: its argument \<^verbatim>\<open>connected\<close> is the result of \<open>Connect2Server\<close>.
\<close>

definition client_main :: "tcp_env \<Rightarrow> nat list \<Rightarrow> int \<Rightarrow> byte list list \<Rightarrow> cbuf \<times> cbuf \<times> cbuf \<times> cbuf \<Rightarrow>
    byte list \<Rightarrow> byte list option \<Rightarrow> program_end option" where
  "client_main e ports access_res argv raw sha1sum_out file =
     (if length argv \<noteq> 2 then Some (ProgramExits 1 [])
      else if CheckFile access_res \<noteq> 0 then Some (ProgramExits 1 [])
      else
        map_option (\<lambda>r. case r of
            SendReturns err w \<Rightarrow> ProgramExits (if err \<noteq> 0 then 1 else 0) w
          | SendExits c w \<Rightarrow> ProgramExits c w
          | SendAborts \<Rightarrow> ProgramAborts)
          (SendFile (fst (Connect2Server TRANSFER_IP TRANSFER_PORT e Map.empty ports) = 0)
            raw sha1sum_out (argv ! 1) file))"

section \<open>The transfer server\<close>

text \<open>
  \<^verbatim>\<open>main\<close>: the exit code, or the number of threads it has started (the loop over
  \<^verbatim>\<open>TS_N_THREADS\<close> is commented out).
\<close>

definition ts_main :: "tcp_env \<Rightarrow> socks \<Rightarrow> nat list \<Rightarrow> (int + nat) \<times> socks \<times> nat list" where
  "ts_main e s ports =
     (let (err, listen_fd, s', ports') = ts_start_server e s ports in
      (if err < 0 then Inl 1 else Inr 1, s', ports'))"

definition ts_sig_int :: int where
  "ts_sig_int = 1"

section \<open>Exit codes\<close>

lemma client_main_exits:
  assumes "ok_id fid" "length (argv ! 1) \<le> 461"
    and "length raw1 = 512" "length raw40 = 40" "length raw2 = PACKAGE_SIZE" "length raw3 = 512"
  shows "client_main e ports access_res argv (raw1, raw40, raw2, raw3) (hex (sha1sum fid) @ rest_out) (Some c) =
    Some (if length argv = 2 \<and> access_res = 0 \<and> connected_ok TRANSFER_PORT e ports
      then ProgramExits 0 (upload_msgs fid (argv ! 1) c) else ProgramExits 1 [])"
proof -
  have "SendFile True (raw1, raw40, raw2, raw3) (hex (sha1sum fid) @ rest_out) (argv ! 1) (Some c)
      = Some (SendReturns 0 (upload_msgs fid (argv ! 1) c))"
    by (rule SendFile_msgs [OF assms])
  moreover have "SendFile False (raw1, raw40, raw2, raw3) (hex (sha1sum fid) @ rest_out) (argv ! 1) (Some c)
      = Some (SendReturns (-1) [])"
    by (simp add: SendFile_def)
  moreover have "fst (Connect2Server TRANSFER_IP TRANSFER_PORT e Map.empty ports) = 0
      \<longleftrightarrow> connected_ok TRANSFER_PORT e ports"
    by (simp add: Connect2Server_cases)
  ultimately show ?thesis
    by (cases "connected_ok TRANSFER_PORT e ports") (simp_all add: client_main_def CheckFile_def)
qed



section \<open>A reading process without a server\<close>



end
