(* ===== verification/Pipeline.thy ===== *)
theory Pipeline
  imports SystemProps PoolUpload Programs
begin

text \<open>
  The file transfer end to end, byte by byte: the stream of a client is cut into messages by the
  transfer server, each message is announced to one of the two reading processes, which sends its
  block over its own connection, and two threads of the storage server take the two streams.
\<close>

section \<open>The transfer server and the reading processes\<close>

type_synonym readers = "byte list \<Rightarrow> data_recv \<times> sender"

text \<open>
  A run in which the reading process of an announced block takes its turn before the next message
  is read. \<open>env\<close> are the answers to the calls that connect a reading process.
\<close>

function relay_run :: "tcp_env \<Rightarrow> nat list \<Rightarrow> cbuf \<Rightarrow> cbuf \<Rightarrow> sock \<Rightarrow> kernel \<Rightarrow> data_recv \<Rightarrow> readers \<Rightarrow>
    (cbuf \<times> kernel \<times> data_recv \<times> readers) waits option" where
  "relay_run env ports raw buffer s k w rd =
     (case thread_turn FifoOk buffer s k w of
        None \<Rightarrow> None
      | Some ClientGone \<Rightarrow> Some (Goes (buffer, k, w, rd))
      | Some WriterSleeps \<Rightarrow> Some Sleeps
      | Some (Relayed buffer' s' k' w' None) \<Rightarrow> relay_run env ports raw buffer' s' k' w' rd
      | Some (Relayed buffer' s' k' w' (Some (pipe, got))) \<Rightarrow>
          (case read_turn FifoOk env ports raw got (k', rd pipe) of
             None \<Rightarrow> None
           | Some Sleeps \<Rightarrow> Some Sleeps
           | Some (Goes (k'', x)) \<Rightarrow> relay_run env ports raw buffer' s' k'' w' (rd(pipe := x))))"
  by pat_completeness auto
termination
  by (relation "measure (\<lambda>(env, ports, raw, b, s, k, w, rd). sock_size s)") (auto dest: thread_turn_size)

declare relay_run.simps [simp del]

text \<open>
  The outer loop of the transfer server's one thread over the connections that arrive, \<open>None\<close> for a
  failed \<^verbatim>\<open>accept\<close>: the exit code of the process, or none while it waits for the next client. The
  buffer is not cleared between clients.
\<close>

fun relay_clients :: "tcp_env \<Rightarrow> nat list \<Rightarrow> cbuf \<Rightarrow> cbuf \<Rightarrow> sock option list \<Rightarrow> kernel \<Rightarrow> data_recv \<Rightarrow> readers \<Rightarrow>
    (int option \<times> kernel \<times> data_recv \<times> readers) waits option" where
  "relay_clients env ports raw buffer [] k w rd = Some (Goes (None, k, w, rd))"
| "relay_clients env ports raw buffer (None # cs) k w rd = Some (Goes (Some 1, k, w, rd))"
| "relay_clients env ports raw buffer (Some s # cs) k w rd =
     (case relay_run env ports raw buffer s k w rd of
        None \<Rightarrow> None
      | Some Sleeps \<Rightarrow> Some Sleeps
      | Some (Goes (buffer', k', w', rd')) \<Rightarrow> relay_clients env ports raw buffer' cs k' w' rd')"

section \<open>One message\<close>

text \<open>A reading process that is attached and whose connection is open or can be opened.\<close>

definition can_send :: "tcp_env \<Rightarrow> nat list \<Rightarrow> data_recv \<Rightarrow> data_recv \<times> sender \<Rightarrow> bool" where
  "can_send env ports w x \<longleftrightarrow> w_shmctl (fst x) = w_shmctl w \<and> w_semtable (fst x) = w_semtable w
     \<and> (linked (snd x) \<or> socket_fd (snd x) < 0 \<and> connected_ok STORAGE_SERVER_PORT env ports)"

lemma can_send_data:
  "can_send env ports w (d, x) \<Longrightarrow>
    \<exists>x'. SendData env ports x buf = (0, x') \<and> linked x' \<and> sent x' = sent x @ buf"
proof -
  assume a: "can_send env ports w (d, x)"
  show ?thesis
  proof (cases "linked x")
    case True
    moreover have "linked (x\<lparr>sent := sent x @ buf\<rparr>)" using True by (simp add: linked_def)
    ultimately show ?thesis by (simp add: SendData_linked)
  next
    case False
    then show ?thesis using a SendData_connects by (simp add: can_send_def)
  qed
qed

text \<open>The receive buffer that holds the message \<open>m\<close>.\<close>

definition holds_msg :: "cbuf \<Rightarrow> byte list \<Rightarrow> bool" where
  "holds_msg buffer m \<longleftrightarrow> handed buffer (MSG_HEADER_LEN + len_field buffer) = m"

lemma thread_turn_framed:
  assumes m: "framed m" and b: "length buffer = PACKAGE_SIZE"
    and w: "WriteData FifoOk k d m = Some (Goes (True, k', d', Some out))"
  shows "\<exists>b'. thread_turn FifoOk buffer (arrived (m @ rest)) k d = Some (Relayed b' (arrived rest) k' d' (Some out))
    \<and> length b' = PACKAGE_SIZE \<and> holds_msg b' m"
proof -
  obtain b' where b': "read_message buffer (arrived (m @ rest)) = Some (Some (b', length m, arrived rest))"
    "length b' = PACKAGE_SIZE" "handed b' (length m) = m"
    using read_message_framed [OF m b] by blast
  have l: "51 \<le> length m" "length m \<le> PACKAGE_SIZE" "length m = 51 + len_field m" using m by (simp_all add: framed_def)
  then have "b' = m @ drop (length m) b'" using b'(2,3) append_take_drop_id [of "length m" b'] by (simp add: handed_def)
  then have "b' = take 51 m @ (drop 51 m @ drop (length m) b')" by (metis append.assoc append_take_drop_id)
  then have "len_field b' = len_field m" using len_field_take [OF l(1)] by metis
  then have "holds_msg b' m" using b'(3) l(3) by (simp add: holds_msg_def MSG_HEADER_LEN_def)
  then show ?thesis using b' w by (simp add: thread_turn_def)
qed

text \<open>
  Byte 8182 of a block is where the storage server stops reading an end message, ten bytes before
  the end of the block. It is zero as long as no message is long enough to reach it.
\<close>

definition short_msg :: "byte list \<Rightarrow> bool" where
  "short_msg m \<longleftrightarrow> length m \<le> 8182"

definition low_blocks :: "kernel \<Rightarrow> data_recv \<Rightarrow> bool" where
  "low_blocks k w \<longleftrightarrow> (\<forall>j < 10. block k (w_shmctl w) j ! 8182 = 0)"

lemma message_passes:
  assumes m: "length m \<le> PACKAGE_SIZE" and r: "ready k w" and rd: "\<forall>i. can_send env ports w (rd i)"
  shows "\<exists>k1 w1 p got k2 x' old. WriteData FifoOk k w m = Some (Goes (True, k1, w1, Some (p, got)))
    \<and> read_turn FifoOk env ports raw got (k1, rd p) = Some (Goes (k2, x'))
    \<and> p = pipe_name ((dr_id w + 1) mod 2) \<and> ready k2 w1 \<and> dr_id w1 = (dr_id w + 1) mod 2 \<and> length old = PACKAGE_SIZE
    \<and> sent (snd x') = sent (snd (rd p)) @ package old m
    \<and> (\<forall>i. can_send env ports w1 ((rd(p := x')) i))
    \<and> (low_blocks k w \<and> short_msg m \<longrightarrow> low_blocks k2 w1 \<and> old ! 8182 = 0)"
proof -
  let ?c = "w_shmctl w"
  let ?p = "pipe_name ((dr_id w + 1) mod 2)"
  define i where "i = nat ((dr_index w + 1) mod 10)"
  have i: "i < 10" by (simp add: i_def)
  let ?w1 = "w\<lparr>dr_index := int i, dr_id := (dr_id w + 1) mod 2\<rparr>"
  have len: "length m \<le> 8192" using m by (simp add: PACKAGE_SIZE_def)
  obtain k1 where w1: "WriteData FifoOk k w m = Some (Goes (True, k1, ?w1, Some (?p, fifo_bytes (int i))))"
    and k1: "ready k1 w" "block k1 ?c i = m @ drop (length m) (block k ?c i)"
      "\<forall>j < 10. j \<noteq> i \<longrightarrow> block k1 ?c j = block k ?c j"
    using WriteData_ready [OF r len i_def] by (auto simp: pipe_name_def)
  obtain d x where dx: "rd ?p = (d, x)" by fastforce
  have s: "can_send env ports w (d, x)" using rd dx by metis
  then have att: "w_shmctl d = ?c" "w_semtable d = w_semtable w" by (simp_all add: can_send_def)
  then have rdy: "ready k1 d" using k1(1) by (simp add: ready_def)
  from ReadData_ready [OF rdy i, of raw] obtain k2 where
    r2: "ReadData FifoOk raw (fifo_bytes (int i)) k1 d 8192 = Some (Goes (True, k2, d, Some (block k1 ?c i)))"
    "ready k2 d" "block k2 ?c = block k1 ?c"
    unfolding att(1) by blast
  obtain x' where x': "SendData env ports x (block k1 ?c i) = (0, x')" "linked x'"
    "sent x' = sent x @ block k1 ?c i"
    using can_send_data [OF s] by blast
  have rt: "read_turn FifoOk env ports raw (fifo_bytes (int i)) (k1, rd ?p) = Some (Goes (k2, d, x'))"
    using r2(1) x'(1) dx by (simp add: read_turn_def)
  have "ready k2 ?w1" using r2(2) att by (simp add: ready_def)
  moreover have lb: "length (block k ?c i) = PACKAGE_SIZE"
    using r i by (simp add: ready_def length_block PACKAGE_SIZE_def)
  moreover have "block k1 ?c i = package (block k ?c i) m" using k1(2) by (simp add: package_def fill_def)
  moreover have "\<forall>q. can_send env ports ?w1 ((rd(?p := (d, x'))) q)"
    using rd att x'(2) by (simp add: can_send_def)
  moreover have "low_blocks k2 ?w1 \<and> block k ?c i ! 8182 = 0" if "low_blocks k w" "short_msg m"
  proof -
    have z: "block k ?c j ! 8182 = 0" if "j < 10" for j using \<open>low_blocks k w\<close> that by (simp add: low_blocks_def)
    have "block k1 ?c i ! 8182 = 0"
      using z [OF i] that(2) lb by (simp add: k1(2) nth_append short_msg_def PACKAGE_SIZE_def)
    then have "block k1 ?c j ! 8182 = 0" if "j < 10" for j using z [OF that] k1(3) that by (cases "j = i") simp_all
    then show ?thesis using z [OF i] by (simp add: low_blocks_def r2(3))
  qed
  ultimately show ?thesis using w1 rt x'(3) dx
    by (intro exI [of _ k1] exI [of _ ?w1] exI [of _ ?p] exI [of _ "fifo_bytes (int i)"] exI [of _ k2] exI [of _ "(d, x')"]
        exI [of _ "block k ?c i"]) simp
qed

section \<open>The streams of the two connections\<close>

text \<open>Messages that are written one after the other, with the turn of the reading process after each.\<close>

fun pass_all :: "tcp_env \<Rightarrow> nat list \<Rightarrow> cbuf \<Rightarrow> byte list list \<Rightarrow> kernel \<Rightarrow> data_recv \<Rightarrow> readers \<Rightarrow>
    (kernel \<times> data_recv \<times> readers) waits option" where
  "pass_all env ports raw [] k w rd = Some (Goes (k, w, rd))"
| "pass_all env ports raw (m # ms) k w rd =
     (case WriteData FifoOk k w m of
        None \<Rightarrow> None
      | Some Sleeps \<Rightarrow> Some Sleeps
      | Some (Goes (ok, k', w', None)) \<Rightarrow> pass_all env ports raw ms k' w' rd
      | Some (Goes (ok, k', w', Some (pipe, got))) \<Rightarrow>
          (case read_turn FifoOk env ports raw got (k', rd pipe) of
             None \<Rightarrow> None
           | Some Sleeps \<Rightarrow> Some Sleeps
           | Some (Goes (k'', x)) \<Rightarrow> pass_all env ports raw ms k'' w' (rd(pipe := x))))"

lemma pass_all_append:
  "pass_all env ports raw (xs @ ys) k w rd =
     (case pass_all env ports raw xs k w rd of
        Some (Goes (k', w', rd')) \<Rightarrow> pass_all env ports raw ys k' w' rd' | r \<Rightarrow> r)"
  by (induction xs arbitrary: k w rd) (auto split: option.split waits.split)

lemma pipe_name_inj: "pipe_name 0 \<noteq> pipe_name 1"
  by (simp add: pipe_name_def dec_int_def dec_nat.simps [of 0] dec_nat.simps [of "Suc 0"])

definition passing :: "tcp_env \<Rightarrow> nat list \<Rightarrow> kernel \<Rightarrow> data_recv \<Rightarrow> readers \<Rightarrow> bool" where
  "passing env ports k w rd \<longleftrightarrow> ready k w \<and> (dr_id w = 0 \<or> dr_id w = 1) \<and> (\<forall>i. can_send env ports w (rd i))"

lemma pass_streams:
  assumes "\<forall>m \<in> set ms. length m \<le> PACKAGE_SIZE" "passing env ports k w rd"
  shows "\<exists>k' w' rd' olds. pass_all env ports raw ms k w rd = Some (Goes (k', w', rd')) \<and> passing env ports k' w' rd'
    \<and> dr_id w' = (if even (length ms) then dr_id w else 1 - dr_id w)
    \<and> length olds = length ms \<and> blocks olds
    \<and> (low_blocks k w \<and> (\<forall>m \<in> set ms. short_msg m) \<longrightarrow> low_blocks k' w' \<and> (\<forall>b \<in> set olds. b ! 8182 = 0))
    \<and> sent (snd (rd' (pipe_name (1 - dr_id w)))) =
        sent (snd (rd (pipe_name (1 - dr_id w)))) @ concat (evens (map2 package olds ms))
    \<and> sent (snd (rd' (pipe_name (dr_id w)))) =
        sent (snd (rd (pipe_name (dr_id w)))) @ concat (odds (map2 package olds ms))"
  using assms
proof (induction ms arbitrary: k w rd)
  case Nil
  then show ?case
    by (intro exI [of _ k] exI [of _ w] exI [of _ rd] exI [of _ "[]"]) (simp add: odds_def)
next
  case (Cons m ms)
  let ?b = "(dr_id w + 1) mod 2"
  have p: "ready k w" "dr_id w = 0 \<or> dr_id w = 1" "\<forall>i. can_send env ports w (rd i)"
    using Cons.prems(2) by (simp_all add: passing_def)
  have m: "length m \<le> PACKAGE_SIZE" using Cons.prems(1) by simp
  obtain k0 w1 q got k1 x' old where s: "WriteData FifoOk k w m = Some (Goes (True, k0, w1, Some (q, got)))"
    "read_turn FifoOk env ports raw got (k0, rd q) = Some (Goes (k1, x'))" "q = pipe_name ?b" "ready k1 w1" "dr_id w1 = ?b"
    "length old = PACKAGE_SIZE" "sent (snd x') = sent (snd (rd q)) @ package old m" "\<forall>i. can_send env ports w1 ((rd(q := x')) i)"
    "low_blocks k w \<and> short_msg m \<longrightarrow> low_blocks k1 w1 \<and> old ! 8182 = 0"
    using message_passes [OF m p(1,3), of raw] by blast
  have id: "?b = 1 - dr_id w" "dr_id w1 = 0 \<or> dr_id w1 = 1" using p(2) s(5) by auto
  have step: "pass_all env ports raw (m # ms) k w rd = pass_all env ports raw ms k1 w1 (rd(q := x'))"
    using s(1,2) by simp
  have "passing env ports k1 w1 (rd(q := x'))" using s(4,8) id(2) by (simp add: passing_def)
  moreover have "\<forall>m \<in> set ms. length m \<le> PACKAGE_SIZE" using Cons.prems(1) by simp
  ultimately obtain k' w' rd' olds where r: "pass_all env ports raw ms k1 w1 (rd(q := x')) = Some (Goes (k', w', rd'))"
    "passing env ports k' w' rd'"
    "dr_id w' = (if even (length ms) then dr_id w1 else 1 - dr_id w1)" "length olds = length ms" "blocks olds"
    "low_blocks k1 w1 \<and> (\<forall>m \<in> set ms. short_msg m) \<longrightarrow> low_blocks k' w' \<and> (\<forall>b \<in> set olds. b ! 8182 = 0)"
    "sent (snd (rd' (pipe_name (1 - dr_id w1)))) =
        sent (snd ((rd(q := x')) (pipe_name (1 - dr_id w1)))) @ concat (evens (map2 package olds ms))"
    "sent (snd (rd' (pipe_name (dr_id w1)))) =
        sent (snd ((rd(q := x')) (pipe_name (dr_id w1)))) @ concat (odds (map2 package olds ms))"
    using Cons.IH [of k1 w1 "rd(q := x')"] by blast
  have d: "dr_id w1 = 1 - dr_id w" "1 - dr_id w1 = dr_id w" using s(5) id by simp_all
  have ne: "pipe_name (dr_id w) \<noteq> pipe_name (1 - dr_id w)"
    using p(2) pipe_name_inj by (auto dest: sym)
  have "sent (snd (rd' (pipe_name (1 - dr_id w)))) =
      sent (snd (rd (pipe_name (1 - dr_id w)))) @ concat (evens (map2 package (old # olds) (m # ms)))"
    using r(8) s(7) unfolding d id s(3) by (simp add: evens_Cons)
  moreover have "sent (snd (rd' (pipe_name (dr_id w)))) =
      sent (snd (rd (pipe_name (dr_id w)))) @ concat (odds (map2 package (old # olds) (m # ms)))"
    using r(7) ne unfolding d id s(3) by simp
  moreover have "dr_id w' = (if even (length (m # ms)) then dr_id w else 1 - dr_id w)" using r(3) d by simp
  ultimately show ?case using step s(6,9) r(1,2,4-6)
    by (intro exI [of _ k'] exI [of _ w'] exI [of _ rd'] exI [of _ "old # olds"]) simp
qed

lemma framed_le: "framed m \<Longrightarrow> length m \<le> PACKAGE_SIZE"
  unfolding framed_def by blast

lemma relay_nothing: "relay_run env ports raw buffer (arrived []) k w rd = Some (Goes (buffer, k, w, rd))"
  by (subst relay_run.simps) (simp add: thread_turn_def read_message_def arrived_def MSG_HEADER_LEN_def)

text \<open>The stream of a client is passed on message by message.\<close>

lemma relay_passes:
  assumes "\<forall>m \<in> set ms. framed m" "length buffer = PACKAGE_SIZE" "passing env ports k w rd"
    and "pass_all env ports raw ms k w rd = Some (Goes (k', w', rd'))"
  shows "\<exists>b'. relay_run env ports raw buffer (arrived (concat ms)) k w rd = Some (Goes (b', k', w', rd'))
    \<and> length b' = PACKAGE_SIZE \<and> (ms \<noteq> [] \<longrightarrow> holds_msg b' (last ms))"
  using assms
proof (induction ms arbitrary: buffer k w rd)
  case Nil
  then show ?case by (simp add: relay_nothing)
next
  case (Cons m ms)
  have m: "framed m" "length m \<le> PACKAGE_SIZE" and fr: "\<forall>m \<in> set ms. framed m"
    using Cons.prems(1) framed_le by simp_all
  have p: "ready k w" "dr_id w = 0 \<or> dr_id w = 1" "\<forall>i. can_send env ports w (rd i)"
    using Cons.prems(3) by (simp_all add: passing_def)
  obtain k0 w1 q got k1 x' where s: "WriteData FifoOk k w m = Some (Goes (True, k0, w1, Some (q, got)))"
    "read_turn FifoOk env ports raw got (k0, rd q) = Some (Goes (k1, x'))" "ready k1 w1" "dr_id w1 = (dr_id w + 1) mod 2"
    "\<forall>i. can_send env ports w1 ((rd(q := x')) i)"
    using message_passes [OF m(2) p(1,3), of raw] by blast
  obtain b1 where t: "thread_turn FifoOk buffer (arrived (m @ concat ms)) k w = Some (Relayed b1 (arrived (concat ms)) k0 w1 (Some (q, got)))"
    "length b1 = PACKAGE_SIZE" "holds_msg b1 m"
    using thread_turn_framed [OF m(1) Cons.prems(2) s(1)] by blast
  have "relay_run env ports raw buffer (arrived (concat (m # ms))) k w rd =
      relay_run env ports raw b1 (arrived (concat ms)) k1 w1 (rd(q := x'))"
    by (subst relay_run.simps) (simp add: t(1) s(2))
  moreover have "passing env ports k1 w1 (rd(q := x'))" using s(3-5) p(2) by (auto simp: passing_def)
  moreover have "pass_all env ports raw ms k1 w1 (rd(q := x')) = Some (Goes (k', w', rd'))" using Cons.prems(4) s(1,2) by simp
  ultimately have step: "\<exists>b'. relay_run env ports raw b1 (arrived (concat ms)) k1 w1 (rd(q := x')) = Some (Goes (b', k', w', rd'))
      \<and> length b' = PACKAGE_SIZE \<and> (ms \<noteq> [] \<longrightarrow> holds_msg b' (last ms))"
    and relay: "relay_run env ports raw buffer (arrived (concat (m # ms))) k w rd =
      relay_run env ports raw b1 (arrived (concat ms)) k1 w1 (rd(q := x'))"
    using Cons.IH [OF fr t(2), of k1 w1 "rd(q := x')"] by blast+
  show ?case
  proof (cases "ms = []")
    case True
    then have "relay_run env ports raw b1 (arrived (concat ms)) k1 w1 (rd(q := x')) = Some (Goes (b1, k1, w1, rd(q := x')))"
      by (simp add: relay_nothing)
    then show ?thesis using step t(2,3) True unfolding relay by simp
  next
    case False
    then show ?thesis using step unfolding relay by simp
  qed
qed

lemma relay_streams:
  assumes "\<forall>m \<in> set ms. framed m" "length buffer = PACKAGE_SIZE" "passing env ports k w rd"
  shows "\<exists>b' k' w' rd' olds.
      relay_run env ports raw buffer (arrived (concat ms)) k w rd = Some (Goes (b', k', w', rd'))
    \<and> length b' = PACKAGE_SIZE \<and> passing env ports k' w' rd'
    \<and> length olds = length ms \<and> blocks olds
    \<and> (low_blocks k w \<and> (\<forall>m \<in> set ms. short_msg m) \<longrightarrow> low_blocks k' w' \<and> (\<forall>b \<in> set olds. b ! 8182 = 0))
    \<and> sent (snd (rd' (pipe_name (1 - dr_id w)))) =
        sent (snd (rd (pipe_name (1 - dr_id w)))) @ concat (evens (map2 package olds ms))
    \<and> sent (snd (rd' (pipe_name (dr_id w)))) =
        sent (snd (rd (pipe_name (dr_id w)))) @ concat (odds (map2 package olds ms))"
proof -
  have "\<forall>m \<in> set ms. length m \<le> PACKAGE_SIZE" using assms(1) framed_le by blast
  from pass_streams [OF this assms(3), of raw] relay_passes [OF assms, of raw] show ?thesis by meson
qed

text \<open>Clients that come one after another.\<close>

lemma clients_pass:
  assumes "\<forall>ms \<in> set mss. \<forall>m \<in> set ms. framed m" "length buffer = PACKAGE_SIZE" "passing env ports k w rd"
    and "pass_all env ports raw (concat mss) k w rd = Some (Goes (k', w', rd'))"
  shows "\<exists>b'. relay_clients env ports raw buffer (map (\<lambda>ms. Some (arrived (concat ms))) mss @ cs) k w rd =
        relay_clients env ports raw b' cs k' w' rd'"
  using assms
proof (induction mss arbitrary: buffer k w rd)
  case Nil
  then show ?case by auto
next
  case (Cons ms mss)
  have fr: "\<forall>m \<in> set ms. framed m" using Cons.prems(1) by simp
  obtain b1 k1 w1 rd1 where r: "relay_run env ports raw buffer (arrived (concat ms)) k w rd = Some (Goes (b1, k1, w1, rd1))"
      "length b1 = PACKAGE_SIZE" "passing env ports k1 w1 rd1" "pass_all env ports raw ms k w rd = Some (Goes (k1, w1, rd1))"
  proof -
    have "\<forall>m \<in> set ms. length m \<le> PACKAGE_SIZE" using fr framed_le by blast
    from pass_streams [OF this Cons.prems(3), of raw] relay_passes [OF fr Cons.prems(2,3), of raw] that show ?thesis by blast
  qed
  have "pass_all env ports raw (concat mss) k1 w1 rd1 = Some (Goes (k', w', rd'))"
    using Cons.prems(4) r(4) by (simp add: pass_all_append)
  then show ?case using Cons.IH [OF _ r(2,3)] Cons.prems(1) r(1) by simp
qed

lemma relay_many:
  assumes "\<forall>ms \<in> set mss. \<forall>m \<in> set ms. framed m" "length buffer = PACKAGE_SIZE" "passing env ports k w rd"
  shows "\<exists>b' k' w' rd' olds.
      relay_clients env ports raw buffer (map (\<lambda>ms. Some (arrived (concat ms))) mss @ cs) k w rd =
        relay_clients env ports raw b' cs k' w' rd'
    \<and> length olds = length (concat mss) \<and> blocks olds
    \<and> (low_blocks k w \<and> (\<forall>m \<in> set (concat mss). short_msg m) \<longrightarrow> (\<forall>b \<in> set olds. b ! 8182 = 0))
    \<and> sent (snd (rd' (pipe_name (1 - dr_id w)))) =
        sent (snd (rd (pipe_name (1 - dr_id w)))) @ concat (evens (map2 package olds (concat mss)))
    \<and> sent (snd (rd' (pipe_name (dr_id w)))) =
        sent (snd (rd (pipe_name (dr_id w)))) @ concat (odds (map2 package olds (concat mss)))"
proof -
  have "\<forall>m \<in> set (concat mss). length m \<le> PACKAGE_SIZE" using assms(1) framed_le by auto
  from pass_streams [OF this assms(3), of raw] clients_pass [OF assms, of raw _ _ _ cs] show ?thesis by meson
qed

section \<open>End to end\<close>

definition tcp_allows :: "tcp_env \<Rightarrow> bool" where
  "tcp_allows e \<longleftrightarrow> 0 \<le> socket_res e \<and> 0 \<le> bind_res e \<and> 0 \<le> listen_res e \<and> 0 \<le> connect_res e"

text \<open>The memory of a process that has just started.\<close>

definition fresh_store :: "store \<Rightarrow> bool" where
  "fresh_store st \<longleftrightarrow> objs st = Map.empty \<and> nodes (mem st) = Map.empty \<and> fds st = Map.empty
     \<and> 0 < brk st \<and> 0 \<le> next_fd st"

lemma services_start:
  assumes "tcp_allows e"
  shows "\<exists>p0 s1 s2. ss_main e Map.empty [] st = (Inr p0, s1, [STORAGE_SERVER_PORT])
    \<and> p0 = \<lparr>backlog = [], threads = replicate SS_N_THREADS AtAccept, held = InitHashTable st\<rparr>
    \<and> ts_main e Map.empty [STORAGE_SERVER_PORT] = (Inr 1, s2, [TRANSFER_PORT, STORAGE_SERVER_PORT])
    \<and> connected_ok TRANSFER_PORT e [TRANSFER_PORT, STORAGE_SERVER_PORT]"
  using assms
  by (simp add: ss_main_def start_server_def ts_main_def ts_start_server_def start_listening_def
      connected_ok_def tcp_allows_def STORAGE_SERVER_PORT_def TRANSFER_PORT_def Let_def)


definition sample_process :: store where
  "sample_process = \<lparr>mem = \<lparr>heads = (\<lambda>h. 0), nodes = Map.empty\<rparr>, objs = Map.empty, brk = 1,
    disk = Map.empty, fds = Map.empty, next_fd = 3\<rparr>"


end
