(* ===== verification/PoolLife.thy ===== *)
theory PoolLife
  imports Pipeline
begin

text \<open>
  The storage server over several uploads, one after another: every file is stored, and every
  upload costs the process a thread. \<^verbatim>\<open>SS_CloseFile\<close> reads ten bytes too few of the end message;
  the first of them is taken for the type of the next message, and a byte that is no type keeps the
  thread in the loop of the default branch.
\<close>

section \<open>A single upload\<close>

text \<open>
  An upload as the storage server sees it: the messages of the client in blocks of shared memory
  that held \<open>up_olds\<close> before, the threads \<open>up_first\<close> and \<open>up_second\<close> that take the connections of
  the two reading processes, and the turns of these threads.
\<close>

record upload =
  up_id :: file_id
  up_path :: "byte list"
  up_file :: "byte list"
  up_olds :: "cbuf list"
  up_first :: nat
  up_second :: nat
  up_turns :: "pool_event list"

definition up_blocks :: "upload \<Rightarrow> cbuf list" where
  "up_blocks u = map2 package (up_olds u) (upload_msgs (up_id u) (up_path u) (up_file u))"

text \<open>The thread that gets the end message, and the other one.\<close>

definition up_last :: "upload \<Rightarrow> nat" where
  "up_last u = end_thread (up_first u) (up_second u) (upload_ops (up_file u))"

definition up_other :: "upload \<Rightarrow> nat" where
  "up_other u = (if up_last u = up_first u then up_second u else up_first u)"

text \<open>The round of an upload: both threads go on until they have seen the ends of their connections.\<close>

definition up_round :: "upload \<Rightarrow> pool_event list" where
  "up_round u = Arrives (arrived (concat (evens (up_blocks u)))) # Accepts (up_first u)
     # Arrives (arrived (concat (odds (up_blocks u)))) # Accepts (up_second u)
     # (up_turns u @ [Signalled (up_last u)]) @ [Turn (up_last u), Turn (up_other u)]"

definition up_ok :: "upload \<Rightarrow> bool" where
  "up_ok u \<longleftrightarrow> ok_id (up_id u) \<and> length (up_path u) \<le> 461
     \<and> length (up_file u) < 2 ^ 63 \<and> length (up_file u) mod 8141 \<noteq> 0
     \<and> length (up_olds u) = length (upload_msgs (up_id u) (up_path u) (up_file u)) \<and> blocks (up_olds u)
     \<and> up_first u \<noteq> up_second u
     \<and> two_threads (up_first u) (up_second u) (up_last u) (up_turns u)
         (length (evens (upload_ops (up_file u)))) (length (odds (upload_ops (up_file u))))"

text \<open>The byte that is taken for a message type: byte 8182 of the block before the end message came.\<close>

definition up_stray :: "upload \<Rightarrow> byte" where
  "up_stray u = last (up_olds u) ! 8182"

lemma up_blocks_stray:
  assumes "up_ok u"
  shows "\<exists>g. drop 8182 (last (up_blocks u)) = up_stray u # g"
proof -
  have l: "length (up_olds u) = length (upload_msgs (up_id u) (up_path u) (up_file u))" "blocks (up_olds u)"
    "ok_id (up_id u)" using assms by (simp_all add: up_ok_def)
  have ne: "up_olds u \<noteq> []" "upload_msgs (up_id u) (up_path u) (up_file u) \<noteq> []"
    using l(1) by (auto simp: upload_msgs_def)
  have "last (up_blocks u) = package (last (up_olds u)) (end_msg (up_id u))"
    using ne l(1) last_zip [OF ne(1,2) l(1)] by (simp add: up_blocks_def last_map upload_msgs_def)
  moreover have p: "length (last (up_olds u)) = PACKAGE_SIZE" using l(2) ne(1) by (simp add: blocks_def)
  ultimately have "drop 8182 (last (up_blocks u)) = drop 8182 (last (up_olds u))"
    using drop_package_end [OF l(3)] by simp
  also have "\<dots> = up_stray u # drop (Suc 8182) (last (up_olds u))"
    unfolding up_stray_def by (rule Cons_nth_drop_Suc [symmetric]) (simp add: p PACKAGE_SIZE_def)
  finally show ?thesis by blast
qed

lemma ended_turn: "thread_of p t = Some (Serving (arrived [])) \<Longrightarrow>
    do_turn junk t p = Some (Inr (set_thread t AtAccept p))"
  by (simp add: do_turn_def serve_turn_def arrived_def)

lemma stray_turn: "thread_of p t = Some (Serving (arrived (b # g))) \<Longrightarrow> b \<notin> msg_types \<Longrightarrow>
    do_turn junk t p = Some (Inr (set_thread t Spinning p))"
  by (simp add: do_turn_def turn_unknown sock_read_arrived_Cons)

text \<open>What a round does to a process with two threads at \<^verbatim>\<open>accept\<close>.\<close>

lemma round_stored:
  assumes u: "up_ok u" "up_stray u \<notin> msg_types" and "big junk"
    and at: "thread_of p (up_first u) = Some AtAccept" "thread_of p (up_second u) = Some AtAccept"
    and p: "backlog p = []" "nobody_closes p" "new_upload (held p) (up_id u)"
  shows "\<exists>p'. pool_run junk (up_round u @ es) p = pool_run junk es p' \<and> stored (held p) (up_id u) (up_file u) (held p')
    \<and> length (threads p') = length (threads p) \<and> backlog p' = [] \<and> nobody_closes p'
    \<and> (\<forall>t. thread_of p' t = (if t = up_last u then Some Spinning else thread_of p t))"
proof -
  let ?i = "up_first u" and ?j = "up_second u" and ?h = "up_last u" and ?bl = "up_blocks u"
  note ok = u(1) [unfolded up_ok_def]
  have perf: "list_all2 (turn_performs junk (up_id u) (of_nat (length (up_file u)))) ?bl (upload_ops (up_file u))"
    unfolding up_blocks_def by (rule upload_turns) (use ok assms(3) in auto)
  have len: "length ?bl = length (upload_ops (up_file u))" by (rule list_all2_lengthD [OF perf])
  have lens: "length (evens ?bl) = length (evens (upload_ops (up_file u)))"
      "length (odds ?bl) = length (odds (upload_ops (up_file u)))"
    using list_all2_evens [OF perf] by (auto dest: list_all2_lengthD)
  have h: "?h = end_thread ?i ?j ?bl" using len by (simp add: up_last_def end_thread_def)
  have ij: "?i \<noteq> ?j" "?h = ?i \<or> ?h = ?j" "up_other u \<noteq> ?h" "up_other u = ?i \<or> up_other u = ?j"
    using ok by (auto simp: up_last_def up_other_def end_thread_def)
  obtain q where q: "pool_run junk (up_round u @ es) p =
        pool_run junk ((up_turns u @ [Signalled ?h]) @ [Turn ?h, Turn (up_other u)] @ es) q"
      "held q = held p" "thread_of q ?i = Some (Serving (arrived (concat (evens ?bl))))"
      "thread_of q ?j = Some (Serving (arrived (concat (odds ?bl))))" "nobody_closes q" "backlog q = []"
      "length (threads q) = length (threads p)" "\<forall>t. t \<noteq> ?i \<and> t \<noteq> ?j \<longrightarrow> thread_of q t = thread_of p t"
    using two_accepts [OF at p(1,2) ij(1), of junk] unfolding up_round_def by fastforce
  have "two_threads ?i ?j ?h (up_turns u) (length (evens ?bl)) (length (odds ?bl))" using ok unfolding lens by simp
  then obtain r where r: "pool_run junk (up_turns u @ [Signalled ?h]) q = Some (Inr r)"
      "stored (held q) (up_id u) (up_file u) (held r)" "length (threads r) = length (threads q)" "backlog r = backlog q"
      "thread_of r ?h = Some (Serving (arrived (drop 8182 (last ?bl))))"
      "thread_of r (up_other u) = Some (Serving (arrived []))" "nobody_closes r"
      "\<forall>t. t \<noteq> ?i \<and> t \<noteq> ?j \<longrightarrow> thread_of r t = thread_of q t"
    using pool_upload_stored [OF p(3) [folded q(2)] _ _ perf ij(1) q(3-5) h] ok unfolding up_other_def by blast
  obtain g where g: "drop 8182 (last ?bl) = up_stray u # g" using up_blocks_stray [OF u(1)] by blast
  let ?s = "set_thread ?h Spinning r"
  let ?p' = "set_thread (up_other u) AtAccept ?s"
  have "do_turn junk ?h r = Some (Inr ?s)" using r(5) u(2) unfolding g by (rule stray_turn)
  moreover have "thread_of ?s (up_other u) = Some (Serving (arrived []))" using r(6) ij(3) by simp
  then have "do_turn junk (up_other u) ?s = Some (Inr ?p')" by (rule ended_turn)
  ultimately have "pool_run junk (up_round u @ es) p = pool_run junk es ?p'"
    unfolding q(1) pool_run_append [of junk "up_turns u @ [Signalled ?h]"] r(1) by simp
  moreover have "thread_of ?p' t = (if t = ?h then Some Spinning else thread_of p t)" for t
    using thread_of_less [OF r(5)] thread_of_less [OF r(6)] at q(8) r(8) ij by (auto simp: up_other_def)
  moreover have "nobody_closes ?p'" using r(7) by (simp add: nobody_closes_def)
  ultimately show ?thesis using r(2-4) q(2,6,7) by (intro exI [of _ ?p']) simp
qed

section \<open>One upload after another\<close>

text \<open>Every upload finds two threads that are not busy.\<close>

fun rounds_ok :: "nat set \<Rightarrow> upload list \<Rightarrow> bool" where
  "rounds_ok busy [] \<longleftrightarrow> True"
| "rounds_ok busy (u # us) \<longleftrightarrow> up_ok u \<and> up_stray u \<notin> msg_types
     \<and> {up_first u, up_second u} \<subseteq> {..<SS_N_THREADS} - busy \<and> rounds_ok (insert (up_last u) busy) us"

lemma up_ok_threads: "up_ok u \<Longrightarrow> up_first u \<noteq> up_second u \<and> (up_last u = up_first u \<or> up_last u = up_second u) \<and> ok_id (up_id u)"
  by (auto simp: up_ok_def up_last_def end_thread_def)

lemma rounds_ok_ids: "rounds_ok busy us \<Longrightarrow> u \<in> set us \<Longrightarrow> ok_id (up_id u)"
  by (induction us arbitrary: busy) (auto simp: up_ok_def)

text \<open>The uploads use up the threads: a thread that got the end message of one is not free for another.\<close>

lemma rounds_few:
  "rounds_ok busy us \<Longrightarrow> busy \<subseteq> {..<SS_N_THREADS} \<Longrightarrow> card busy < SS_N_THREADS \<Longrightarrow>
    card (busy \<union> up_last ` set us) = card busy + length us \<and> card busy + length us < SS_N_THREADS
    \<and> busy \<union> up_last ` set us \<subseteq> {..<SS_N_THREADS}"
proof (induction us arbitrary: busy)
  case (Cons u us)
  have u: "{up_first u, up_second u} \<subseteq> {..<SS_N_THREADS} - busy" "up_first u \<noteq> up_second u"
    "up_last u = up_first u \<or> up_last u = up_second u"
    using Cons.prems(1) up_ok_threads [of u] by auto
  have f: "finite busy" by (rule finite_subset [OF Cons.prems(2)]) simp
  have "card (busy \<union> {up_first u, up_second u}) = card busy + 2"
    using u(1,2) f by (subst card_Un_disjoint) auto
  moreover have "card (busy \<union> {up_first u, up_second u}) \<le> card {..<SS_N_THREADS}"
    using u(1) Cons.prems(2) by (intro card_mono) auto
  ultimately have "card busy + 2 \<le> SS_N_THREADS" by simp
  moreover have "up_last u \<in> {..<SS_N_THREADS} - busy" using u(1,3) by auto
  ultimately show ?case using Cons.IH [of "insert (up_last u) busy"] Cons.prems f by simp
qed simp

definition up_files :: "upload list \<Rightarrow> (byte list \<times> byte list) list" where
  "up_files us = map (\<lambda>u. (file_name (up_id u), up_file u)) us"

lemma rounds_stored:
  assumes "big junk" "rounds_ok busy us" "distinct (map up_id us)"
    and "\<forall>t. thread_of p t = (if t < SS_N_THREADS then Some (if t \<in> busy then Spinning else AtAccept) else None)"
    and "backlog p = []" "store_inv (held p)" "busy \<subseteq> {..<SS_N_THREADS}"
    and "\<forall>u \<in> set us. pending (held p) (up_id u) = None \<and> disk (held p) (file_name (up_id u)) = None"
  shows "\<exists>p'. pool_run junk (concat (map up_round us)) p = Some (Inr p')
    \<and> disk (held p') = disk (held p) ++ map_of (up_files us) \<and> pending (held p') = pending (held p) \<and> backlog p' = []
    \<and> store_inv (held p') \<and> (\<forall>t. thread_of p' t = (if t < SS_N_THREADS
          then Some (if t \<in> busy \<union> up_last ` set us then Spinning else AtAccept) else None))"
  using assms(2-)
proof (induction us arbitrary: p busy)
  case Nil
  then show ?case by (simp add: up_files_def)
next
  case (Cons u us)
  have u: "up_ok u" "up_stray u \<notin> msg_types" "{up_first u, up_second u} \<subseteq> {..<SS_N_THREADS} - busy"
    "up_first u \<noteq> up_second u" "up_last u = up_first u \<or> up_last u = up_second u" "ok_id (up_id u)"
    using Cons.prems(1) up_ok_threads [of u] by auto
  have "thread_of p (up_first u) = Some AtAccept" "thread_of p (up_second u) = Some AtAccept" "nobody_closes p"
    using Cons.prems(3) u(3) by (auto simp: nobody_closes_def)
  moreover have "new_upload (held p) (up_id u)" using Cons.prems(5,7) u(6) by (simp add: new_upload_def)
  ultimately obtain q where q: "pool_run junk (up_round u @ concat (map up_round us)) p = pool_run junk (concat (map up_round us)) q"
      "stored (held p) (up_id u) (up_file u) (held q)" "backlog q = []"
      "\<forall>t. thread_of q t = (if t = up_last u then Some Spinning else thread_of p t)"
    using round_stored [OF u(1,2) assms(1), of p "concat (map up_round us)"] Cons.prems(4) by blast
  have st: "store_inv (held q)" "pending (held q) = pending (held p)"
    "disk (held q) = (disk (held p))(file_name (up_id u) \<mapsto> up_file u)" using q(2) by (simp_all add: stored_def)
  have names: "file_name (up_id v) \<noteq> file_name (up_id u)" if "v \<in> set us" for v
  proof -
    have "up_id u \<notin> up_id ` set us" using Cons.prems(2) by simp
    then have "up_id v \<noteq> up_id u" using that by (metis imageI)
    moreover have "ok_id (up_id v)" using rounds_ok_ids [OF _ that, of "insert (up_last u) busy"] Cons.prems(1) by simp
    ultimately show ?thesis using file_name_inj u(6) by blast
  qed
  then have nd: "file_name (up_id u) \<notin> dom (map_of (up_files us))"
    unfolding up_files_def dom_map_of_conv_image_fst by (auto dest: sym)
  have l: "up_last u < SS_N_THREADS" using u(3,5) by auto
  let ?b = "insert (up_last u) busy"
  have "rounds_ok ?b us" "distinct (map up_id us)" "?b \<subseteq> {..<SS_N_THREADS}"
    using Cons.prems(1,2,6) l by simp_all
  moreover have "\<forall>t. thread_of q t = (if t < SS_N_THREADS then Some (if t \<in> ?b then Spinning else AtAccept) else None)"
    using q(4) Cons.prems(3) l by simp
  moreover have "\<forall>v \<in> set us. pending (held q) (up_id v) = None \<and> disk (held q) (file_name (up_id v)) = None"
    using Cons.prems(7) names st(2,3) by simp
  ultimately obtain p' where p': "pool_run junk (concat (map up_round us)) q = Some (Inr p')"
      "disk (held p') = disk (held q) ++ map_of (up_files us)" "pending (held p') = pending (held q)" "backlog p' = []"
      "store_inv (held p')"
      "\<forall>t. thread_of p' t = (if t < SS_N_THREADS
          then Some (if t \<in> insert (up_last u) busy \<union> up_last ` set us then Spinning else AtAccept) else None)"
    using Cons.IH [of ?b q] q(3) st(1) by auto
  moreover have "disk (held p') = disk (held p) ++ map_of (up_files (u # us))"
    using p'(2) st(3) nd by (simp add: up_files_def map_add_upd_left)
  ultimately show ?case using q(1) st(2) by (intro exI [of _ p']) auto
qed

definition free_threads :: "pool \<Rightarrow> nat set" where
  "free_threads p = {t. thread_of p t = Some AtAccept}"

text \<open>The storage server over its life: uploads of different new files come one after another, each over two
  connections and in whatever order two free threads take their turns. Exactly these files are
  stored and nothing stays pending; but when the byte that the close leaves unread is no message
  type, each of the uploads has taken one of the five threads out of service for good, so that
  there are at most four of them, and after the fourth one no two connections are served again.\<close>

theorem uploads_wear_out:
  assumes "ss_main e s ports st = (Inr p, s', ports')" "fresh_store st" "big junk"
    and "rounds_ok {} us" "distinct (map up_id us)" "\<forall>u \<in> set us. disk st (file_name (up_id u)) = None"
  shows "\<exists>p'. pool_run junk (concat (map up_round us)) p = Some (Inr p')
    \<and> disk (held p') = disk st ++ map_of (up_files us) \<and> pending (held p') = Map.empty \<and> backlog p' = []
    \<and> store_inv (held p') \<and> length (threads p') = SS_N_THREADS
    \<and> (\<forall>t < SS_N_THREADS. threads p' ! t = (if t \<in> up_last ` set us then Spinning else AtAccept))
    \<and> length us < SS_N_THREADS \<and> card (free_threads p') = SS_N_THREADS - length us"
proof -
  have p: "p = \<lparr>backlog = [], threads = replicate SS_N_THREADS AtAccept, held = InitHashTable st\<rparr>"
    using assms(1) by (auto simp: ss_main_def Let_def split: prod.splits if_splits)
  have i: "store_inv (InitHashTable st) \<and> pending (InitHashTable st) = Map.empty"
    using InitHashTable_inv [of st] assms(2) by (simp add: fresh_store_def)
  have d: "disk (InitHashTable st) = disk st" by (simp add: InitHashTable_def)
  have t: "\<forall>t. thread_of p t = (if t < SS_N_THREADS then Some (if t \<in> {} then Spinning else AtAccept) else None)"
    by (simp add: p thread_of_def)
  have n: "\<forall>u \<in> set us. pending (held p) (up_id u) = None \<and> disk (held p) (file_name (up_id u)) = None"
    using assms(6) i d by (simp add: p)
  obtain p' where p': "pool_run junk (concat (map up_round us)) p = Some (Inr p')"
      "disk (held p') = disk st ++ map_of (up_files us)" "pending (held p') = Map.empty" "backlog p' = []" "store_inv (held p')"
      "\<forall>t. thread_of p' t = (if t < SS_N_THREADS
          then Some (if t \<in> up_last ` set us then Spinning else AtAccept) else None)"
    using rounds_stored [OF assms(3-5) t _ _ _ n] i d by (auto simp: p)
  have few: "card (up_last ` set us) = length us" "length us < SS_N_THREADS" "up_last ` set us \<subseteq> {..<SS_N_THREADS}"
    using rounds_few [OF assms(4)] by (simp_all add: SS_N_THREADS_def)
  have "free_threads p' = {..<SS_N_THREADS} - up_last ` set us" using p'(6) by (auto simp: free_threads_def)
  then have "card (free_threads p') = SS_N_THREADS - length us" using few(1,3) by (simp add: card_Diff_subset)
  moreover have "threads p' ! t = (if t \<in> up_last ` set us then Spinning else AtAccept)" if "t < SS_N_THREADS" for t
    using p'(6) [rule_format, of t] that by (simp add: thread_of_def split: if_splits)
  moreover have "length (threads p') = SS_N_THREADS" using pool_run_threads [OF p'(1)] by (simp add: p)
  ultimately show ?thesis using p'(1-5) few(2) by blast
qed

text \<open>Two uploads of a fresh system: the blocks of shared memory were all zero.\<close>

definition sample_upload :: "byte \<Rightarrow> byte list \<Rightarrow> nat \<Rightarrow> nat \<Rightarrow> upload" where
  "sample_upload b c i j = \<lparr>up_id = \<lparr>sha1sum = replicate 20 b\<rparr>, up_path = [0x66], up_file = c,
     up_olds = replicate 3 (zeros PACKAGE_SIZE), up_first = i, up_second = j, up_turns = [Turn i, Turn j, Turn i]\<rparr>"

lemma sample_upload_ops: "upload_ops [x] = [SizeOp, PieceOp 0 [x], CloseOp]"
  unfolding upload_ops_def by (subst client_pieces.simps) simp

lemma sample_upload_ok:
  assumes "i \<noteq> j"
  shows "up_ok (sample_upload b [x] i j)" "up_stray (sample_upload b [x] i j) \<notin> msg_types"
    "up_last (sample_upload b [x] i j) = i"
proof -
  have "length (upload_msgs fid [0x66] [x]) = length (upload_ops [x])" for fid
    by (simp add: upload_msgs_def upload_ops_def)
  then show "up_ok (sample_upload b [x] i j)" using assms
    by (simp add: up_ok_def sample_upload_def up_last_def end_thread_def sample_upload_ops odds_def two_threads_def
        turns_of_def ok_id_def blocks_def)
  show "up_stray (sample_upload b [x] i j) \<notin> msg_types"
    by (simp add: up_stray_def sample_upload_def msg_types_def zeros_def PACKAGE_SIZE_def MSG_NEW_FILE_def
        MSG_FILE_DATA_def MSG_FILE_END_def)
  show "up_last (sample_upload b [x] i j) = i"
    by (simp add: up_last_def sample_upload_def end_thread_def sample_upload_ops)
qed

theorem uploads_wear_out_witness:
  "\<exists>p'. pool_run (\<lambda>_. zeros PACKAGE_SIZE) (concat (map up_round [sample_upload 1 [7] 0 1, sample_upload 2 [9] 1 2]))
      \<lparr>backlog = [], threads = replicate SS_N_THREADS AtAccept, held = InitHashTable sample_process\<rparr> = Some (Inr p')
    \<and> disk (held p') = disk sample_process ++ map_of (up_files [sample_upload 1 [7] 0 1, sample_upload 2 [9] 1 2])
    \<and> pending (held p') = Map.empty \<and> backlog p' = []
    \<and> store_inv (held p') \<and> length (threads p') = SS_N_THREADS
    \<and> (\<forall>t < SS_N_THREADS. threads p' ! t =
        (if t \<in> up_last ` set [sample_upload 1 [7] 0 1, sample_upload 2 [9] 1 2] then Spinning else AtAccept))
    \<and> length [sample_upload 1 [7] 0 1, sample_upload 2 [9] 1 2] < SS_N_THREADS
    \<and> card (free_threads p') = SS_N_THREADS - length [sample_upload 1 [7] 0 1, sample_upload 2 [9] 1 2]"
proof (rule uploads_wear_out)
  show "ss_main (tcp_ok 3) Map.empty [] sample_process =
      (Inr \<lparr>backlog = [], threads = replicate SS_N_THREADS AtAccept, held = InitHashTable sample_process\<rparr>,
       [3 \<mapsto> Listening STORAGE_SERVER_PORT MAX_ACCEPT_CONNECTION], [STORAGE_SERVER_PORT])"
    by (simp add: ss_main_def start_server_def start_listening_def tcp_ok_def Let_def)
  show "fresh_store sample_process" by (simp add: fresh_store_def sample_process_def)
  show "big (\<lambda>_. zeros PACKAGE_SIZE)" by (simp add: big_def)
  show "rounds_ok {} [sample_upload 1 [7] 0 1, sample_upload 2 [9] 1 2]"
    using sample_upload_ok [of 0 1] sample_upload_ok [of 1 2]
    by (simp add: SS_N_THREADS_def) (simp add: sample_upload_def)
qed (simp_all add: sample_upload_def sample_process_def)

end
