(* ===== verification/RelayClients.thy ===== *)
theory RelayClients
  imports Pipeline
begin

text \<open>
  The transfer server over its life: clients that are accepted one after another, up to an
  \<^verbatim>\<open>accept\<close> that fails.
\<close>

text \<open>A file that is uploaded: its identity, its path and its contents.\<close>

type_synonym job = "file_id \<times> byte list \<times> byte list"

fun job_msgs :: "job \<Rightarrow> byte list list" where
  "job_msgs (fid, path, c) = upload_msgs fid path c"

fun job_ok :: "job \<Rightarrow> bool" where
  "job_ok (fid, path, c) \<longleftrightarrow> ok_id fid \<and> length path \<le> 461"

text \<open>The run of the client for a job; \<open>raws\<close> are the contents of its buffers before.\<close>

fun job_client :: "tcp_env \<Rightarrow> nat list \<Rightarrow> byte list \<Rightarrow> cbuf \<times> cbuf \<times> cbuf \<times> cbuf \<Rightarrow> job \<Rightarrow> program_end option" where
  "job_client e ports prog raws (fid, path, c) = client_main e ports 0 [prog, path] raws (hex (sha1sum fid)) (Some c)"

text \<open>C8: Any number of clients, one after another, on a set-up system: each exits with 0, and the one thread
  of the transfer server handles their connections in turn. The two reading processes keep their
  connections to the storage server: one has sent the first, third, fifth block of all uploads
  together, the other one the second, fourth and so on, each block being the message over what the
  block of shared memory held before. When \<^verbatim>\<open>accept\<close> fails afterwards, the process exits with 1.\<close>

theorem clients_relayed_in_turn:
  assumes "tcp_allows e" "fresh_kernel k" "shm_keys k now1 = None" "sem_keys k now2 = None"
    and "0 < now1" "0 < now2" "int_range now1" "int_range now2"
    and "\<forall>u \<in> set us. job_ok u" "length buffer = PACKAGE_SIZE"
    and "length raw1 = 512" "length raw40 = 40" "length raw2 = PACKAGE_SIZE" "length raw3 = 512"
    and "ports = [TRANSFER_PORT, STORAGE_SERVER_PORT]" "cs = [] \<and> r = None \<or> cs = [None] \<and> r = Some 1"
  shows "\<exists>k1 w k2 w2 rd olds. new_main k now1 now2 = (0, k1) \<and> ShmReadInit k1 W_DataRecv = (True, k1, w)
    \<and> (\<forall>u \<in> set us. job_client e ports prog (raw1, raw40, raw2, raw3) u = Some (ProgramExits 0 (job_msgs u)))
    \<and> relay_clients e ports raw buffer (map (\<lambda>u. Some (arrived (concat (job_msgs u)))) us @ cs) k1 w
        (\<lambda>q. (reader_of k1 q, new_sender)) = Some (Goes (r, k2, w2, rd))
    \<and> length olds = length (concat (map job_msgs us)) \<and> blocks olds
    \<and> sent (snd (rd (pipe_name 1))) = concat (evens (map2 package olds (concat (map job_msgs us))))
    \<and> sent (snd (rd (pipe_name 0))) = concat (odds (map2 package olds (concat (map job_msgs us))))"
proof -
  obtain k1 w where s: "new_main k now1 now2 = (0, k1)" "ShmReadInit k1 W_DataRecv = (True, k1, w)" "ready k1 w"
    "dr_id w = 0" "\<forall>p. w_shmctl (reader_of k1 p) = w_shmctl w \<and> w_semtable (reader_of k1 p) = w_semtable w"
    using attached_system [OF assms(2-8)] by blast
  let ?rd = "\<lambda>q. (reader_of k1 q, new_sender)"
  have on: "connected_ok p e ports" if "p \<in> {TRANSFER_PORT, STORAGE_SERVER_PORT}" for p
    using that assms(1,15) by (auto simp: connected_ok_def tcp_allows_def)
  have cs: "\<forall>q. can_send e ports w (?rd q)"
    using s(5) on by (simp add: can_send_def new_sender_def)
  have fr: "\<forall>ms \<in> set (map job_msgs us). \<forall>m \<in> set ms. framed m"
  proof
    fix ms assume "ms \<in> set (map job_msgs us)"
    then obtain fid path c where "ms = upload_msgs fid path c" "job_ok (fid, path, c)"
      using assms(9) by (auto simp: image_iff)
    then show "\<forall>m \<in> set ms. framed m" using framed_upload [of fid path c] by simp
  qed
  have id: "dr_id w = 0 \<or> dr_id w = 1" using s(4) by simp
  have pa: "passing e ports k1 w ?rd" using s(3) id cs by (simp add: passing_def)
  obtain b' k2 w2 rd olds where q: "relay_clients e ports raw buffer
        (map (\<lambda>ms. Some (arrived (concat ms))) (map job_msgs us) @ cs) k1 w ?rd = relay_clients e ports raw b' cs k2 w2 rd"
      "length olds = length (concat (map job_msgs us))" "blocks olds"
      "sent (snd (rd (pipe_name (1 - dr_id w)))) =
          sent (snd (?rd (pipe_name (1 - dr_id w)))) @ concat (evens (map2 package olds (concat (map job_msgs us))))"
      "sent (snd (rd (pipe_name (dr_id w)))) =
          sent (snd (?rd (pipe_name (dr_id w)))) @ concat (odds (map2 package olds (concat (map job_msgs us))))"
    using relay_many [OF fr assms(10) pa, of raw cs] by blast
  note r = q(1-3) q(4,5) [unfolded s(4), simplified new_sender_def, simplified]
  have "relay_clients e ports raw b' cs k2 w2 rd = Some (Goes (r, k2, w2, rd))" using assms(16) by auto
  moreover have "job_client e ports prog (raw1, raw40, raw2, raw3) u = Some (ProgramExits 0 (job_msgs u))"
    if "u \<in> set us" for u
    using assms(9,11-14) that on client_main_exits [of "fst u" "[prog, fst (snd u)]" raw1 raw40 raw2 raw3 _ _ 0 "[]"]
    by (cases u) (auto dest!: bspec)
  ultimately show ?thesis using s(1,2) r by (intro exI conjI) (assumption | simp add: comp_def)+
qed

definition sample_jobs :: "job list" where
  "sample_jobs = [(sample_id, [0x66], [1, 2, 3]), (\<lparr>sha1sum = replicate 20 0xcd\<rparr>, [0x67], [7])]"

theorem clients_relayed_in_turn_witness:
  "\<exists>k1 w k2 w2 rd olds. new_main empty_kernel 1000 1001 = (0, k1) \<and> ShmReadInit k1 W_DataRecv = (True, k1, w)
    \<and> (\<forall>u \<in> set sample_jobs. job_client (tcp_ok 3) [TRANSFER_PORT, STORAGE_SERVER_PORT] [0x63]
          (zeros 512, zeros 40, zeros PACKAGE_SIZE, zeros 512) u = Some (ProgramExits 0 (job_msgs u)))
    \<and> relay_clients (tcp_ok 3) [TRANSFER_PORT, STORAGE_SERVER_PORT] (zeros 32) (zeros PACKAGE_SIZE)
        (map (\<lambda>u. Some (arrived (concat (job_msgs u)))) sample_jobs @ [None]) k1 w
        (\<lambda>q. (reader_of k1 q, new_sender)) = Some (Goes (Some 1, k2, w2, rd))
    \<and> length olds = length (concat (map job_msgs sample_jobs)) \<and> blocks olds
    \<and> sent (snd (rd (pipe_name 1))) = concat (evens (map2 package olds (concat (map job_msgs sample_jobs))))
    \<and> sent (snd (rd (pipe_name 0))) = concat (odds (map2 package olds (concat (map job_msgs sample_jobs))))"
  by (rule clients_relayed_in_turn [OF _ fresh_empty])
    (simp_all add: tcp_ok_def tcp_allows_def empty_kernel_def int_range_def sample_jobs_def sample_id_def ok_id_def)

end
