(* ===== verification/SystemLife.thy ===== *)
theory SystemLife
  imports PoolLife RelayClients
begin

text \<open>
  The whole file transfer over its life: clients come one after another, with more than a minute
  between them, so that the alarm has closed the connections of the reading processes when the
  next client comes. Every program runs from its start, every byte takes its way.
\<close>

section \<open>A visit of a client\<close>

text \<open>
  A client with its file, and what the scheduler does with it: the threads of the storage server
  that take the two connections and their turns.
\<close>

record visit =
  v_job :: job
  v_first :: nat
  v_second :: nat
  v_turns :: "pool_event list"

text \<open>What the machine keeps between visits; the buffer is the one of the transfer server.\<close>

record plant =
  pl_pool :: pool
  pl_kernel :: kernel
  pl_writer :: data_recv
  pl_readers :: readers
  pl_buffer :: cbuf

text \<open>After a minute \<^verbatim>\<open>sig_alarm\<close> has run in the reading processes; no byte of a new connection has been
  sent yet.\<close>

definition idle_minute :: "readers \<Rightarrow> readers" where
  "idle_minute rd = (\<lambda>q. (fst (rd q), (sig_alarm (snd (rd q)))\<lparr>sent := []\<rparr>))"

text \<open>The thread that gets the end message, and the other one.\<close>

definition v_last :: "visit \<Rightarrow> nat" where
  "v_last v = (case v_job v of (fid, path, c) \<Rightarrow> end_thread (v_first v) (v_second v) (upload_ops c))"

definition v_other :: "visit \<Rightarrow> nat" where
  "v_other v = (if v_last v = v_first v then v_second v else v_first v)"

text \<open>
  The exit code of the client, and the machine afterwards. The client runs and exits; the transfer server relays its messages; the reading process that is
  told first connects first, and the threads take their turns until both connections have ended.
\<close>

definition pay_visit :: "tcp_env \<Rightarrow> nat list \<Rightarrow> (sock \<Rightarrow> cbuf) \<Rightarrow> cbuf \<Rightarrow> byte list \<Rightarrow> cbuf \<times> cbuf \<times> cbuf \<times> cbuf \<Rightarrow>
    visit \<Rightarrow> plant \<Rightarrow> (int \<times> plant) option" where
  "pay_visit e ports junk raw prog raws v pl =
     (case job_client e ports prog raws (v_job v) of
        Some (ProgramExits r msgs) \<Rightarrow>
          (case relay_run e ports raw (pl_buffer pl) (arrived (concat msgs)) (pl_kernel pl) (pl_writer pl) (pl_readers pl) of
             Some (Goes (b, k, w, rd)) \<Rightarrow>
               (let d = dr_id (pl_writer pl);
                    s = arrived (sent (snd (rd (pipe_name (1 - d)))));
                    s' = arrived (sent (snd (rd (pipe_name d))))
                in case pool_run junk (Arrives s # Accepts (v_first v) # Arrives s' # Accepts (v_second v)
                       # (v_turns v @ [Signalled (v_last v)]) @ [Turn (v_last v), Turn (v_other v)]) (pl_pool pl) of
                     Some (Inr p) \<Rightarrow>
                       Some (r, \<lparr>pl_pool = p, pl_kernel = k, pl_writer = w, pl_readers = idle_minute rd, pl_buffer = b\<rparr>)
                   | _ \<Rightarrow> None)
           | _ \<Rightarrow> None)
      | _ \<Rightarrow> None)"

fun pay_visits :: "tcp_env \<Rightarrow> nat list \<Rightarrow> (sock \<Rightarrow> cbuf) \<Rightarrow> cbuf \<Rightarrow> byte list \<Rightarrow> cbuf \<times> cbuf \<times> cbuf \<times> cbuf \<Rightarrow>
    visit list \<Rightarrow> plant \<Rightarrow> (int list \<times> plant) option" where
  "pay_visits e ports junk raw prog raws [] pl = Some ([], pl)"
| "pay_visits e ports junk raw prog raws (v # vs) pl =
     (case pay_visit e ports junk raw prog raws v pl of
        None \<Rightarrow> None
      | Some (r, pl') \<Rightarrow>
          (case pay_visits e ports junk raw prog raws vs pl' of
             None \<Rightarrow> None
           | Some (rs, pl'') \<Rightarrow> Some (r # rs, pl'')))"

section \<open>Small files\<close>

text \<open>A file of one piece that leaves byte 8182 of its blocks alone.\<close>

definition small :: "byte list \<Rightarrow> bool" where
  "small c \<longleftrightarrow> 0 < length c \<and> length c \<le> 8131"

lemma small_pieces: "small c \<Longrightarrow> client_pieces c 0 = [(0, c)]"
  unfolding small_def by (subst client_pieces.simps) (simp add: Let_def)

lemma small_ops: "small c \<Longrightarrow> upload_ops c = [SizeOp, PieceOp 0 c, CloseOp]"
  by (simp add: upload_ops_def small_pieces)

lemma small_msgs: "small c \<Longrightarrow> upload_msgs fid path c =
    [header_msg fid (of_nat (length c)) path, data_msg fid 0 c, end_msg fid]"
  by (simp add: upload_msgs_def small_pieces)

lemma small_short:
  assumes "small c" "job_ok (fid, path, c)"
  shows "\<forall>m \<in> set (job_msgs (fid, path, c)). short_msg m"
  using assms by (simp add: small_msgs short_msg_def header_msg_def data_msg_def end_msg_def small_def ok_id_def)

text \<open>A visit with a small file, and the state of the machine that it finds and leaves.\<close>

definition visit_ok :: "visit \<Rightarrow> bool" where
  "visit_ok v \<longleftrightarrow> job_ok (v_job v) \<and> small (snd (snd (v_job v))) \<and> v_first v \<noteq> v_second v
     \<and> two_threads (v_first v) (v_second v) (v_last v) (v_turns v) 2 1"

definition rests :: "tcp_env \<Rightarrow> nat list \<Rightarrow> plant \<Rightarrow> bool" where
  "rests e ports pl \<longleftrightarrow> length (pl_buffer pl) = PACKAGE_SIZE \<and> passing e ports (pl_kernel pl) (pl_writer pl) (pl_readers pl)
     \<and> low_blocks (pl_kernel pl) (pl_writer pl) \<and> (\<forall>q. sent (snd (pl_readers pl q)) = [])"

lemma idle_passing:
  assumes "connected_ok STORAGE_SERVER_PORT e ports" "passing e ports k w rd"
  shows "passing e ports k w (idle_minute rd) \<and> (\<forall>q. sent (snd (idle_minute rd q)) = [])"
  using assms by (auto simp: passing_def can_send_def idle_minute_def sig_alarm_def)

text \<open>The upload that the storage server sees in a visit.\<close>

definition seen_upload :: "visit \<Rightarrow> cbuf list \<Rightarrow> upload" where
  "seen_upload v olds = (case v_job v of (fid, path, c) \<Rightarrow>
     \<lparr>up_id = fid, up_path = path, up_file = c, up_olds = olds, up_first = v_first v, up_second = v_second v,
      up_turns = v_turns v\<rparr>)"

lemma seen_upload_ok:
  assumes "visit_ok v" "length olds = 3" "blocks olds" "\<forall>b \<in> set olds. b ! 8182 = 0"
  shows "up_ok (seen_upload v olds)" "up_stray (seen_upload v olds) \<notin> msg_types"
    "up_last (seen_upload v olds) = v_last v" "up_other (seen_upload v olds) = v_other v"
    "up_first (seen_upload v olds) = v_first v" "up_second (seen_upload v olds) = v_second v"
    "up_turns (seen_upload v olds) = v_turns v"
proof -
  obtain fid path c where j: "v_job v = (fid, path, c)" by (cases "v_job v") auto
  then have s: "small c" "job_ok (fid, path, c)" using assms(1) by (simp_all add: visit_ok_def)
  have "length c mod 8141 = length c" "0 < length c" "length c < 2 ^ 63" using s(1) by (simp_all add: small_def)
  then show "up_ok (seen_upload v olds)"
    using assms s by (simp add: seen_upload_def j up_ok_def small_msgs visit_ok_def up_last_def v_last_def small_ops odds_def numeral_2_eq_2)
  have "olds \<noteq> []" using assms(2) by auto
  then have "last olds ! 8182 = 0" using assms(4) by simp
  then show "up_stray (seen_upload v olds) \<notin> msg_types"
    by (simp add: up_stray_def seen_upload_def j msg_types_def MSG_NEW_FILE_def MSG_FILE_DATA_def MSG_FILE_END_def)
  show "up_last (seen_upload v olds) = v_last v" "up_other (seen_upload v olds) = v_other v"
    "up_first (seen_upload v olds) = v_first v" "up_second (seen_upload v olds) = v_second v"
    "up_turns (seen_upload v olds) = v_turns v"
    by (simp_all add: seen_upload_def j up_last_def v_last_def up_other_def v_other_def)
qed

section \<open>Visits are rounds of the storage server\<close>

definition seen :: "visit \<Rightarrow> upload \<Rightarrow> bool" where
  "seen v u \<longleftrightarrow> (\<exists>olds. u = seen_upload v olds \<and> length olds = 3 \<and> blocks olds \<and> (\<forall>b \<in> set olds. b ! 8182 = 0))"

text \<open>The contents of the client's buffers have the sizes of its arrays.\<close>

definition raws_ok :: "cbuf \<times> cbuf \<times> cbuf \<times> cbuf \<Rightarrow> bool" where
  "raws_ok raws \<longleftrightarrow> (case raws of (raw1, raw40, raw2, raw3) \<Rightarrow>
     length raw1 = 512 \<and> length raw40 = 40 \<and> length raw2 = PACKAGE_SIZE \<and> length raw3 = 512)"

definition all_up :: "tcp_env \<Rightarrow> nat list \<Rightarrow> bool" where
  "all_up e ports \<longleftrightarrow> connected_ok TRANSFER_PORT e ports \<and> connected_ok STORAGE_SERVER_PORT e ports"

lemma job_client_exits:
  "job_ok u \<Longrightarrow> raws_ok raws \<Longrightarrow> all_up e ports \<Longrightarrow> job_client e ports prog raws u = Some (ProgramExits 0 (job_msgs u))"
  using client_main_exits [of "fst u" "[prog, fst (snd u)]" _ _ _ _ e ports 0 "[]"]
  by (cases u; cases raws) (simp add: raws_ok_def all_up_def)

text \<open>What a client with a small file puts on the two connections.\<close>

lemma visit_streams:
  assumes r: "rests e ports pl" and s: "small c" "job_ok (fid, path, c)" and a: "all_up e ports"
  shows "\<exists>b k w rd olds.
      relay_run e ports raw (pl_buffer pl) (arrived (concat (upload_msgs fid path c))) (pl_kernel pl) (pl_writer pl) (pl_readers pl)
        = Some (Goes (b, k, w, rd))
    \<and> length olds = 3 \<and> blocks olds \<and> (\<forall>b \<in> set olds. b ! 8182 = 0)
    \<and> sent (snd (rd (pipe_name (1 - dr_id (pl_writer pl))))) = concat (evens (map2 package olds (upload_msgs fid path c)))
    \<and> sent (snd (rd (pipe_name (dr_id (pl_writer pl))))) = concat (odds (map2 package olds (upload_msgs fid path c)))
    \<and> (\<forall>p. rests e ports \<lparr>pl_pool = p, pl_kernel = k, pl_writer = w, pl_readers = idle_minute rd, pl_buffer = b\<rparr>)"
proof -
  let ?ms = "upload_msgs fid path c" and ?d = "dr_id (pl_writer pl)"
  have fr: "\<forall>m \<in> set ?ms. framed m" by (rule framed_upload) (use s(2) in simp_all)
  have sh: "\<forall>m \<in> set ?ms. short_msg m" using small_short [OF s] by simp
  obtain b k w rd olds where
    q: "relay_run e ports raw (pl_buffer pl) (arrived (concat ?ms)) (pl_kernel pl) (pl_writer pl) (pl_readers pl)
        = Some (Goes (b, k, w, rd))"
    "length b = PACKAGE_SIZE" "passing e ports k w rd" "length olds = length ?ms" "blocks olds"
    "low_blocks (pl_kernel pl) (pl_writer pl) \<and> (\<forall>m \<in> set ?ms. short_msg m) \<longrightarrow> low_blocks k w \<and> (\<forall>b \<in> set olds. b ! 8182 = 0)"
    "sent (snd (rd (pipe_name (1 - ?d)))) =
        sent (snd (pl_readers pl (pipe_name (1 - ?d)))) @ concat (evens (map2 package olds ?ms))"
    "sent (snd (rd (pipe_name ?d))) = sent (snd (pl_readers pl (pipe_name ?d))) @ concat (odds (map2 package olds ?ms))"
    using relay_streams [OF fr, of "pl_buffer pl" e ports "pl_kernel pl" "pl_writer pl" "pl_readers pl" raw] r
    unfolding rests_def by blast
  have low: "low_blocks k w" "\<forall>b \<in> set olds. b ! 8182 = 0" using q(6) sh r by (simp_all add: rests_def)
  have "length olds = 3" using q(4) s(1) by (simp add: small_msgs)
  moreover have "rests e ports \<lparr>pl_pool = p, pl_kernel = k, pl_writer = w, pl_readers = idle_minute rd, pl_buffer = b\<rparr>" for p
    using q(2,3) low(1) idle_passing [of e ports k w rd] a by (simp add: rests_def all_up_def)
  ultimately show ?thesis using q(1,5,7,8) low(2) r
    by (intro exI [of _ b] exI [of _ k] exI [of _ w] exI [of _ rd] exI [of _ olds]) (simp add: rests_def)
qed

lemma visit_relayed:
  assumes r: "rests e ports pl" and v: "visit_ok v" and a: "raws_ok raws" "all_up e ports"
  shows "\<exists>u k w rd b. seen v u
    \<and> pay_visit e ports junk raw prog raws v pl = (case pool_run junk (up_round u) (pl_pool pl) of
        Some (Inr p) \<Rightarrow> Some (0, \<lparr>pl_pool = p, pl_kernel = k, pl_writer = w, pl_readers = rd, pl_buffer = b\<rparr>)
      | _ \<Rightarrow> None)
    \<and> (\<forall>p. rests e ports \<lparr>pl_pool = p, pl_kernel = k, pl_writer = w, pl_readers = rd, pl_buffer = b\<rparr>)"
proof -
  obtain fid path c where j: "v_job v = (fid, path, c)" by (cases "v_job v") auto
  then have s: "small c" "job_ok (fid, path, c)" using v by (simp_all add: visit_ok_def)
  let ?ms = "upload_msgs fid path c" and ?d = "dr_id (pl_writer pl)"
  obtain b k w rd olds where
    q: "relay_run e ports raw (pl_buffer pl) (arrived (concat ?ms)) (pl_kernel pl) (pl_writer pl) (pl_readers pl)
        = Some (Goes (b, k, w, rd))" "length olds = 3" "blocks olds" "\<forall>b \<in> set olds. b ! 8182 = 0"
    "sent (snd (rd (pipe_name (1 - ?d)))) = concat (evens (map2 package olds ?ms))"
    "sent (snd (rd (pipe_name ?d))) = concat (odds (map2 package olds ?ms))"
    "\<forall>p. rests e ports \<lparr>pl_pool = p, pl_kernel = k, pl_writer = w, pl_readers = idle_minute rd, pl_buffer = b\<rparr>"
    using visit_streams [OF r s a(2), of raw] by blast
  let ?u = "seen_upload v olds"
  note ok = seen_upload_ok [OF v q(2-4)]
  have bl: "up_blocks ?u = map2 package olds ?ms" by (simp add: up_blocks_def seen_upload_def j)
  have cl: "job_client e ports prog raws (v_job v) = Some (ProgramExits 0 ?ms)"
    using job_client_exits [OF s(2) a] j by simp
  have "pay_visit e ports junk raw prog raws v pl = (case pool_run junk (up_round ?u) (pl_pool pl) of
        Some (Inr p) \<Rightarrow> Some (0, \<lparr>pl_pool = p, pl_kernel = k, pl_writer = w, pl_readers = idle_minute rd, pl_buffer = b\<rparr>)
      | _ \<Rightarrow> None)"
    unfolding pay_visit_def up_round_def cl ok bl q(5,6) [symmetric]
    by (simp only: q(1) option.case program_end.case waits.case prod.case Let_def)
  then show ?thesis using q(2-4,7) unfolding seen_def by blast
qed

text \<open>Visits are rounds: whatever the rounds do to the storage server, the visits do.\<close>

lemma visits_are_rounds:
  assumes "rests e ports pl" "\<forall>v \<in> set vs. visit_ok v" "raws_ok raws" "all_up e ports"
  shows "\<exists>us. list_all2 seen vs us \<and> (\<forall>p. pool_run junk (concat (map up_round us)) (pl_pool pl) = Some (Inr p) \<longrightarrow>
    (\<exists>pl'. pay_visits e ports junk raw prog raws vs pl = Some (replicate (length vs) 0, pl') \<and> pl_pool pl' = p
      \<and> rests e ports pl'))"
  using assms(1,2)
proof (induction vs arbitrary: pl)
  case (Cons v vs)
  obtain u k w rd b where u: "seen v u"
    "pay_visit e ports junk raw prog raws v pl = (case pool_run junk (up_round u) (pl_pool pl) of
        Some (Inr p) \<Rightarrow> Some (0, \<lparr>pl_pool = p, pl_kernel = k, pl_writer = w, pl_readers = rd, pl_buffer = b\<rparr>)
      | _ \<Rightarrow> None)"
    "\<And>p. rests e ports \<lparr>pl_pool = p, pl_kernel = k, pl_writer = w, pl_readers = rd, pl_buffer = b\<rparr>"
    using visit_relayed [OF Cons.prems(1) _ assms(3,4), of v junk raw prog] Cons.prems(2) by auto
  define q where "q = (case pool_run junk (up_round u) (pl_pool pl) of Some (Inr q) \<Rightarrow> q | _ \<Rightarrow> pl_pool pl)"
  obtain us where us: "list_all2 seen vs us"
    "\<And>p. pool_run junk (concat (map up_round us)) q = Some (Inr p) \<Longrightarrow>
      \<exists>pl'. pay_visits e ports junk raw prog raws vs
          \<lparr>pl_pool = q, pl_kernel = k, pl_writer = w, pl_readers = rd, pl_buffer = b\<rparr>
        = Some (replicate (length vs) 0, pl') \<and> pl_pool pl' = p \<and> rests e ports pl'"
    using Cons.IH [OF u(3) [of q]] Cons.prems(2) by auto
  have "\<exists>pl'. pay_visits e ports junk raw prog raws (v # vs) pl = Some (replicate (length (v # vs)) 0, pl')
      \<and> pl_pool pl' = p \<and> rests e ports pl'"
    if "pool_run junk (concat (map up_round (u # us))) (pl_pool pl) = Some (Inr p)" for p
  proof -
    have a: "pool_run junk (up_round u) (pl_pool pl) = Some (Inr q)" "pool_run junk (concat (map up_round us)) q = Some (Inr p)"
      using that by (auto simp: pool_run_append q_def split: option.splits sum.splits)
    obtain pl' where "pay_visits e ports junk raw prog raws vs
          \<lparr>pl_pool = q, pl_kernel = k, pl_writer = w, pl_readers = rd, pl_buffer = b\<rparr>
        = Some (replicate (length vs) 0, pl')" "pl_pool pl' = p" "rests e ports pl'"
      using us(2) [OF a(2)] by blast
    then show ?thesis using u(2) a(1) by simp
  qed
  then show ?case using u(1) us(1) by (intro exI [of _ "u # us"]) simp
qed (use assms(1) in simp)

section \<open>The system wears out\<close>

text \<open>Every visit finds two threads that are not busy.\<close>

fun visits_ok :: "nat set \<Rightarrow> visit list \<Rightarrow> bool" where
  "visits_ok busy [] \<longleftrightarrow> True"
| "visits_ok busy (v # vs) \<longleftrightarrow> visit_ok v
     \<and> {v_first v, v_second v} \<subseteq> {..<SS_N_THREADS} - busy \<and> visits_ok (insert (v_last v) busy) vs"

lemma visits_ok_rounds:
  "list_all2 seen vs us \<Longrightarrow> visits_ok busy vs \<Longrightarrow> rounds_ok busy us \<and> up_last ` set us = v_last ` set vs"
proof (induction arbitrary: busy rule: list_all2_induct)
  case (Cons v vs u us)
  obtain olds where "u = seen_upload v olds" "length olds = 3" "blocks olds" "\<forall>b \<in> set olds. b ! 8182 = 0"
    using Cons.hyps(1) by (auto simp: seen_def)
  then show ?case using Cons.prems Cons.IH [of "insert (v_last v) busy"] seen_upload_ok [of v olds] by simp
qed simp

definition v_id :: "visit \<Rightarrow> file_id" where
  "v_id v = fst (v_job v)"

definition v_files :: "visit list \<Rightarrow> (byte list \<times> byte list) list" where
  "v_files vs = map (\<lambda>v. (file_name (v_id v), snd (snd (v_job v)))) vs"

lemma seen_ids: "seen v u \<Longrightarrow> up_id u = v_id v \<and> up_file u = snd (snd (v_job v))"
  by (cases "v_job v") (auto simp: seen_def seen_upload_def v_id_def)

lemma seen_all: "list_all2 seen vs us \<Longrightarrow> map up_id us = map v_id vs \<and> up_files us = v_files vs \<and> length us = length vs"
  by (induction rule: list_all2_induct) (simp_all add: up_files_def v_files_def seen_ids)

lemma visits_ok_all: "visits_ok busy vs \<Longrightarrow> \<forall>v \<in> set vs. visit_ok v"
  by (induction vs arbitrary: busy) auto

text \<open>The set-up of shared memory leaves blocks of zeros.\<close>

lemma attached_low:
  assumes "fresh_kernel k" "shm_keys k now1 = None" "sem_keys k now2 = None"
    and "0 < now1" "0 < now2" "int_range now1" "int_range now2"
  shows "\<exists>k1 w. new_main k now1 now2 = (0, k1) \<and> ShmReadInit k1 W_DataRecv = (True, k1, w) \<and> ready k1 w
    \<and> dr_id w = 0 \<and> low_blocks k1 w
    \<and> (\<forall>p. w_shmctl (reader_of k1 p) = w_shmctl w \<and> w_semtable (reader_of k1 p) = w_semtable w)"
proof -
  obtain k1 w where s: "new_main k now1 now2 = (0, k1)" "ShmReadInit k1 W_DataRecv = (True, k1, w)" "ready k1 w" "dr_id w = 0"
    "\<forall>p. w_shmctl (reader_of k1 p) = w_shmctl w \<and> w_semtable (reader_of k1 p) = w_semtable w"
    using attached_system [OF assms] by blast
  moreover have "\<forall>i < 10. block k1 (w_shmctl w) i = zeros 8192"
    using setup_serves_readers [OF assms] s(1,2) by auto
  then have "low_blocks k1 w" by (simp add: low_blocks_def zeros_def)
  ultimately show ?thesis by blast
qed

lemma plant_rests:
  assumes "tcp_allows e" "ports = [TRANSFER_PORT, STORAGE_SERVER_PORT]" "length buffer = PACKAGE_SIZE"
    and "ready k1 w" "dr_id w = 0" "low_blocks k1 w"
    and "\<forall>p. w_shmctl (reader_of k1 p) = w_shmctl w \<and> w_semtable (reader_of k1 p) = w_semtable w"
  shows "rests e ports \<lparr>pl_pool = p, pl_kernel = k1, pl_writer = w, pl_readers = (\<lambda>q. (reader_of k1 q, new_sender)),
      pl_buffer = buffer\<rparr> \<and> all_up e ports"
  using assms by (simp add: rests_def passing_def all_up_def can_send_def new_sender_def connected_ok_def tcp_allows_def)

lemma visits_wear_out:
  assumes "tcp_allows e" "fresh_kernel k" "shm_keys k now1 = None" "sem_keys k now2 = None"
    and "0 < now1" "0 < now2" "int_range now1" "int_range now2" "fresh_store st" "big junk"
    and "raws_ok raws" "length buffer = PACKAGE_SIZE"
    and "visits_ok {} vs" "distinct (map v_id vs)" "\<forall>v \<in> set vs. disk st (file_name (v_id v)) = None"
  shows "\<exists>p0 s1 s2 k1 w pl.
      ss_main e Map.empty [] st = (Inr p0, s1, [STORAGE_SERVER_PORT])
    \<and> ts_main e Map.empty [STORAGE_SERVER_PORT] = (Inr 1, s2, [TRANSFER_PORT, STORAGE_SERVER_PORT])
    \<and> new_main k now1 now2 = (0, k1) \<and> ShmReadInit k1 W_DataRecv = (True, k1, w)
    \<and> pay_visits e [TRANSFER_PORT, STORAGE_SERVER_PORT] junk raw prog raws vs \<lparr>pl_pool = p0, pl_kernel = k1, pl_writer = w,
          pl_readers = (\<lambda>q. (reader_of k1 q, new_sender)), pl_buffer = buffer\<rparr> = Some (replicate (length vs) 0, pl)
    \<and> rests e [TRANSFER_PORT, STORAGE_SERVER_PORT] pl \<and> all_up e [TRANSFER_PORT, STORAGE_SERVER_PORT]
    \<and> store_inv (held (pl_pool pl)) \<and> backlog (pl_pool pl) = [] \<and> length (threads (pl_pool pl)) = SS_N_THREADS
    \<and> disk (held (pl_pool pl)) = disk st ++ map_of (v_files vs) \<and> pending (held (pl_pool pl)) = Map.empty
    \<and> (\<forall>t < SS_N_THREADS. threads (pl_pool pl) ! t = (if t \<in> v_last ` set vs then Spinning else AtAccept))
    \<and> card (free_threads (pl_pool pl)) = SS_N_THREADS - length vs \<and> length vs < SS_N_THREADS"
proof -
  let ?ports = "[TRANSFER_PORT, STORAGE_SERVER_PORT]"
  obtain p0 s1 s2 where up: "ss_main e Map.empty [] st = (Inr p0, s1, [STORAGE_SERVER_PORT])"
    "ts_main e Map.empty [STORAGE_SERVER_PORT] = (Inr 1, s2, ?ports)"
    using services_start [OF assms(1), of st] by blast
  obtain k1 w where s: "new_main k now1 now2 = (0, k1)" "ShmReadInit k1 W_DataRecv = (True, k1, w)" "ready k1 w"
    "dr_id w = 0" "low_blocks k1 w"
    "\<forall>p. w_shmctl (reader_of k1 p) = w_shmctl w \<and> w_semtable (reader_of k1 p) = w_semtable w"
    using attached_low [OF assms(2-8)] by blast
  let ?pl = "\<lparr>pl_pool = p0, pl_kernel = k1, pl_writer = w, pl_readers = (\<lambda>q. (reader_of k1 q, new_sender)),
      pl_buffer = buffer\<rparr>"
  have rest: "rests e ?ports ?pl" "all_up e ?ports" using plant_rests [OF assms(1) refl assms(12) s(3-6)] by auto
  obtain us where us: "list_all2 seen vs us"
    "\<And>p. pool_run junk (concat (map up_round us)) p0 = Some (Inr p) \<Longrightarrow>
      \<exists>pl. pay_visits e ?ports junk raw prog raws vs ?pl = Some (replicate (length vs) 0, pl) \<and> pl_pool pl = p \<and> rests e ?ports pl"
    using visits_are_rounds [OF rest(1) visits_ok_all [OF assms(13)] assms(11) rest(2), of junk raw prog] by auto
  note seen = seen_all [OF us(1)] and ok = visits_ok_rounds [OF us(1) assms(13)]
  have "file_name ` up_id ` set us = file_name ` v_id ` set vs" using seen by (metis set_map)
  then have n: "\<forall>u \<in> set us. disk st (file_name (up_id u)) = None" using assms(15) by force
  obtain p where p: "pool_run junk (concat (map up_round us)) p0 = Some (Inr p)"
      "store_inv (held p)" "backlog p = []" "length (threads p) = SS_N_THREADS"
      "disk (held p) = disk st ++ map_of (v_files vs)" "pending (held p) = Map.empty"
      "\<forall>t < SS_N_THREADS. threads p ! t = (if t \<in> v_last ` set vs then Spinning else AtAccept)"
      "card (free_threads p) = SS_N_THREADS - length vs" "length vs < SS_N_THREADS"
    using uploads_wear_out [OF up(1) assms(9,10) _ _ n] seen ok assms(14) by auto
  obtain pl where pl: "pay_visits e ?ports junk raw prog raws vs ?pl = Some (replicate (length vs) 0, pl)" "pl_pool pl = p"
      "rests e ?ports pl"
    using us(2) [OF p(1)] by blast
  show ?thesis using up s(1,2) pl(1,3) rest(2) p(2-9) unfolding pl(2) [symmetric] by blast
qed

text \<open>C7: The whole system over its life. All programs run from their start on a machine whose kernel refuses
  no call; clients with small new files come one after another, a minute apart, and the threads
  of the storage server take their connections in whatever order. Every client exits with 0 and
  exactly these files are stored; but each visit leaves one of the five threads in an endless
  loop, so that after four visits, which is the most there can be, a single thread is left.\<close>

theorem system_wears_out:
  assumes "tcp_allows e" "fresh_kernel k" "shm_keys k now1 = None" "sem_keys k now2 = None"
    and "0 < now1" "0 < now2" "int_range now1" "int_range now2" "fresh_store st" "big junk"
    and "raws_ok raws" "length buffer = PACKAGE_SIZE"
    and "visits_ok {} vs" "distinct (map v_id vs)" "\<forall>v \<in> set vs. disk st (file_name (v_id v)) = None"
  shows "\<exists>p0 s1 ports1 s2 ports2 k1 w pl.
      ss_main e Map.empty [] st = (Inr p0, s1, ports1) \<and> ts_main e Map.empty ports1 = (Inr 1, s2, ports2)
    \<and> new_main k now1 now2 = (0, k1) \<and> ShmReadInit k1 W_DataRecv = (True, k1, w)
    \<and> pay_visits e ports2 junk raw prog raws vs \<lparr>pl_pool = p0, pl_kernel = k1, pl_writer = w,
          pl_readers = (\<lambda>q. (reader_of k1 q, new_sender)), pl_buffer = buffer\<rparr> = Some (replicate (length vs) 0, pl)
    \<and> disk (held (pl_pool pl)) = disk st ++ map_of (v_files vs) \<and> pending (held (pl_pool pl)) = Map.empty
    \<and> (\<forall>t < SS_N_THREADS. threads (pl_pool pl) ! t = (if t \<in> v_last ` set vs then Spinning else AtAccept))
    \<and> card (free_threads (pl_pool pl)) = SS_N_THREADS - length vs \<and> length vs < SS_N_THREADS"
  using visits_wear_out [OF assms, of raw prog] by blast

definition sample_visit :: "byte \<Rightarrow> byte list \<Rightarrow> nat \<Rightarrow> nat \<Rightarrow> visit" where
  "sample_visit b c i j = \<lparr>v_job = (\<lparr>sha1sum = replicate 20 b\<rparr>, [0x66], c), v_first = i, v_second = j,
     v_turns = [Turn i, Turn j, Turn i]\<rparr>"

definition sample_visits :: "visit list" where
  "sample_visits = [sample_visit 1 [7] 0 1, sample_visit 2 [9, 8] 1 2]"

definition sample_raws :: "cbuf \<times> cbuf \<times> cbuf \<times> cbuf" where
  "sample_raws = (zeros 512, zeros 40, zeros PACKAGE_SIZE, zeros 512)"

lemma sample_raws_ok: "raws_ok sample_raws"
  by (simp add: raws_ok_def sample_raws_def)

lemma sample_visits_ok: "visits_ok {} sample_visits"
proof -
  have s: "small [7]" "small [9, 8]" by (simp_all add: small_def)
  then show ?thesis
    by (simp add: sample_visits_def sample_visit_def visit_ok_def v_last_def end_thread_def small_ops two_threads_def
        turns_of_def ok_id_def SS_N_THREADS_def)
qed

lemma sample_process_fresh: "fresh_store sample_process" "disk sample_process = Map.empty"
  by (simp_all add: fresh_store_def sample_process_def)

theorem system_wears_out_witness:
  "\<exists>p0 s1 ports1 s2 ports2 k1 w pl.
      ss_main (tcp_ok 3) Map.empty [] sample_process = (Inr p0, s1, ports1)
    \<and> ts_main (tcp_ok 3) Map.empty ports1 = (Inr 1, s2, ports2)
    \<and> new_main empty_kernel 1000 1001 = (0, k1) \<and> ShmReadInit k1 W_DataRecv = (True, k1, w)
    \<and> pay_visits (tcp_ok 3) ports2 (\<lambda>_. zeros PACKAGE_SIZE) (zeros 32) [0x63] sample_raws sample_visits
        \<lparr>pl_pool = p0, pl_kernel = k1, pl_writer = w, pl_readers = (\<lambda>q. (reader_of k1 q, new_sender)),
          pl_buffer = zeros PACKAGE_SIZE\<rparr> = Some (replicate (length sample_visits) 0, pl)
    \<and> disk (held (pl_pool pl)) = disk sample_process ++ map_of (v_files sample_visits)
    \<and> pending (held (pl_pool pl)) = Map.empty
    \<and> (\<forall>t < SS_N_THREADS. threads (pl_pool pl) ! t = (if t \<in> v_last ` set sample_visits then Spinning else AtAccept))
    \<and> card (free_threads (pl_pool pl)) = SS_N_THREADS - length sample_visits \<and> length sample_visits < SS_N_THREADS"
proof (rule system_wears_out [OF _ fresh_empty _ _ _ _ _ _ sample_process_fresh(1) _ sample_raws_ok _ sample_visits_ok])
  show "big (\<lambda>_. zeros PACKAGE_SIZE)" by (simp add: big_def)
  show "distinct (map v_id sample_visits)" by (simp add: sample_visits_def sample_visit_def v_id_def)
qed (simp_all add: tcp_ok_def tcp_allows_def empty_kernel_def int_range_def sample_process_fresh(2))

end
