(* ===== verification/SecondClient.thy ===== *)
theory SecondClient
  imports SystemLife
begin

text \<open>
  A second client within a minute of the first: its blocks travel over the same two connections.
  The thread that gets the end message of the first file takes the byte after it for a message
  type and never comes to the blocks of the second file, whatever the scheduler does.
\<close>

section \<open>What the operations leave alone\<close>

text \<open>The file \<open>f\<close> has not been created.\<close>

definition absent :: "file_id \<Rightarrow> store \<Rightarrow> bool" where
  "absent f st \<longleftrightarrow> store_inv st \<and> disk st (file_name f) = None"

lemma absent_size:
  assumes "absent f st" "ok_id g" "SS_SetPendingFileSize st g n = Some st'" shows "absent f st'"
proof -
  have "store_inv st" using assms(1) by (simp add: absent_def)
  from SetPendingFileSize_map [OF this assms(2), of n] show ?thesis
    using assms(1,3) by (auto simp: absent_def same_files_def)
qed

lemma absent_write:
  assumes "absent f st" "ok_id f" "ok_id g" "f \<noteq> g" "SS_WriteData2PendingFile st g d off = Some st'" shows "absent f st'"
proof -
  have "store_inv st" using assms(1) by (simp add: absent_def)
  from WriteData_map [OF this assms(3), of d off] show ?thesis
    using assms(1,5) file_name_inj [OF assms(2,3)] assms(4) by (auto simp: absent_def)
qed

lemma absent_close:
  assumes "absent f st" "ok_id g" "SS_ClosePendingFile st g = Some c" shows "absent f (closing_store c)"
proof -
  have "store_inv st" using assms(1) by (simp add: absent_def)
  from ClosePendingFile_map [OF this assms(2)] show ?thesis
    using assms(1,3) by (auto simp: absent_def split: if_splits)
qed

lemma close_wait_disk: "close_wait st q = Some c \<Longrightarrow> disk (closing_store c) = disk st"
  by (auto simp: close_wait_def DelPendingFileFromHash_def delete_PendingFile_def put_obj_def do_close_def
      split: Option.bind_splits if_splits option.splits)

lemma absent_wait:
  assumes "absent f st" "close_wait st q = Some c" shows "absent f (closing_store c)"
  using close_wait_total [of st q] close_wait_disk [OF assms(2)] assms
  by (auto simp: absent_def split: if_splits)

section \<open>Lanes\<close>

text \<open>
  A lane is a set of states of a thread that it does not leave, and in which it never creates the
  file: turns lead from one of its states to another one, and so do signals.
\<close>

fun after_turn :: "turn \<Rightarrow> thread_state" where
  "after_turn TurnEnds = AtAccept"
| "after_turn (TurnGoes s st) = Serving s"
| "after_turn (TurnWaits q s st) = InClose q s"
| "after_turn TurnAborts = Spinning"
| "after_turn TurnSpins = Spinning"

definition lane :: "(sock \<Rightarrow> cbuf) \<Rightarrow> file_id \<Rightarrow> thread_state set \<Rightarrow> bool" where
  "lane junk f X \<longleftrightarrow>
     (\<forall>s st r. Serving s \<in> X \<and> absent f st \<and> serve_turn junk s st = Some r \<and> r \<noteq> TurnAborts
        \<longrightarrow> absent f (turn_store st r) \<and> after_turn r \<in> X)
   \<and> (\<forall>q s q'. InClose q s \<in> X \<longrightarrow> InClose q' s \<in> X \<and> Serving s \<in> X)"

lemma laneD:
  assumes "lane junk f X"
  shows "Serving s \<in> X \<Longrightarrow> absent f st \<Longrightarrow> serve_turn junk s st = Some r \<Longrightarrow> r \<noteq> TurnAborts \<Longrightarrow>
      absent f (turn_store st r) \<and> after_turn r \<in> X"
    and "InClose q s \<in> X \<Longrightarrow> InClose q' s \<in> X \<and> Serving s \<in> X"
  using assms unfolding lane_def by blast+

lemma lane_idle: "lane junk f {AtAccept}"
  by (simp add: lane_def)

lemma lane_stray: "b \<notin> msg_types \<Longrightarrow> lane junk f {Serving (arrived (b # g)), Spinning}"
  by (auto simp: lane_def turn_unknown sock_read_arrived_Cons)

lemma lane_Cons:
  assumes "lane junk f X"
    and "\<And>st r. absent f st \<Longrightarrow> serve_turn junk s st = Some r \<Longrightarrow> r \<noteq> TurnAborts \<Longrightarrow>
      absent f (turn_store st r) \<and> after_turn r \<in> insert (Serving s) X"
  shows "lane junk f (insert (Serving s) X)"
  unfolding lane_def using laneD [OF assms(1)] assms(2) by blast

lemma lane_waits: "lane junk f X \<Longrightarrow> Serving s \<in> X \<Longrightarrow> lane junk f (X \<union> range (\<lambda>q. InClose q s))"
  unfolding lane_def by blast

lemma lane_op:
  assumes "lane junk f X" "turn_performs junk g n b op" "ok_id f" "ok_id g"
    and "op = SizeOp \<or> (\<exists>off d. op = PieceOp off d) \<and> f \<noteq> g" "Serving (arrived rest) \<in> X"
  shows "lane junk f (insert (Serving (arrived (b @ rest))) X)"
proof (rule lane_Cons [OF assms(1)])
  fix st r assume a: "absent f st" "serve_turn junk (arrived (b @ rest)) st = Some r"
  note t = assms(2) [unfolded turn_performs_def, rule_format, of rest st]
  show "absent f (turn_store st r) \<and> after_turn r \<in> insert (Serving (arrived (b @ rest))) X"
    using assms(3-6) a t absent_size [OF a(1) assms(4)] absent_write [OF a(1) assms(3,4)] by auto
qed

lemma lane_close:
  assumes "lane junk f X" "turn_performs junk g n b CloseOp" "ok_id g" "Serving (arrived (drop 8182 b @ rest)) \<in> X"
  shows "lane junk f (insert (Serving (arrived (b @ rest))) (X \<union> range (\<lambda>q. InClose q (arrived (drop 8182 b @ rest)))))"
proof (rule lane_Cons [OF lane_waits [OF assms(1,4)]])
  fix st r assume a: "absent f st" "serve_turn junk (arrived (b @ rest)) st = Some r"
  note t = assms(2) [unfolded turn_performs_def, rule_format, of rest st]
  obtain c where c: "SS_ClosePendingFile st g = Some c" using a(2) t by auto
  show "absent f (turn_store st r)
      \<and> after_turn r \<in> insert (Serving (arrived (b @ rest))) (X \<union> range (\<lambda>q. InClose q (arrived (drop 8182 b @ rest))))"
    using a t c absent_close [OF a(1) assms(3) c] assms(4) by (cases c) auto
qed

text \<open>A process whose threads are in lanes stays so, as long as no connection arrives; connections that
  wait do no harm when no thread accepts.\<close>

definition in_lanes :: "file_id \<Rightarrow> (nat \<Rightarrow> thread_state set) \<Rightarrow> pool \<Rightarrow> bool" where
  "in_lanes f X p \<longleftrightarrow> (backlog p = [] \<or> (\<forall>t. AtAccept \<notin> X t)) \<and> absent f (held p) \<and> (\<forall>t x. thread_of p t = Some x \<longrightarrow> x \<in> X t)"

lemma lanes_step:
  assumes l: "\<And>t. lane junk f (X t)" and p: "in_lanes f X p" and s: "pool_step junk e p = Some (Inr p')"
    and e: "\<forall>s. e \<noteq> Arrives s"
  shows "in_lanes f X p'"
proof (cases e)
  case (Turn t)
  then have "do_turn junk t p = Some (Inr p')" using s by simp
  then show ?thesis
  proof (cases rule: do_turn_Inr)
    case (ends q)
    then show ?thesis using p laneD(1) [OF l, of q t "held p" TurnEnds] by (auto simp: in_lanes_def)
  next
    case (goes q q' st')
    then show ?thesis using p laneD(1) [OF l, of q t "held p" "TurnGoes q' st'"] by (auto simp: in_lanes_def)
  next
    case (waits q fp q' st')
    then show ?thesis using p laneD(1) [OF l, of q t "held p" "TurnWaits fp q' st'"] by (auto simp: in_lanes_def)
  next
    case (spins q)
    then show ?thesis using p laneD(1) [OF l, of q t "held p" TurnSpins] by (auto simp: in_lanes_def)
  qed (use p in simp)
next
  case (Signalled t)
  then have "do_wake t p = Some (Inr p')" using s by simp
  then show ?thesis
  proof (cases rule: do_wake_Inr)
    case (again fp q fp' st')
    then show ?thesis using p laneD(2) [OF l, of fp q t fp'] absent_wait [of f "held p" fp "Waiting fp' st'"]
      by (auto simp: in_lanes_def)
  next
    case (closed fp q st')
    then show ?thesis using p laneD(2) [OF l, of fp q t fp] absent_wait [of f "held p" fp "Closed st'"]
      by (auto simp: in_lanes_def)
  qed (use p in simp)
next
  case (Accepts t)
  then have "do_accept t True p = Inr p'" using s by simp
  then show ?thesis using p by (cases rule: do_accept_Inr) (auto simp: in_lanes_def)
next
  case (AcceptFails t)
  then show ?thesis using s p by (auto simp: do_accept_def in_lanes_def split: if_splits)
qed (use s e in auto)

lemma lanes_run:
  "(\<And>t. lane junk f (X t)) \<Longrightarrow> in_lanes f X p \<Longrightarrow> pool_run junk es p = Some (Inr p') \<Longrightarrow> \<forall>s. Arrives s \<notin> set es \<Longrightarrow>
    in_lanes f X p'"
proof (induction es arbitrary: p)
  case (Cons e es)
  then obtain p1 where "pool_step junk e p = Some (Inr p1)" "pool_run junk es p1 = Some (Inr p')"
    by (auto split: option.splits sum.splits)
  then show ?case using Cons lanes_step [OF Cons.prems(1,2), of e p1] by (metis list.set_intros)
qed simp

section \<open>Two uploads over the same connections\<close>

text \<open>
  Six blocks, alternating between the connections: the header and the end of the first file and the
  data of the second one on the first connection, the rest on the other one.
\<close>

definition turns3 :: "(sock \<Rightarrow> cbuf) \<Rightarrow> file_id \<Rightarrow> byte list \<Rightarrow> cbuf \<Rightarrow> cbuf \<Rightarrow> cbuf \<Rightarrow> bool" where
  "turns3 junk f c b0 b1 b2 \<longleftrightarrow> turn_performs junk f (of_nat (length c)) b0 SizeOp
     \<and> turn_performs junk f (of_nat (length c)) b1 (PieceOp 0 c) \<and> turn_performs junk f (of_nat (length c)) b2 CloseOp
     \<and> ok_id f \<and> (\<exists>x g. drop 8182 b2 = x # g \<and> x \<notin> msg_types)"

lemma small_turns:
  assumes "big junk" "job_ok (f, path, c)" "small c" "blocks [o0, o1, o2]" "o2 ! 8182 = 0"
  shows "turns3 junk f c (package o0 (header_msg f (of_nat (length c)) path)) (package o1 (data_msg f 0 c)) (package o2 (end_msg f))"
proof -
  have "list_all2 (turn_performs junk f (of_nat (length c))) (map2 package [o0, o1, o2] (upload_msgs f path c)) (upload_ops c)"
    by (rule upload_turns) (use assms in \<open>simp_all add: small_msgs\<close>)
  moreover have "drop 8182 o2 = o2 ! 8182 # drop 8183 o2"
    using Cons_nth_drop_Suc [of 8182 o2] assms(4) by (simp add: PACKAGE_SIZE_def)
  ultimately show ?thesis
    using assms drop_package_end [of f o2]
    by (simp add: turns3_def small_ops small_msgs msg_types_def MSG_NEW_FILE_def MSG_FILE_DATA_def MSG_FILE_END_def)
qed

text \<open>The connection with the header and the end of a file, whatever comes after them.\<close>

lemma head_lane:
  assumes t: "turns3 junk g c a1 b a2" and f: "ok_id f"
  shows "\<exists>X. lane junk f X \<and> Serving (arrived (a1 @ a2 @ as)) \<in> X \<and> Serving (arrived (a2 @ as)) \<in> X \<and> AtAccept \<notin> X"
proof -
  have ok: "ok_id g" using t by (simp add: turns3_def)
  obtain x h where x: "drop 8182 a2 = x # h" "x \<notin> msg_types" using t by (auto simp: turns3_def)
  have "lane junk f {Serving (arrived (drop 8182 a2 @ as)), Spinning}"
    using lane_stray [OF x(2), of junk f "h @ as"] by (simp add: x(1))
  from lane_close [OF this, of g "of_nat (length c)" a2 as] obtain X where
    X: "lane junk f X" "Serving (arrived (a2 @ as)) \<in> X" "AtAccept \<notin> X"
    using t ok by (auto simp: turns3_def)
  have "lane junk f (insert (Serving (arrived (a1 @ a2 @ as))) X)"
    by (rule lane_op [OF X(1) _ f ok _ X(2)]) (use t in \<open>auto simp: turns3_def\<close>)
  then show ?thesis using X(2,3) by blast
qed

lemma second_lanes:
  assumes t1: "turns3 junk f1 c1 a1 b1 a2" and t2: "turns3 junk f2 c2 b2 a3 b3" and ne: "f1 \<noteq> f2"
  shows "\<exists>X Y. lane junk f2 X \<and> Serving (arrived (a1 @ a2 @ a3)) \<in> X \<and> lane junk f2 Y \<and> Serving (arrived (b1 @ b2 @ b3)) \<in> Y"
proof -
  have ok: "ok_id f1" "ok_id f2" using t1 t2 by (simp_all add: turns3_def)
  obtain X where X: "lane junk f2 X" "Serving (arrived (a1 @ a2 @ a3)) \<in> X" using head_lane [OF t1 ok(2)] by blast
  obtain Y where Y: "lane junk f2 Y" "Serving (arrived (b2 @ b3 @ [])) \<in> Y" using head_lane [OF t2 ok(2)] by blast
  have "lane junk f2 (insert (Serving (arrived (b1 @ b2 @ b3 @ []))) Y)"
    by (rule lane_op [OF Y(1) _ ok(2,1) _ Y(2)]) (use t1 ne in \<open>auto simp: turns3_def\<close>)
  then show ?thesis using X by (intro exI conjI) (assumption | simp)+
qed

lemma second_never_created:
  assumes t: "turns3 junk f1 c1 a1 b1 a2" "turns3 junk f2 c2 b2 a3 b3" "f1 \<noteq> f2"
    and p: "backlog p = []" "absent f2 (held p)" "i \<noteq> j" "\<forall>t. t \<noteq> i \<and> t \<noteq> j \<longrightarrow> thread_of p t \<in> {None, Some AtAccept}"
    and s: "thread_of p i = Some (Serving (arrived (a1 @ a2 @ a3)))" "thread_of p j = Some (Serving (arrived (b1 @ b2 @ b3)))"
    and e: "pool_run junk es p = Some (Inr p')" "\<forall>s. Arrives s \<notin> set es"
  shows "disk (held p') (file_name f2) = None"
proof -
  obtain X Y where l: "lane junk f2 X" "Serving (arrived (a1 @ a2 @ a3)) \<in> X" "lane junk f2 Y"
    "Serving (arrived (b1 @ b2 @ b3)) \<in> Y"
    using second_lanes [OF t] by blast
  let ?Z = "\<lambda>t. if t = i then X else if t = j then Y else {AtAccept}"
  have "lane junk f2 (?Z t)" for t using l(1,3) lane_idle by simp
  moreover have "in_lanes f2 ?Z p"
    unfolding in_lanes_def using p s l by auto
  ultimately have "in_lanes f2 ?Z p'" using lanes_run [of junk f2 ?Z] e by blast
  then show ?thesis by (simp add: in_lanes_def absent_def)
qed

text \<open>The first file is stored, whatever follows its blocks on the connections.\<close>

lemma first_is_stored:
  assumes t: "turns3 junk f1 c1 a1 b1 a2" "small c1" "new_upload (held p) f1" "i \<noteq> j"
    and s: "thread_of p i = Some (Serving (arrived (a1 @ a2 @ as)))" "thread_of p j = Some (Serving (arrived (b1 @ bs)))"
  shows "\<exists>p'. pool_run junk [Turn i, Turn j, Turn i, Signalled i] p = Some (Inr p') \<and> stored (held p) f1 c1 (held p')"
proof -
  let ?n = "of_nat (length c1) :: u64"
  have c: "length c1 < 2 ^ 63" "length c1 mod 8141 \<noteq> 0" using t(2) by (simp_all add: small_def)
  obtain st' where "ss_run ?n f1 ([Does SizeOp, Does (PieceOp 0 c1), Does CloseOp] @ [Wakes]) (held p, NotYet) = Some (st', Done)"
      "stored (held p) f1 c1 st'"
    using upload_any_order [OF t(3) c, of "[Does SizeOp, Does (PieceOp 0 c1), Does CloseOp]"] small_ops [OF t(2)] by auto
  then obtain st1 st2 x where o: "SS_SetPendingFileSize (held p) f1 ?n = Some st1"
      "SS_WriteData2PendingFile st1 f1 c1 0 = Some st2" "SS_ClosePendingFile st2 f1 = Some x"
      "ss_step ?n f1 Wakes (case x of Waiting q st \<Rightarrow> (st, WaitsAt q) | Closed st \<Rightarrow> (st, Done)) = Some (st', Done)"
      "stored (held p) f1 c1 st'"
    by (auto simp: closes_def bind_eq_Some_conv)
  note perf = t(1) [unfolded turns3_def turn_performs_def]
  let ?p1 = "set_thread i (Serving (arrived (a2 @ as))) (p\<lparr>held := st1\<rparr>)"
  let ?p2 = "set_thread j (Serving (arrived bs)) (?p1\<lparr>held := st2\<rparr>)"
  let ?s = "arrived (drop 8182 a2 @ as)"
  note l = thread_of_less [OF s(1)] thread_of_less [OF s(2)]
  have 1: "do_turn junk i p = Some (Inr ?p1)" using s(1) perf o(1) by (simp add: do_turn_def)
  have 2: "do_turn junk j ?p1 = Some (Inr ?p2)" using s(2) t(4) perf o(2) by (simp add: do_turn_def)
  have i: "thread_of ?p2 i = Some (Serving (arrived (a2 @ as)))" using t(4) l by simp
  show ?thesis
  proof (cases x)
    case (Closed st3)
    then have "st' = st3" using o(4) by simp
    moreover have "do_turn junk i ?p2 = Some (Inr (set_thread i (Serving ?s) (?p2\<lparr>held := st3\<rparr>)))"
      using i perf o(3) Closed by (simp add: do_turn_def)
    ultimately show ?thesis using 1 2 o(5) l by (simp add: do_wake_def)
  next
    case (Waiting q st3)
    let ?p3 = "set_thread i (InClose q ?s) (?p2\<lparr>held := st3\<rparr>)"
    have 3: "do_turn junk i ?p2 = Some (Inr ?p3)" using i perf o(3) Waiting by (simp add: do_turn_def)
    have "close_wait st3 q = Some (Closed st')" using o(4) Waiting
      by (cases "the (close_wait st3 q)") (auto simp: closes_def)
    then have "do_wake i ?p3 = Some (Inr (set_thread i (Serving ?s) (?p3\<lparr>held := st'\<rparr>)))"
      using l by (simp add: do_wake_def)
    then show ?thesis using 1 2 3 o(5) by simp
  qed
qed

section \<open>The second client\<close>

lemma six: "length xs = 6 \<Longrightarrow> \<exists>a b c d e f. xs = [a, b, c, d, e, f]"
  by (auto simp: numeral_eq_Suc length_Suc_conv)

text \<open>C9: A second client within a minute of the first, both with small files: both exit with 0, and the
  transfer server relays both. The first file is stored as soon as the threads take the turns for
  it. The second one is never even created, whatever the threads do in whatever order and however
  often they are woken, until another connection arrives or the process ends.\<close>

theorem second_client_lost:
  assumes "tcp_allows e" "fresh_kernel k" "shm_keys k now1 = None" "sem_keys k now2 = None"
    and "0 < now1" "0 < now2" "int_range now1" "int_range now2" "fresh_store st" "big junk"
    and "raws_ok raws" "length buffer = PACKAGE_SIZE" "i < SS_N_THREADS" "j < SS_N_THREADS" "i \<noteq> j"
    and "u1 = (f1, path1, c1)" "u2 = (f2, path2, c2)" "job_ok u1" "job_ok u2" "small c1" "small c2" "f1 \<noteq> f2"
    and "disk st (file_name f1) = None" "disk st (file_name f2) = None"
  shows "\<exists>p0 s1 ports1 s2 ports2 k1 w k2 w2 rd opening.
      ss_main e Map.empty [] st = (Inr p0, s1, ports1) \<and> ts_main e Map.empty ports1 = (Inr 1, s2, ports2)
    \<and> new_main k now1 now2 = (0, k1) \<and> ShmReadInit k1 W_DataRecv = (True, k1, w)
    \<and> job_client e ports2 prog raws u1 = Some (ProgramExits 0 (job_msgs u1))
    \<and> job_client e ports2 prog raws u2 = Some (ProgramExits 0 (job_msgs u2))
    \<and> relay_clients e ports2 raw buffer [Some (arrived (concat (job_msgs u1))), Some (arrived (concat (job_msgs u2)))] k1 w
        (\<lambda>q. (reader_of k1 q, new_sender)) = Some (Goes (None, k2, w2, rd))
    \<and> opening = [Arrives (arrived (sent (snd (rd (pipe_name 1))))), Accepts i,
        Arrives (arrived (sent (snd (rd (pipe_name 0))))), Accepts j]
    \<and> (\<exists>p'. pool_run junk (opening @ [Turn i, Turn j, Turn i, Signalled i]) p0 = Some (Inr p')
        \<and> disk (held p') = (disk st)(file_name f1 \<mapsto> c1))
    \<and> (\<forall>es p'. (\<forall>s. Arrives s \<notin> set es) \<and> pool_run junk (opening @ es) p0 = Some (Inr p')
        \<longrightarrow> disk (held p') (file_name f2) = None)"
proof -
  let ?ports = "[TRANSFER_PORT, STORAGE_SERVER_PORT]" and ?rd = "\<lambda>q. (reader_of k1 q, new_sender)"
  obtain p0 s1 s2 where up: "ss_main e Map.empty [] st = (Inr p0, s1, [STORAGE_SERVER_PORT])"
    "p0 = \<lparr>backlog = [], threads = replicate SS_N_THREADS AtAccept, held = InitHashTable st\<rparr>"
    "ts_main e Map.empty [STORAGE_SERVER_PORT] = (Inr 1, s2, ?ports)"
    using services_start [OF assms(1), of st] by blast
  obtain k1 w where s: "new_main k now1 now2 = (0, k1)" "ShmReadInit k1 W_DataRecv = (True, k1, w)" "ready k1 w"
    "dr_id w = 0" "low_blocks k1 w"
    "\<forall>p. w_shmctl (reader_of k1 p) = w_shmctl w \<and> w_semtable (reader_of k1 p) = w_semtable w"
    using attached_low [OF assms(2-8)] by blast
  have on: "all_up e ?ports" "passing e ?ports k1 w (\<lambda>q. (reader_of k1 q, new_sender))"
    using plant_rests [OF assms(1) refl assms(12) s(3-6)] by (auto simp: rests_def)
  let ?mss = "[job_msgs u1, job_msgs u2]"
  have fr: "\<forall>ms \<in> set ?mss. \<forall>m \<in> set ms. framed m"
    using framed_upload [of f1 path1 c1] framed_upload [of f2 path2 c2] assms(16-19) by simp
  have sh: "\<forall>m \<in> set (concat ?mss). short_msg m" using small_short assms(16-21) by auto
  obtain b' k2 w2 rd olds where r: "relay_clients e ?ports raw buffer
        (map (\<lambda>ms. Some (arrived (concat ms))) ?mss @ []) k1 w (\<lambda>q. (reader_of k1 q, new_sender))
        = relay_clients e ?ports raw b' [] k2 w2 rd"
      "length olds = length (concat ?mss)" "blocks olds" "\<forall>b \<in> set olds. b ! 8182 = 0"
      "sent (snd (rd (pipe_name (1 - dr_id w)))) = concat (evens (map2 package olds (concat ?mss)))"
      "sent (snd (rd (pipe_name (dr_id w)))) = concat (odds (map2 package olds (concat ?mss)))"
    using relay_many [OF fr assms(12) on(2), of raw "[]"] sh s(5) by (auto simp: new_sender_def)
  have ms: "concat ?mss = [header_msg f1 (of_nat (length c1)) path1, data_msg f1 0 c1, end_msg f1,
      header_msg f2 (of_nat (length c2)) path2, data_msg f2 0 c2, end_msg f2]"
    using assms(16,17,20,21) by (simp add: small_msgs)
  have "length olds = 6" using r(2) unfolding ms by simp
  then obtain o0 o1 o2 o3 o4 o5 where o: "olds = [o0, o1, o2, o3, o4, o5]" using six by blast
  define a1 b1 a2 b2 a3 b3 where bl: "a1 = package o0 (header_msg f1 (of_nat (length c1)) path1)"
    "b1 = package o1 (data_msg f1 0 c1)" "a2 = package o2 (end_msg f1)"
    "b2 = package o3 (header_msg f2 (of_nat (length c2)) path2)" "a3 = package o4 (data_msg f2 0 c2)" "b3 = package o5 (end_msg f2)"
  have sent: "sent (snd (rd (pipe_name 1))) = a1 @ a2 @ a3" "sent (snd (rd (pipe_name 0))) = b1 @ b2 @ b3"
    using r(5,6) unfolding s(4) ms o by (simp_all add: bl)
  have t1: "turns3 junk f1 c1 a1 b1 a2" and t2: "turns3 junk f2 c2 b2 a3 b3"
    unfolding bl using small_turns [OF assms(10)] assms(16-21) r(3,4) unfolding o by simp_all
  let ?op = "[Arrives (arrived (sent (snd (rd (pipe_name 1))))), Accepts i,
        Arrives (arrived (sent (snd (rd (pipe_name 0))))), Accepts j]"
  have at: "thread_of p0 i = Some AtAccept" "thread_of p0 j = Some AtAccept" "nobody_closes p0" "backlog p0 = []"
    "\<And>t. thread_of p0 t \<in> {None, Some AtAccept}"
    using up(2) assms(13,14) by (auto simp: thread_of_def nobody_closes_def)
  obtain p where p: "pool_run junk ?op p0 = Some (Inr p)" "held p = held p0" "backlog p = []"
      "thread_of p i = Some (Serving (arrived (a1 @ a2 @ a3)))" "thread_of p j = Some (Serving (arrived (b1 @ b2 @ b3)))"
      "\<forall>t. t \<noteq> i \<and> t \<noteq> j \<longrightarrow> thread_of p t = thread_of p0 t"
    using two_accepts [OF at(1,2,4,3) assms(15), of junk _ _ "[]"] unfolding sent by fastforce
  have run: "pool_run junk (?op @ es) p0 = pool_run junk es p" for es
    unfolding pool_run_append p(1) by simp
  have iv: "store_inv (InitHashTable st) \<and> pending (InitHashTable st) = Map.empty"
    using InitHashTable_inv [of st] assms(9) by (simp add: fresh_store_def)
  have h: "held p = InitHashTable st" "disk (InitHashTable st) = disk st" using p(2) up(2) by (simp_all add: InitHashTable_def)
  have n: "new_upload (held p) f1" "absent f2 (held p)"
    using iv h assms(16,18,23,24) by (simp_all add: new_upload_def absent_def)
  have A: "\<exists>p'. pool_run junk (?op @ [Turn i, Turn j, Turn i, Signalled i]) p0 = Some (Inr p')
      \<and> disk (held p') = (disk st)(file_name f1 \<mapsto> c1)"
    using first_is_stored [OF t1 assms(20) n(1) assms(15) p(4,5)] h unfolding run stored_def by auto
  have "disk (held p') (file_name f2) = None"
    if "\<forall>s. Arrives s \<notin> set es" "pool_run junk (?op @ es) p0 = Some (Inr p')" for es p'
    using second_never_created [OF t1 t2 _ p(3) n(2) assms(15) _ p(4,5), of es p'] that p(6) at(5) assms(22)
    unfolding run by auto
  then have B: "\<forall>es p'. (\<forall>s. Arrives s \<notin> set es) \<and> pool_run junk (?op @ es) p0 = Some (Inr p')
      \<longrightarrow> disk (held p') (file_name f2) = None" by blast
  have C: "job_client e ?ports prog raws u1 = Some (ProgramExits 0 (job_msgs u1))"
    "job_client e ?ports prog raws u2 = Some (ProgramExits 0 (job_msgs u2))"
    using job_client_exits [OF _ assms(11) on(1)] assms(18,19) by simp_all
  have D: "relay_clients e ?ports raw buffer [Some (arrived (concat (job_msgs u1))), Some (arrived (concat (job_msgs u2)))] k1 w
      (\<lambda>q. (reader_of k1 q, new_sender)) = Some (Goes (None, k2, w2, rd))" using r(1) by simp
  show ?thesis
    by (rule exI [of _ p0], rule exI [of _ s1], rule exI [of _ "[STORAGE_SERVER_PORT]"], rule exI [of _ s2], rule exI [of _ ?ports], rule exI [of _ k1],
        rule exI [of _ w], rule exI [of _ k2], rule exI [of _ w2], rule exI [of _ rd], rule exI [of _ ?op])
      (intro conjI up(1,3) s(1,2) C D A B refl)
qed

theorem second_client_lost_witness:
  "\<exists>p0 s1 ports1 s2 ports2 k1 w k2 w2 rd opening.
      ss_main (tcp_ok 3) Map.empty [] sample_process = (Inr p0, s1, ports1)
    \<and> ts_main (tcp_ok 3) Map.empty ports1 = (Inr 1, s2, ports2)
    \<and> new_main empty_kernel 1000 1001 = (0, k1) \<and> ShmReadInit k1 W_DataRecv = (True, k1, w)
    \<and> job_client (tcp_ok 3) ports2 [0x63] sample_raws (sample_id, [0x66], [1, 2, 3])
        = Some (ProgramExits 0 (job_msgs (sample_id, [0x66], [1, 2, 3])))
    \<and> job_client (tcp_ok 3) ports2 [0x63] sample_raws (\<lparr>sha1sum = replicate 20 0xcd\<rparr>, [0x67], [7])
        = Some (ProgramExits 0 (job_msgs (\<lparr>sha1sum = replicate 20 0xcd\<rparr>, [0x67], [7])))
    \<and> relay_clients (tcp_ok 3) ports2 (zeros 32) (zeros PACKAGE_SIZE)
        [Some (arrived (concat (job_msgs (sample_id, [0x66], [1, 2, 3])))),
         Some (arrived (concat (job_msgs (\<lparr>sha1sum = replicate 20 0xcd\<rparr>, [0x67], [7]))))] k1 w
        (\<lambda>q. (reader_of k1 q, new_sender)) = Some (Goes (None, k2, w2, rd))
    \<and> opening = [Arrives (arrived (sent (snd (rd (pipe_name 1))))), Accepts 0,
        Arrives (arrived (sent (snd (rd (pipe_name 0))))), Accepts 3]
    \<and> (\<exists>p'. pool_run (\<lambda>_. zeros PACKAGE_SIZE) (opening @ [Turn 0, Turn 3, Turn 0, Signalled 0]) p0 = Some (Inr p')
        \<and> disk (held p') = (disk sample_process)(file_name sample_id \<mapsto> [1, 2, 3]))
    \<and> (\<forall>es p'. (\<forall>s. Arrives s \<notin> set es) \<and> pool_run (\<lambda>_. zeros PACKAGE_SIZE) (opening @ es) p0 = Some (Inr p')
        \<longrightarrow> disk (held p') (file_name \<lparr>sha1sum = replicate 20 0xcd\<rparr>) = None)"
proof (rule second_client_lost [OF _ fresh_empty _ _ _ _ _ _ sample_process_fresh(1) _ sample_raws_ok _ _ _ _ refl refl])
  show "big (\<lambda>_. zeros PACKAGE_SIZE)" by (simp add: big_def)
qed (simp_all add: tcp_ok_def tcp_allows_def empty_kernel_def int_range_def sample_process_fresh(2) SS_N_THREADS_def
    small_def sample_id_def ok_id_def)

end
