(* ===== verification/FifthClient.thy ===== *)
theory FifthClient
  imports SecondClient
begin

text \<open>
  What is left after four visits: one thread. The two connections of a further upload need two, so
  that its file is never created, whatever the scheduler does.
\<close>

section \<open>A single thread\<close>

text \<open>Every thread but \<open>t\<close> is lost, and \<open>t\<close> waits at \<^verbatim>\<open>accept\<close>.\<close>

definition one_left :: "nat \<Rightarrow> pool \<Rightarrow> bool" where
  "one_left t p \<longleftrightarrow> thread_of p t = Some AtAccept \<and> (\<forall>t' x. t' \<noteq> t \<and> thread_of p t' = Some x \<longrightarrow> x = Spinning)"

lemma one_left_idle:
  assumes "one_left t p" "\<forall>s. e \<noteq> Arrives s" "e \<noteq> Accepts t" "pool_step junk e p = Some (Inr p')"
  shows "p' = p"
proof (cases e)
  case (Accepts t')
  then have "thread_of p t' \<noteq> Some AtAccept" using assms(1,3) by (auto simp: one_left_def)
  then show ?thesis using assms(4) Accepts by (simp add: do_accept_def)
next
  case (AcceptFails t')
  then show ?thesis using assms(4) by (auto simp: do_accept_def split: if_splits)
next
  case (Turn t')
  have "\<forall>s. thread_of p t' \<noteq> Some (Serving s)" using assms(1) by (cases "t' = t") (auto simp: one_left_def)
  then show ?thesis using assms(4) Turn by (auto simp: do_turn_def split: option.splits thread_state.splits)
next
  case (Signalled t')
  have "\<forall>q s. thread_of p t' \<noteq> Some (InClose q s)" using assms(1) by (cases "t' = t") (auto simp: one_left_def)
  then show ?thesis using assms(4) Signalled by (auto simp: do_wake_def split: option.splits thread_state.splits)
qed (use assms(2,4) in auto)

lemma lane_spinning: "lane junk f {Spinning}"
  by (simp add: lane_def)

text \<open>Two connections wait; the thread can take the first of them only.\<close>

lemma one_left_run:
  assumes "one_left t p" "backlog p = [s, s']" "absent f (held p)" "lane junk f X" "Serving s \<in> X" "AtAccept \<notin> X"
    and "\<forall>s. Arrives s \<notin> set es" "pool_run junk es p = Some (Inr p')"
  shows "absent f (held p')"
  using assms(7,8)
proof (induction es)
  case (Cons e es)
  then obtain p1 where p1: "pool_step junk e p = Some (Inr p1)" "pool_run junk es p1 = Some (Inr p')"
    by (auto split: option.splits sum.splits)
  show ?case
  proof (cases "e = Accepts t")
    case True
    let ?Z = "\<lambda>t'. if t' = t then X else {Spinning}"
    have "p1 = set_thread t (Serving s) (p\<lparr>backlog := [s']\<rparr>)"
      using p1(1) assms(1,2) True by (simp add: do_accept_def one_left_def)
    moreover have "t < length (threads p)" using assms(1) thread_of_less by (auto simp: one_left_def)
    ultimately have "in_lanes f ?Z p1" using assms(1,3,5,6) by (auto simp: in_lanes_def one_left_def)
    moreover have "lane junk f (?Z t')" for t' using assms(4) lane_spinning by simp
    ultimately have "in_lanes f ?Z p'" using lanes_run [of junk f ?Z p1 es p'] p1(2) Cons.prems(1) by simp
    then show ?thesis by (simp add: in_lanes_def)
  next
    case False
    moreover have "\<forall>s. e \<noteq> Arrives s" using Cons.prems(1) by auto
    ultimately have "p1 = p" using one_left_idle [OF assms(1)] p1(1) by blast
    then show ?thesis using Cons p1(2) by simp
  qed
qed (use assms(3) in simp)

section \<open>After four visits\<close>

lemma one_left_after:
  assumes "length (threads p) = SS_N_THREADS" "card (free_threads p) = 1"
    and "\<forall>t < SS_N_THREADS. threads p ! t \<in> {Spinning, AtAccept}"
  shows "\<exists>t. one_left t p"
proof -
  obtain t where t: "free_threads p = {t}" using assms(2) by (meson card_1_singletonE)
  have "one_left t p"
    unfolding one_left_def
  proof (intro conjI allI impI)
    show "thread_of p t = Some AtAccept" using t by (auto simp: free_threads_def)
    fix t' x assume a: "t' \<noteq> t \<and> thread_of p t' = Some x"
    then have "t' \<notin> free_threads p" using t by simp
    then show "x = Spinning" using a assms(1,3) thread_of_less [of p t' x] by (auto simp: free_threads_def thread_of_def)
  qed
  then show ?thesis ..
qed

text \<open>C10: After four uploads no file is stored any more: the client of the fifth one exits with 0 like the others
  and the transfer server and the reading processes pass its blocks on, but the storage server,
  with the one thread it has left for two connections, does not even create the file, in
  whatever order things happen, until another connection arrives or the process ends.\<close>

theorem fifth_client_lost:
  assumes "tcp_allows e" "fresh_kernel k" "shm_keys k now1 = None" "sem_keys k now2 = None"
    and "0 < now1" "0 < now2" "int_range now1" "int_range now2" "fresh_store st" "big junk"
    and "raws_ok raws" "length buffer = PACKAGE_SIZE"
    and "visits_ok {} vs" "distinct (map v_id vs)" "\<forall>v \<in> set vs. disk st (file_name (v_id v)) = None"
    and "length vs = 4" "u = (f, path, c)" "job_ok u" "small c" "f \<notin> v_id ` set vs" "disk st (file_name f) = None"
  shows "\<exists>p0 s1 ports1 s2 ports2 k1 w pl k2 w2 rd b d.
      ss_main e Map.empty [] st = (Inr p0, s1, ports1) \<and> ts_main e Map.empty ports1 = (Inr 1, s2, ports2)
    \<and> new_main k now1 now2 = (0, k1) \<and> ShmReadInit k1 W_DataRecv = (True, k1, w)
    \<and> pay_visits e ports2 junk raw prog raws vs \<lparr>pl_pool = p0, pl_kernel = k1, pl_writer = w,
          pl_readers = (\<lambda>q. (reader_of k1 q, new_sender)), pl_buffer = buffer\<rparr> = Some (replicate 4 0, pl)
    \<and> job_client e ports2 prog raws u = Some (ProgramExits 0 (job_msgs u))
    \<and> relay_run e ports2 raw (pl_buffer pl) (arrived (concat (job_msgs u))) (pl_kernel pl) (pl_writer pl) (pl_readers pl)
        = Some (Goes (b, k2, w2, rd))
    \<and> d = dr_id (pl_writer pl)
    \<and> (\<forall>es p'. (\<forall>s. Arrives s \<notin> set es)
        \<and> pool_run junk (Arrives (arrived (sent (snd (rd (pipe_name (1 - d))))))
            # Arrives (arrived (sent (snd (rd (pipe_name d))))) # es) (pl_pool pl) = Some (Inr p')
        \<longrightarrow> disk (held p') (file_name f) = None)"
proof -
  let ?ports = "[TRANSFER_PORT, STORAGE_SERVER_PORT]" and ?ms = "job_msgs u"
  obtain p0 s1 s2 k1 w pl where up: "ss_main e Map.empty [] st = (Inr p0, s1, [STORAGE_SERVER_PORT])"
    "ts_main e Map.empty [STORAGE_SERVER_PORT] = (Inr 1, s2, ?ports)"
    "new_main k now1 now2 = (0, k1)" "ShmReadInit k1 W_DataRecv = (True, k1, w)"
    "pay_visits e ?ports junk raw prog raws vs \<lparr>pl_pool = p0, pl_kernel = k1, pl_writer = w,
          pl_readers = (\<lambda>q. (reader_of k1 q, new_sender)), pl_buffer = buffer\<rparr> = Some (replicate (length vs) 0, pl)"
    and pl: "rests e ?ports pl" "all_up e ?ports" "store_inv (held (pl_pool pl))" "backlog (pl_pool pl) = []"
      "length (threads (pl_pool pl)) = SS_N_THREADS" "disk (held (pl_pool pl)) = disk st ++ map_of (v_files vs)"
      "\<forall>t < SS_N_THREADS. threads (pl_pool pl) ! t = (if t \<in> v_last ` set vs then Spinning else AtAccept)"
      "card (free_threads (pl_pool pl)) = SS_N_THREADS - length vs"
    using visits_wear_out [OF assms(1-15), of raw prog] by blast
  let ?d = "dr_id (pl_writer pl)"
  have j: "small c" "job_ok (f, path, c)" "?ms = upload_msgs f path c" using assms(17-19) by simp_all
  obtain b k2 w2 rd olds where r: "relay_run e ?ports raw (pl_buffer pl) (arrived (concat ?ms)) (pl_kernel pl) (pl_writer pl)
        (pl_readers pl) = Some (Goes (b, k2, w2, rd))" "length olds = 3" "blocks olds" "\<forall>b \<in> set olds. b ! 8182 = 0"
    "sent (snd (rd (pipe_name (1 - ?d)))) = concat (evens (map2 package olds ?ms))"
    using visit_streams [OF pl(1) j(1,2) pl(2), of raw] unfolding j(3) by blast
  obtain o0 o1 o2 where o: "olds = [o0, o1, o2]" using r(2) by (auto simp: numeral_3_eq_3 length_Suc_conv)
  let ?a1 = "package o0 (header_msg f (of_nat (length c)) path)" and ?a2 = "package o2 (end_msg f)"
  have "turns3 junk f c ?a1 (package o1 (data_msg f 0 c)) ?a2"
    using small_turns [OF assms(10) j(2,1)] r(3,4) unfolding o by simp
  then obtain X where X: "lane junk f X" "Serving (arrived (?a1 @ ?a2 @ [])) \<in> X" "AtAccept \<notin> X"
    using head_lane [of junk f c ?a1 _ ?a2 f "[]"] j(2) by auto
  have s: "sent (snd (rd (pipe_name (1 - ?d)))) = ?a1 @ ?a2 @ []"
    using r(5) j(1) unfolding o j(3) by (simp add: small_msgs)
  obtain t where t: "one_left t (pl_pool pl)"
  proof -
    have "card (free_threads (pl_pool pl)) = 1" using pl(8) assms(16) by (simp add: SS_N_THREADS_def)
    moreover have "\<forall>t < SS_N_THREADS. threads (pl_pool pl) ! t \<in> {Spinning, AtAccept}" using pl(7) by simp
    ultimately show ?thesis using one_left_after [OF pl(5)] that by blast
  qed
  have "map_of (v_files vs) (file_name f) = None"
  proof -
    have "file_name f \<noteq> file_name (v_id v)" if "v \<in> set vs" for v
    proof -
      have "ok_id (v_id v)" using visits_ok_all [OF assms(13)] that by (cases "v_job v") (auto simp: visit_ok_def v_id_def)
      then show ?thesis using file_name_inj [of "v_id v" f] that assms(20) j(2) by auto
    qed
    then show ?thesis by (simp add: v_files_def map_of_eq_None_iff image_iff)
  qed
  then have ab: "absent f (held (pl_pool pl))" using pl(3,6) assms(21) by (simp add: absent_def map_add_def)
  have F: "\<forall>es p'. (\<forall>s. Arrives s \<notin> set es)
        \<and> pool_run junk (Arrives (arrived (sent (snd (rd (pipe_name (1 - ?d))))))
            # Arrives (arrived (sent (snd (rd (pipe_name ?d))))) # es) (pl_pool pl) = Some (Inr p')
        \<longrightarrow> disk (held p') (file_name f) = None"
  proof (intro allI impI)
    fix es p' assume a: "(\<forall>s. Arrives s \<notin> set es)
        \<and> pool_run junk (Arrives (arrived (sent (snd (rd (pipe_name (1 - ?d))))))
            # Arrives (arrived (sent (snd (rd (pipe_name ?d))))) # es) (pl_pool pl) = Some (Inr p')"
    let ?p = "(pl_pool pl)\<lparr>backlog := [arrived (?a1 @ ?a2 @ []), arrived (sent (snd (rd (pipe_name ?d))))]\<rparr>"
    have "pool_run junk es ?p = Some (Inr p')" using a pl(4) unfolding s by simp
    moreover have "one_left t ?p" using t by (simp add: one_left_def)
    ultimately have "absent f (held p')"
      using one_left_run [of t ?p "arrived (?a1 @ ?a2 @ [])" _ f junk X es p'] ab X a by simp
    then show "disk (held p') (file_name f) = None" by (simp add: absent_def)
  qed
  have C: "job_client e ?ports prog raws u = Some (ProgramExits 0 ?ms)"
    by (rule job_client_exits [OF assms(18,11) pl(2)])
  have P: "pay_visits e ?ports junk raw prog raws vs \<lparr>pl_pool = p0, pl_kernel = k1, pl_writer = w,
          pl_readers = (\<lambda>q. (reader_of k1 q, new_sender)), pl_buffer = buffer\<rparr> = Some (replicate 4 0, pl)"
    using up(5) assms(16) by simp
  show ?thesis
    by (rule exI [of _ p0], rule exI [of _ s1], rule exI [of _ "[STORAGE_SERVER_PORT]"], rule exI [of _ s2],
        rule exI [of _ ?ports], rule exI [of _ k1], rule exI [of _ w], rule exI [of _ pl], rule exI [of _ k2],
        rule exI [of _ w2], rule exI [of _ rd], rule exI [of _ b], rule exI [of _ ?d])
      (intro conjI up(1-4) P C r(1) F refl)
qed

definition four_visits :: "visit list" where
  "four_visits = [sample_visit 1 [7] 0 1, sample_visit 2 [9, 8] 1 2, sample_visit 3 [5] 2 4, sample_visit 4 [6] 4 3]"

lemma four_visits_ok: "visits_ok {} four_visits"
proof -
  have s: "small [7]" "small [9, 8]" "small [5]" "small [6]" by (simp_all add: small_def)
  then show ?thesis
    by (simp add: four_visits_def sample_visit_def visit_ok_def v_last_def end_thread_def small_ops two_threads_def
        turns_of_def ok_id_def SS_N_THREADS_def)
qed

theorem fifth_client_lost_witness:
  "\<exists>p0 s1 ports1 s2 ports2 k1 w pl k2 w2 rd b d.
      ss_main (tcp_ok 3) Map.empty [] sample_process = (Inr p0, s1, ports1)
    \<and> ts_main (tcp_ok 3) Map.empty ports1 = (Inr 1, s2, ports2)
    \<and> new_main empty_kernel 1000 1001 = (0, k1) \<and> ShmReadInit k1 W_DataRecv = (True, k1, w)
    \<and> pay_visits (tcp_ok 3) ports2 (\<lambda>_. zeros PACKAGE_SIZE) (zeros 32) [0x63] sample_raws four_visits
        \<lparr>pl_pool = p0, pl_kernel = k1, pl_writer = w, pl_readers = (\<lambda>q. (reader_of k1 q, new_sender)),
          pl_buffer = zeros PACKAGE_SIZE\<rparr> = Some (replicate 4 0, pl)
    \<and> job_client (tcp_ok 3) ports2 [0x63] sample_raws (sample_id, [0x66], [1, 2, 3])
        = Some (ProgramExits 0 (job_msgs (sample_id, [0x66], [1, 2, 3])))
    \<and> relay_run (tcp_ok 3) ports2 (zeros 32) (pl_buffer pl) (arrived (concat (job_msgs (sample_id, [0x66], [1, 2, 3]))))
        (pl_kernel pl) (pl_writer pl) (pl_readers pl) = Some (Goes (b, k2, w2, rd))
    \<and> d = dr_id (pl_writer pl)
    \<and> (\<forall>es p'. (\<forall>s. Arrives s \<notin> set es)
        \<and> pool_run (\<lambda>_. zeros PACKAGE_SIZE) (Arrives (arrived (sent (snd (rd (pipe_name (1 - d))))))
            # Arrives (arrived (sent (snd (rd (pipe_name d))))) # es) (pl_pool pl) = Some (Inr p')
        \<longrightarrow> disk (held p') (file_name sample_id) = None)"
proof (rule fifth_client_lost [OF _ fresh_empty _ _ _ _ _ _ sample_process_fresh(1) _ sample_raws_ok _ four_visits_ok
      _ _ _ refl])
  show "big (\<lambda>_. zeros PACKAGE_SIZE)" by (simp add: big_def)
  show "distinct (map v_id four_visits)" "length four_visits = 4" by (simp_all add: four_visits_def sample_visit_def v_id_def)
  show "sample_id \<notin> v_id ` set four_visits" by (simp add: four_visits_def sample_visit_def v_id_def sample_id_def)
qed (simp_all add: tcp_ok_def tcp_allows_def empty_kernel_def int_range_def sample_process_fresh(2) small_def
    sample_id_def ok_id_def)

end
