(* ===== verification/ReadErrors.thy ===== *)
theory ReadErrors
  imports FifthClient
begin

text \<open>
  A \<^verbatim>\<open>read\<close> that fails, in the two servers of the file transfer. Both keep its result in an unsigned
  variable, so that \<^verbatim>\<open>0 > ret\<close> is never true: a failed read is taken for a message, and the turn runs
  with what the last one has left, in the receive buffer of the transfer server and in \<^verbatim>\<open>msg\<close> and on
  the stack of the storage server. The reads inside of the handlers are not looked at, so that it
  makes no difference whether they fail or find nothing.
\<close>

section \<open>The transfer server\<close>

text \<open>A turn of \<^verbatim>\<open>thread_main\<close> whose reads fail.\<close>

definition failed_turn :: "fifo_env \<Rightarrow> cbuf \<Rightarrow> kernel \<Rightarrow> data_recv \<Rightarrow> relay_turn option" where
  "failed_turn env buffer k d =
     (let len = len_field buffer in
      map_option (\<lambda>x. case x of Sleeps \<Rightarrow> WriterSleeps | Goes (ok, k', d', out) \<Rightarrow> Relayed buffer [] k' d' out)
        (WriteData env k d (handed buffer (MSG_HEADER_LEN + len))))"

text \<open>So many of them, the reading processes taking their turns in between.\<close>

fun failed_reads :: "tcp_env \<Rightarrow> nat list \<Rightarrow> cbuf \<Rightarrow> cbuf \<Rightarrow> nat \<Rightarrow> kernel \<Rightarrow> data_recv \<Rightarrow> readers \<Rightarrow>
    (kernel \<times> data_recv \<times> readers) waits option" where
  "failed_reads env ports raw buffer 0 k w rd = Some (Goes (k, w, rd))"
| "failed_reads env ports raw buffer (Suc n) k w rd =
     (case failed_turn FifoOk buffer k w of
        None \<Rightarrow> None
      | Some ClientGone \<Rightarrow> Some (Goes (k, w, rd))
      | Some WriterSleeps \<Rightarrow> Some Sleeps
      | Some (Relayed buffer' s' k' w' None) \<Rightarrow> failed_reads env ports raw buffer' n k' w' rd
      | Some (Relayed buffer' s' k' w' (Some (pipe, got))) \<Rightarrow>
          (case read_turn FifoOk env ports raw got (k', rd pipe) of
             None \<Rightarrow> None
           | Some Sleeps \<Rightarrow> Some Sleeps
           | Some (Goes (k'', x)) \<Rightarrow> failed_reads env ports raw buffer' n k'' w' (rd(pipe := x))))"

lemma failed_reads_pass:
  "holds_msg buffer m \<Longrightarrow> failed_reads env ports raw buffer n k w rd = pass_all env ports raw (replicate n m) k w rd"
  by (induction n arbitrary: k w rd)
    (auto simp: failed_turn_def holds_msg_def Let_def split: option.split waits.split)

text \<open>C19: A client whose connection breaks after some of its messages: the transfer server passes these on, and
  then, for every \<^verbatim>\<open>read\<close> that fails, a further copy of the last one. The copies take the blocks and
  the connections in turn like real messages.\<close>

theorem failed_read_repeats:
  assumes "tcp_allows e" "fresh_kernel k" "shm_keys k now1 = None" "sem_keys k now2 = None"
    and "0 < now1" "0 < now2" "int_range now1" "int_range now2"
    and "job_ok u" "ms = take i (job_msgs u)" "0 < i" "length buffer = PACKAGE_SIZE"
    and "ports = [TRANSFER_PORT, STORAGE_SERVER_PORT]"
  shows "\<exists>k1 w b k2 w2 rd. new_main k now1 now2 = (0, k1) \<and> ShmReadInit k1 W_DataRecv = (True, k1, w)
    \<and> relay_run e ports raw buffer (arrived (concat ms)) k1 w (\<lambda>q. (reader_of k1 q, new_sender)) = Some (Goes (b, k2, w2, rd))
    \<and> (\<forall>n. \<exists>k3 w3 rd3 olds. failed_reads e ports raw b n k2 w2 rd = Some (Goes (k3, w3, rd3))
        \<and> length olds = length ms + n \<and> blocks olds
        \<and> sent (snd (rd3 (pipe_name 1))) = concat (evens (map2 package olds (ms @ replicate n (last ms))))
        \<and> sent (snd (rd3 (pipe_name 0))) = concat (odds (map2 package olds (ms @ replicate n (last ms)))))"
proof -
  obtain k1 w where s: "new_main k now1 now2 = (0, k1)" "ShmReadInit k1 W_DataRecv = (True, k1, w)" "ready k1 w"
    "dr_id w = 0" "low_blocks k1 w"
    "\<forall>p. w_shmctl (reader_of k1 p) = w_shmctl w \<and> w_semtable (reader_of k1 p) = w_semtable w"
    using attached_low [OF assms(2-8)] by blast
  let ?rd = "\<lambda>q. (reader_of k1 q, new_sender)"
  have pa: "passing e ports k1 w ?rd"
    using plant_rests [OF assms(1,13,12) s(3-6)] by (auto simp: rests_def)
  obtain fid path c where u: "u = (fid, path, c)" by (cases u) auto
  have "\<forall>m \<in> set (job_msgs u). framed m" using framed_upload [of fid path c] assms(9) u by simp
  then have fr: "\<forall>m \<in> set ms. framed m" using assms(10) by (auto dest: in_set_takeD)
  then have le: "\<forall>m \<in> set ms. length m \<le> PACKAGE_SIZE" using framed_le by blast
  have "job_msgs u \<noteq> []" using u by (simp add: upload_msgs_def)
  then have ne: "ms \<noteq> []" using assms(10,11) by simp
  obtain k2 w2 rd where p: "pass_all e ports raw ms k1 w ?rd = Some (Goes (k2, w2, rd))"
    using pass_streams [OF le pa, of raw] by blast
  obtain b where b: "relay_run e ports raw buffer (arrived (concat ms)) k1 w ?rd = Some (Goes (b, k2, w2, rd))"
      "holds_msg b (last ms)"
    using relay_passes [OF fr assms(12) pa p] ne by blast
  have "\<exists>k3 w3 rd3 olds. failed_reads e ports raw b n k2 w2 rd = Some (Goes (k3, w3, rd3))
      \<and> length olds = length ms + n \<and> blocks olds
      \<and> sent (snd (rd3 (pipe_name 1))) = concat (evens (map2 package olds (ms @ replicate n (last ms))))
      \<and> sent (snd (rd3 (pipe_name 0))) = concat (odds (map2 package olds (ms @ replicate n (last ms))))" for n
  proof -
    have "\<forall>m \<in> set (ms @ replicate n (last ms)). length m \<le> PACKAGE_SIZE" using le ne by auto
    from pass_streams [OF this pa, of raw] show ?thesis
      unfolding failed_reads_pass [OF b(2)] pass_all_append p s(4) by (auto simp: new_sender_def)
  qed
  then show ?thesis using s(1,2) b(1) by blast
qed

theorem failed_read_repeats_witness:
  "\<exists>k1 w b k2 w2 rd. new_main empty_kernel 1000 1001 = (0, k1) \<and> ShmReadInit k1 W_DataRecv = (True, k1, w)
    \<and> relay_run (tcp_ok 3) [TRANSFER_PORT, STORAGE_SERVER_PORT] (zeros 32) (zeros PACKAGE_SIZE)
        (arrived (concat (take 2 (job_msgs (sample_id, [0x66], [1, 2, 3]))))) k1 w (\<lambda>q. (reader_of k1 q, new_sender))
        = Some (Goes (b, k2, w2, rd))
    \<and> (\<forall>n. \<exists>k3 w3 rd3 olds. failed_reads (tcp_ok 3) [TRANSFER_PORT, STORAGE_SERVER_PORT] (zeros 32) b n k2 w2 rd
          = Some (Goes (k3, w3, rd3))
        \<and> length olds = length (take 2 (job_msgs (sample_id, [0x66], [1, 2, 3]))) + n \<and> blocks olds
        \<and> sent (snd (rd3 (pipe_name 1))) = concat (evens (map2 package olds
            (take 2 (job_msgs (sample_id, [0x66], [1, 2, 3])) @ replicate n (last (take 2 (job_msgs (sample_id, [0x66], [1, 2, 3])))))))
        \<and> sent (snd (rd3 (pipe_name 0))) = concat (odds (map2 package olds
            (take 2 (job_msgs (sample_id, [0x66], [1, 2, 3])) @ replicate n (last (take 2 (job_msgs (sample_id, [0x66], [1, 2, 3]))))))))"
  by (rule failed_read_repeats [OF _ fresh_empty _ _ _ _ _ _ _ refl])
    (simp_all add: tcp_ok_def tcp_allows_def empty_kernel_def int_range_def sample_id_def ok_id_def del: job_msgs.simps)

section \<open>The storage server\<close>

text \<open>A turn of the inner loop whose reads fail: \<open>msg\<close> is the type of the last message, \<open>junk\<close> what the handler
  finds on its stack.\<close>

definition stale_turn :: "cbuf \<Rightarrow> byte \<Rightarrow> store \<Rightarrow> turn option" where
  "stale_turn junk msg st =
     (if msg = MSG_NEW_FILE then
        map_option (\<lambda>(s, st'). TurnGoes s st') (SS_GetFileHeader junk [] st)
      else if msg = MSG_FILE_END then
        map_option (\<lambda>(s, c). case c of Waiting fp st' \<Rightarrow> TurnWaits fp s st' | Closed st' \<Rightarrow> TurnGoes s st')
          (SS_CloseFile junk [] st)
      else if msg = MSG_FILE_DATA then
        map_option (\<lambda>x. case x of Aborts \<Rightarrow> TurnAborts | Runs (s, st') \<Rightarrow> TurnGoes s st')
          (SS_GetFileData junk [] st)
      else Some TurnSpins)"

lemma FileID_of_stack: "20 \<le> length junk \<Longrightarrow> FileID_of (fill (take 20 junk) []) = Some \<lparr>sha1sum = take 20 junk\<rparr>"
  by (simp add: FileID_of_def rd_bytes_def fill_def)

lemma unread_fields: "be64toh (of_le (fill (le64 (-1)) [])) = -1" "be64toh (of_le (fill (zeros 8) [])) = 0"
  "unat (ntohs (of_le (fill (zeros 2) []))) = 0"
  by code_simp+

lemma splice_nothing: "splice b 0 [] = b"
  by (simp add: splice_def)

text \<open>C20: After a failed read the storage server handles the last message once more, for the identity that it
  finds on its stack. If that is the one of the message before, as it is when the handlers use the
  same place, then a header sets the size of the file to the largest number, so that its close
  waits for ever; data without bytes creates the file, if there is none; and an end message closes
  the file or waits, with a new entry when the file is already complete and gone.\<close>

theorem stale_message_handled:
  assumes "store_inv st" "20 \<le> length junk" "fid = \<lparr>sha1sum = take 20 junk\<rparr>"
  shows "(\<exists>st'. stale_turn junk MSG_NEW_FILE st = Some (TurnGoes [] st') \<and> store_inv st'
      \<and> pending st' = (pending st)(fid \<mapsto> (entry_of st fid)\<lparr>file_size := -1\<rparr>) \<and> disk st' = disk st)
    \<and> (\<exists>st' fd. stale_turn junk MSG_FILE_DATA st = Some (TurnGoes [] st') \<and> store_inv st'
      \<and> pending st' = (pending st)(fid \<mapsto> (entry_of st fid)\<lparr>opened_fd := fd\<rparr>)
      \<and> disk st' = (disk st)(file_name fid \<mapsto> contents st fid))
    \<and> (if file_size (entry_of st fid) = dl_size (entry_of st fid)
       then \<exists>st'. stale_turn junk MSG_FILE_END st = Some (TurnGoes [] st') \<and> store_inv st'
         \<and> pending st' = (pending st)(fid := None) \<and> disk st' = disk st
       else \<exists>p st'. stale_turn junk MSG_FILE_END st = Some (TurnWaits p [] st') \<and> store_inv st'
         \<and> pending st' = (pending st)(fid \<mapsto> entry_of st fid) \<and> disk st' = disk st)
    \<and> (\<forall>msg. msg \<notin> msg_types \<longrightarrow> stale_turn junk msg st = Some TurnSpins)"
proof -
  have ok: "ok_id fid" using assms(2,3) by (simp add: ok_id_def)
  note id = FileID_of_stack [OF assms(2), folded assms(3)]
  have ne: "MSG_FILE_DATA \<noteq> MSG_NEW_FILE" "MSG_FILE_DATA \<noteq> MSG_FILE_END" "MSG_FILE_END \<noteq> MSG_NEW_FILE"
    by (simp_all add: MSG_NEW_FILE_def MSG_FILE_DATA_def MSG_FILE_END_def)
  have "SS_GetFileHeader junk [] st = map_option (Pair []) (SS_SetPendingFileSize st fid (-1))"
    by (simp add: SS_GetFileHeader_def id unread_fields Let_def split: Option.bind_split)
  then have h: "stale_turn junk MSG_NEW_FILE st = map_option (TurnGoes []) (SS_SetPendingFileSize st fid (-1))"
    by (simp add: stale_turn_def option.map_comp comp_def)
  have "SS_GetFileData junk [] st = map_option (\<lambda>st'. Runs ([], st')) (SS_WriteData2PendingFile st fid [] 0)"
    by (simp add: SS_GetFileData_def id unread_fields Let_def PACKAGE_SIZE_def split: Option.bind_split)
  then have d: "stale_turn junk MSG_FILE_DATA st = map_option (TurnGoes []) (SS_WriteData2PendingFile st fid [] 0)"
    using ne by (simp add: stale_turn_def option.map_comp comp_def)
  have "SS_CloseFile junk [] st = map_option (Pair []) (SS_ClosePendingFile st fid)"
    by (simp add: SS_CloseFile_def id Let_def split: Option.bind_split)
  then have e: "stale_turn junk MSG_FILE_END st =
      map_option (\<lambda>c. case c of Waiting fp st' \<Rightarrow> TurnWaits fp [] st' | Closed st' \<Rightarrow> TurnGoes [] st') (SS_ClosePendingFile st fid)"
    using ne by (simp add: stale_turn_def option.map_comp comp_def)
  show ?thesis
  proof (intro conjI)
    show "\<exists>st'. stale_turn junk MSG_NEW_FILE st = Some (TurnGoes [] st') \<and> store_inv st'
        \<and> pending st' = (pending st)(fid \<mapsto> (entry_of st fid)\<lparr>file_size := -1\<rparr>) \<and> disk st' = disk st"
      using SetPendingFileSize_map [OF assms(1) ok, of "-1"] h by (auto simp: same_files_def)
    show "\<exists>st' fd. stale_turn junk MSG_FILE_DATA st = Some (TurnGoes [] st') \<and> store_inv st'
        \<and> pending st' = (pending st)(fid \<mapsto> (entry_of st fid)\<lparr>opened_fd := fd\<rparr>)
        \<and> disk st' = (disk st)(file_name fid \<mapsto> contents st fid)"
      using WriteData_map [OF assms(1) ok, of "[]" 0] d by (auto simp: splice_nothing)
    show "if file_size (entry_of st fid) = dl_size (entry_of st fid)
       then \<exists>st'. stale_turn junk MSG_FILE_END st = Some (TurnGoes [] st') \<and> store_inv st'
         \<and> pending st' = (pending st)(fid := None) \<and> disk st' = disk st
       else \<exists>p st'. stale_turn junk MSG_FILE_END st = Some (TurnWaits p [] st') \<and> store_inv st'
         \<and> pending st' = (pending st)(fid \<mapsto> entry_of st fid) \<and> disk st' = disk st"
      using ClosePendingFile_map [OF assms(1) ok] e by auto
    show "\<forall>msg. msg \<notin> msg_types \<longrightarrow> stale_turn junk msg st = Some TurnSpins"
      by (simp add: stale_turn_def msg_types_def)
  qed
qed

theorem stale_message_handled_witness:
  "(\<exists>st'. stale_turn (zeros 20) MSG_NEW_FILE sample_store = Some (TurnGoes [] st') \<and> store_inv st'
      \<and> pending st' = (pending sample_store)(\<lparr>sha1sum = zeros 20\<rparr>
          \<mapsto> (entry_of sample_store \<lparr>sha1sum = zeros 20\<rparr>)\<lparr>file_size := -1\<rparr>) \<and> disk st' = disk sample_store)
    \<and> (\<exists>st' fd. stale_turn (zeros 20) MSG_FILE_DATA sample_store = Some (TurnGoes [] st') \<and> store_inv st'
      \<and> pending st' = (pending sample_store)(\<lparr>sha1sum = zeros 20\<rparr>
          \<mapsto> (entry_of sample_store \<lparr>sha1sum = zeros 20\<rparr>)\<lparr>opened_fd := fd\<rparr>)
      \<and> disk st' = (disk sample_store)(file_name \<lparr>sha1sum = zeros 20\<rparr>
          \<mapsto> contents sample_store \<lparr>sha1sum = zeros 20\<rparr>))
    \<and> (if file_size (entry_of sample_store \<lparr>sha1sum = zeros 20\<rparr>) = dl_size (entry_of sample_store \<lparr>sha1sum = zeros 20\<rparr>)
       then \<exists>st'. stale_turn (zeros 20) MSG_FILE_END sample_store = Some (TurnGoes [] st') \<and> store_inv st'
         \<and> pending st' = (pending sample_store)(\<lparr>sha1sum = zeros 20\<rparr> := None) \<and> disk st' = disk sample_store
       else \<exists>p st'. stale_turn (zeros 20) MSG_FILE_END sample_store = Some (TurnWaits p [] st') \<and> store_inv st'
         \<and> pending st' = (pending sample_store)(\<lparr>sha1sum = zeros 20\<rparr> \<mapsto> entry_of sample_store \<lparr>sha1sum = zeros 20\<rparr>)
         \<and> disk st' = disk sample_store)
    \<and> stale_turn (zeros 20) 0x58 sample_store = Some TurnSpins"
proof -
  have "20 \<le> length (zeros 20)" "\<lparr>sha1sum = zeros 20\<rparr> = \<lparr>sha1sum = take 20 (zeros 20)\<rparr>" "(0x58 :: byte) \<notin> msg_types"
    by (simp_all add: zeros_def msg_types_def MSG_NEW_FILE_def MSG_FILE_DATA_def MSG_FILE_END_def)
  then show ?thesis using stale_message_handled [OF sample_store(1), of "zeros 20"] by blast
qed

end
