(* ===== verification/CircList.thy ===== *)
theory CircList
  imports HList "HOL-Library.Multiset"
begin

text \<open>
  The circular lists of \<^verbatim>\<open>transfer_export/include/list.h\<close> (\<^verbatim>\<open>struct list_head\<close>) at pointer
  level. \<open>ring m h xs\<close> says that the nodes \<open>xs\<close> hang on the head \<open>h\<close>, linked in both directions;
  the operations are shown to be Cons, snoc and removal on \<open>xs\<close>. A node that is not allocated
  makes an access undefined.
\<close>

section \<open>Operations\<close>

record list_head =
  lprev :: ptr
  lnext :: ptr

type_synonym lmem = "ptr \<rightharpoonup> list_head"

definition set_lnext :: "lmem \<Rightarrow> ptr \<Rightarrow> ptr \<Rightarrow> lmem option" where
  "set_lnext m p x = map_option (\<lambda>d. m(p \<mapsto> d\<lparr>lnext := x\<rparr>)) (m p)"

definition set_lprev :: "lmem \<Rightarrow> ptr \<Rightarrow> ptr \<Rightarrow> lmem option" where
  "set_lprev m p x = map_option (\<lambda>d. m(p \<mapsto> d\<lparr>lprev := x\<rparr>)) (m p)"

definition INIT_LIST_HEAD :: "lmem \<Rightarrow> ptr \<Rightarrow> lmem option" where
  "INIT_LIST_HEAD m p = do { m1 \<leftarrow> set_lnext m p p; set_lprev m1 p p }"

text \<open>\<^verbatim>\<open>__list_add\<close> and \<^verbatim>\<open>__list_del\<close>\<close>

definition list_link :: "lmem \<Rightarrow> ptr \<Rightarrow> ptr \<Rightarrow> ptr \<Rightarrow> lmem option" where
  "list_link m new prev nxt =
     do {
       m1 \<leftarrow> set_lprev m nxt new;
       m2 \<leftarrow> set_lnext m1 new nxt;
       m3 \<leftarrow> set_lprev m2 new prev;
       set_lnext m3 prev new
     }"

definition list_unlink :: "lmem \<Rightarrow> ptr \<Rightarrow> ptr \<Rightarrow> lmem option" where
  "list_unlink m prev nxt = do { m1 \<leftarrow> set_lprev m nxt prev; set_lnext m1 prev nxt }"

definition list_add :: "lmem \<Rightarrow> ptr \<Rightarrow> ptr \<Rightarrow> lmem option" where
  "list_add m new head = do { d \<leftarrow> m head; list_link m new head (lnext d) }"

definition list_add_tail :: "lmem \<Rightarrow> ptr \<Rightarrow> ptr \<Rightarrow> lmem option" where
  "list_add_tail m new head = do { d \<leftarrow> m head; list_link m new (lprev d) head }"

definition list_del :: "lmem \<Rightarrow> ptr \<Rightarrow> lmem option" where
  "list_del m entry = do { d \<leftarrow> m entry; list_unlink m (lprev d) (lnext d) }"

definition list_empty :: "lmem \<Rightarrow> ptr \<Rightarrow> bool option" where
  "list_empty m head = map_option (\<lambda>d. lnext d = head) (m head)"

definition list_empty_careful :: "lmem \<Rightarrow> ptr \<Rightarrow> bool option" where
  "list_empty_careful m head = map_option (\<lambda>d. lnext d = head \<and> lnext d = lprev d) (m head)"

section \<open>Links\<close>

definition nx :: "lmem \<Rightarrow> ptr \<rightharpoonup> ptr" where
  "nx m p = map_option lnext (m p)"

definition pv :: "lmem \<Rightarrow> ptr \<rightharpoonup> ptr" where
  "pv m p = map_option lprev (m p)"

fun links :: "lmem \<Rightarrow> ptr list \<Rightarrow> bool" where
  "links m (a # b # ys) \<longleftrightarrow> nx m a = Some b \<and> pv m b = Some a \<and> links m (b # ys)"
| "links m ys \<longleftrightarrow> True"

definition ring :: "lmem \<Rightarrow> ptr \<Rightarrow> ptr list \<Rightarrow> bool" where
  "ring m h xs \<longleftrightarrow> distinct (h # xs) \<and> links m (h # xs @ [h])"

lemma links_append: "links m (xs @ b # ys) \<longleftrightarrow> links m (xs @ [b]) \<and> links m (b # ys)"
proof (induction xs)
  case (Cons a xs)
  then show ?case by (cases xs) auto
qed simp

lemma links_cong:
  "links m zs \<Longrightarrow> \<forall>p \<in> set (butlast zs). nx m' p = nx m p \<Longrightarrow> \<forall>p \<in> set (tl zs). pv m' p = pv m p \<Longrightarrow>
    links m' zs"
  by (induction m zs rule: links.induct) auto

lemma set_l_effect:
  "m p \<noteq> None \<Longrightarrow> \<exists>m'. set_lnext m p x = Some m' \<and> nx m' = (nx m)(p \<mapsto> x) \<and> pv m' = pv m \<and> dom m' = dom m"
  "m p \<noteq> None \<Longrightarrow> \<exists>m'. set_lprev m p x = Some m' \<and> pv m' = (pv m)(p \<mapsto> x) \<and> nx m' = nx m \<and> dom m' = dom m"
proof -
  assume "m p \<noteq> None"
  then obtain d where d: "m p = Some d" by blast
  then have "nx (m(p \<mapsto> d\<lparr>lnext := x\<rparr>)) = (nx m)(p \<mapsto> x)" "pv (m(p \<mapsto> d\<lparr>lnext := x\<rparr>)) = pv m"
    "dom (m(p \<mapsto> d\<lparr>lnext := x\<rparr>)) = dom m"
    by (auto simp: nx_def pv_def fun_eq_iff)
  then show "\<exists>m'. set_lnext m p x = Some m' \<and> nx m' = (nx m)(p \<mapsto> x) \<and> pv m' = pv m \<and> dom m' = dom m"
    using d by (simp add: set_lnext_def)
next
  assume "m p \<noteq> None"
  then obtain d where d: "m p = Some d" by blast
  then have "pv (m(p \<mapsto> d\<lparr>lprev := x\<rparr>)) = (pv m)(p \<mapsto> x)" "nx (m(p \<mapsto> d\<lparr>lprev := x\<rparr>)) = nx m"
    "dom (m(p \<mapsto> d\<lparr>lprev := x\<rparr>)) = dom m"
    by (auto simp: nx_def pv_def fun_eq_iff)
  then show "\<exists>m'. set_lprev m p x = Some m' \<and> pv m' = (pv m)(p \<mapsto> x) \<and> nx m' = nx m \<and> dom m' = dom m"
    using d by (simp add: set_lprev_def)
qed

lemma list_link_effect:
  assumes "e \<in> dom m" "p \<in> dom m" "n \<in> dom m"
  shows "\<exists>m'. list_link m e p n = Some m' \<and> nx m' = (nx m)(e \<mapsto> n, p \<mapsto> e)
    \<and> pv m' = (pv m)(n \<mapsto> e, e \<mapsto> p) \<and> dom m' = dom m"
proof -
  obtain m1 where 1: "set_lprev m n e = Some m1" "pv m1 = (pv m)(n \<mapsto> e)" "nx m1 = nx m" "dom m1 = dom m"
    using set_l_effect(2) [of m n e] assms(3) by auto
  then obtain m2 where 2: "set_lnext m1 e n = Some m2" "nx m2 = (nx m)(e \<mapsto> n)" "pv m2 = pv m1" "dom m2 = dom m"
    using set_l_effect(1) [of m1 e n] assms(1) by auto
  then obtain m3 where 3: "set_lprev m2 e p = Some m3" "pv m3 = (pv m1)(e \<mapsto> p)" "nx m3 = nx m2" "dom m3 = dom m"
    using set_l_effect(2) [of m2 e p] assms(1) by auto
  then obtain m4 where "set_lnext m3 p e = Some m4" "nx m4 = (nx m2)(p \<mapsto> e)" "pv m4 = pv m3" "dom m4 = dom m"
    using set_l_effect(1) [of m3 p e] assms(2) by auto
  then show ?thesis using 1 2 3 by (simp add: list_link_def)
qed

lemma list_unlink_effect:
  assumes "p \<in> dom m" "n \<in> dom m"
  shows "\<exists>m'. list_unlink m p n = Some m' \<and> nx m' = (nx m)(p \<mapsto> n) \<and> pv m' = (pv m)(n \<mapsto> p) \<and> dom m' = dom m"
proof -
  obtain m1 where 1: "set_lprev m n p = Some m1" "pv m1 = (pv m)(n \<mapsto> p)" "nx m1 = nx m" "dom m1 = dom m"
    using set_l_effect(2) [of m n p] assms(2) by auto
  then obtain m2 where "set_lnext m1 p n = Some m2" "nx m2 = (nx m1)(p \<mapsto> n)" "pv m2 = pv m1" "dom m2 = dom m"
    using set_l_effect(1) [of m1 p n] assms(1) by auto
  then show ?thesis using 1 by (simp add: list_unlink_def)
qed

text \<open>A new pair of links between two pieces of a cycle.\<close>

lemma links_piece:
  assumes "links m (A @ [p])" "links m (n # B)" "p \<notin> set A" "p \<notin> set (butlast (n # B))"
    "n \<notin> set (tl (A @ [p]))" "n \<notin> set B" "e \<notin> set (A @ p # n # B)"
    and m': "nx m' = (nx m)(e \<mapsto> x, p \<mapsto> y)" "pv m' = (pv m)(n \<mapsto> z, e \<mapsto> w)"
  shows "links m' (A @ [p]) \<and> links m' (n # B)"
proof
  have "e \<noteq> p" "e \<notin> set A" "e \<notin> set (n # B)" using assms(7) by auto
  have eb: "e \<notin> set (butlast (n # B))" using \<open>e \<notin> set (n # B)\<close> in_set_butlastD by fastforce
  have et: "e \<notin> set (tl (A @ [p]))" using \<open>e \<noteq> p\<close> \<open>e \<notin> set A\<close> by (cases A) auto
  show "links m' (A @ [p])"
    by (rule links_cong [OF assms(1)]) (use assms(3,5) et \<open>e \<notin> set A\<close> in \<open>auto simp: m'\<close>)
  show "links m' (n # B)"
    by (rule links_cong [OF assms(2)]) (use assms(4,6) eb \<open>e \<notin> set (n # B)\<close> in \<open>auto simp: m'\<close>)
qed

lemma cycle_distinct:
  assumes "distinct (butlast (A @ p # n # B))" "distinct (tl (A @ p # n # B))"
  shows "p \<notin> set A" "p \<notin> set (butlast (n # B))" "n \<notin> set (tl (A @ [p]))" "n \<notin> set B"
  using assms by (cases A; auto simp: butlast_append)+

lemma links_dom: "links m zs \<Longrightarrow> 2 \<le> length zs \<Longrightarrow> set zs \<subseteq> dom m"
proof (induction m zs rule: links.induct)
  case (1 m a b ys)
  then show ?case by (cases ys) (auto simp: nx_def pv_def)
qed auto

lemma link_insert:
  assumes c: "links m (A @ p # n # B)" "distinct (butlast (A @ p # n # B))" "distinct (tl (A @ p # n # B))"
    and e: "e \<notin> set (A @ p # n # B)" "e \<in> dom m"
  shows "\<exists>m'. list_link m e p n = Some m' \<and> links m' (A @ p # e # n # B) \<and> dom m' = dom m"
proof -
  have d: "p \<in> dom m" "n \<in> dom m" using links_dom [OF c(1)] by auto
  obtain m' where m': "list_link m e p n = Some m'" "nx m' = (nx m)(e \<mapsto> n, p \<mapsto> e)"
    "pv m' = (pv m)(n \<mapsto> e, e \<mapsto> p)" "dom m' = dom m"
    using list_link_effect [OF e(2) d] by blast
  have l: "links m (A @ [p])" "links m (n # B)" using c(1) links_append [of m A p "n # B"] by auto
  note k = links_piece [OF l cycle_distinct [OF c(2,3)] e(1) m'(2,3)]
  have "e \<noteq> p" "e \<noteq> n" using e(1) by auto
  then have "links m' (p # e # n # B)" using k m'(2,3) by simp
  then have "links m' (A @ p # e # n # B)" using k links_append [of m' A p "e # n # B"] by simp
  then show ?thesis using m' by blast
qed

lemma link_remove:
  assumes c: "links m (A @ p # e # n # B)" "distinct (butlast (A @ p # n # B))" "distinct (tl (A @ p # n # B))"
    and e: "e \<notin> set (A @ p # n # B)"
  shows "\<exists>m'. list_unlink m p n = Some m' \<and> links m' (A @ p # n # B) \<and> dom m' = dom m"
proof -
  have d: "p \<in> dom m" "n \<in> dom m" using links_dom [OF c(1)] by auto
  obtain m' where m': "list_unlink m p n = Some m'" "nx m' = (nx m)(p \<mapsto> n)" "pv m' = (pv m)(n \<mapsto> p)"
    "dom m' = dom m"
    using list_unlink_effect [OF d] by blast
  have l: "links m (A @ [p])" "links m (n # B)" "nx m e = Some n" "pv m e = Some p"
    using c(1) links_append [of m A p "e # n # B"] by auto
  have q: "nx m' = (nx m)(e \<mapsto> n, p \<mapsto> n)" "pv m' = (pv m)(n \<mapsto> p, e \<mapsto> p)"
    using l(3,4) e by (auto simp: m'(2,3) fun_eq_iff)
  note k = links_piece [OF l(1,2) cycle_distinct [OF c(2,3)] e q]
  have "links m' (p # n # B)" using k m'(2,3) by simp
  then have "links m' (A @ p # n # B)" using k links_append [of m' A p "n # B"] by simp
  then show ?thesis using m' by blast
qed

section \<open>The operations are list operations\<close>

lemma ring_cycle:
  assumes "ring m h xs"
  shows "links m (h # xs @ [h])" "distinct (butlast (h # xs @ [h]))" "distinct (tl (h # xs @ [h]))"
  using assms by (auto simp: ring_def butlast_append)

lemma ring_ends:
  assumes "ring m h xs"
  shows "\<exists>d. m h = Some d \<and> lnext d = hd (xs @ [h]) \<and> lprev d = last (h # xs)"
proof -
  have l: "links m (h # xs @ [h])" using assms by (simp add: ring_def)
  have "nx m h = Some (hd (xs @ [h]))" using l by (cases xs) auto
  moreover have "pv m h = Some (last (h # xs))"
  proof (cases xs rule: rev_cases)
    case Nil
    then show ?thesis using l by simp
  next
    case (snoc ys y)
    then show ?thesis using l links_append [of m "h # ys" y "[h]"] by simp
  qed
  ultimately show ?thesis by (auto simp: nx_def pv_def)
qed

lemma INIT_LIST_HEAD_ring: "m h \<noteq> None \<Longrightarrow> \<exists>m'. INIT_LIST_HEAD m h = Some m' \<and> ring m' h []"
  by (auto simp: INIT_LIST_HEAD_def set_lnext_def set_lprev_def ring_def nx_def pv_def)

lemma list_add_ring:
  assumes "ring m h xs" "e \<notin> set (h # xs)" "e \<in> dom m"
  shows "\<exists>m'. list_add m e h = Some m' \<and> ring m' h (e # xs) \<and> dom m' = dom m"
proof -
  obtain n B where nB: "xs @ [h] = n # B" by (cases "xs @ [h]") auto
  have e: "e \<notin> set ([] @ h # n # B)" using assms(2) arg_cong [OF nB, of set] by auto
  note c = ring_cycle [OF assms(1), unfolded nB]
  obtain m' where m': "list_link m e h n = Some m'" "links m' (h # e # n # B)" "dom m' = dom m"
    using link_insert [of m "[]" h n B e] c e assms(3) by auto
  have "list_add m e h = Some m'"
    using ring_ends [OF assms(1)] m'(1) nB by (auto simp: list_add_def)
  moreover have "ring m' h (e # xs)"
    using assms(1,2) m'(2) nB by (auto simp: ring_def)
  ultimately show ?thesis using m'(3) by blast
qed

lemma list_add_tail_ring:
  assumes "ring m h xs" "e \<notin> set (h # xs)" "e \<in> dom m"
  shows "\<exists>m'. list_add_tail m e h = Some m' \<and> ring m' h (xs @ [e]) \<and> dom m' = dom m"
proof -
  obtain A p where Ap: "h # xs = A @ [p]" by (cases "h # xs" rule: rev_cases) auto
  then have cyc: "h # xs @ [h] = A @ p # h # []" by (metis append.assoc append_Cons append_Nil)
  have e: "e \<notin> set (A @ p # h # [])" using assms(2) arg_cong [OF Ap, of set] by auto
  note c = ring_cycle [OF assms(1), unfolded cyc]
  obtain m' where m': "list_link m e p h = Some m'" "links m' (A @ p # e # h # [])" "dom m' = dom m"
    using link_insert [OF c e assms(3)] by auto
  have "last (h # xs) = p" using Ap by simp
  then have "list_add_tail m e h = Some m'"
    using ring_ends [OF assms(1)] m'(1) by (auto simp: list_add_tail_def)
  moreover have "A @ p # e # h # [] = (A @ [p]) @ [e, h]" by simp
  then have "A @ p # e # h # [] = h # (xs @ [e]) @ [h]" unfolding Ap [symmetric] by simp
  then have "links m' (h # (xs @ [e]) @ [h])" using m'(2) by metis
  then have "ring m' h (xs @ [e])" using assms(1,2) by (auto simp: ring_def)
  ultimately show ?thesis using m'(3) by blast
qed

lemma list_del_ring:
  assumes "ring m h (xs @ e # ys)"
  shows "\<exists>m'. list_del m e = Some m' \<and> ring m' h (xs @ ys) \<and> dom m' = dom m"
proof -
  obtain A p where Ap: "h # xs = A @ [p]" by (cases "h # xs" rule: rev_cases) auto
  obtain n B where nB: "ys @ [h] = n # B" by (cases "ys @ [h]") auto
  have cyc: "h # (xs @ e # ys) @ [h] = A @ p # e # n # B"
    using Ap nB by (metis append.assoc append_Cons append_Nil)
  have cyc2: "h # (xs @ ys) @ [h] = A @ p # n # B"
    using Ap nB by (metis append.assoc append_Cons append_Nil)
  have l: "links m (A @ p # e # n # B)" using assms by (simp add: ring_def flip: cyc)
  have dist: "distinct (h # xs @ ys)" using assms by (auto simp: ring_def)
  then have d: "distinct (butlast (A @ p # n # B))" "distinct (tl (A @ p # n # B))"
    unfolding cyc2 [symmetric] by (auto simp: butlast_append)
  have e: "e \<notin> set (A @ p # n # B)" using assms unfolding cyc2 [symmetric] by (auto simp: ring_def)
  obtain m' where m': "list_unlink m p n = Some m'" "links m' (A @ p # n # B)" "dom m' = dom m"
    using link_remove [OF l d e] by blast
  have "nx m e = Some n" "pv m e = Some p"
    using l links_append [of m A p "e # n # B"] by auto
  then have "list_del m e = Some m'" using m'(1) by (auto simp: list_del_def nx_def pv_def)
  moreover have "ring m' h (xs @ ys)" using dist m'(2) by (simp add: ring_def cyc2 [simplified])
  ultimately show ?thesis using m'(3) by blast
qed

lemma list_empty_ring:
  assumes "ring m h xs"
  shows "list_empty m h = Some (xs = [])" "list_empty_careful m h = Some (xs = [])"
proof -
  obtain d where d: "m h = Some d" "lnext d = hd (xs @ [h])" "lprev d = last (h # xs)"
    using ring_ends [OF assms] by blast
  have "(hd (xs @ [h]) = h) = (xs = [])" using assms by (cases xs) (auto simp: ring_def)
  moreover have "xs = [] \<Longrightarrow> last (h # xs) = h" by simp
  ultimately show "list_empty m h = Some (xs = [])" "list_empty_careful m h = Some (xs = [])"
    using d by (auto simp: list_empty_def list_empty_careful_def)
qed

section \<open>Lists with a head\<close>

text \<open>
  What both kinds of list of the header promise: adding at the head is Cons, deleting takes out
  the node. \<open>usable\<close> are the nodes that may be added: allocated, and not the head itself.
\<close>

fun all_steps :: "('m \<Rightarrow> ptr \<Rightarrow> 'm option) \<Rightarrow> ptr list \<Rightarrow> 'm \<Rightarrow> 'm option" where
  "all_steps f [] m = Some m"
| "all_steps f (x # xs) m = Option.bind (f m x) (all_steps f xs)"

locale front_list =
  fixes rep :: "'m \<Rightarrow> 'h \<Rightarrow> ptr list \<Rightarrow> bool" and usable :: "'m \<Rightarrow> 'h \<Rightarrow> ptr \<Rightarrow> bool"
    and add :: "'m \<Rightarrow> ptr \<Rightarrow> 'h \<Rightarrow> 'm option" and del :: "'m \<Rightarrow> ptr \<Rightarrow> 'm option"
  assumes add_cons: "rep m h xs \<Longrightarrow> usable m h e \<Longrightarrow> e \<notin> set xs \<Longrightarrow>
      \<exists>m'. add m e h = Some m' \<and> rep m' h (e # xs) \<and> usable m' = usable m"
    and del_node: "rep m h (xs @ e # ys) \<Longrightarrow>
      \<exists>m'. del m e = Some m' \<and> rep m' h (xs @ ys) \<and> usable m' = usable m"
begin

lemma add_del:
  assumes "rep m h xs" "usable m h e" "e \<notin> set xs"
  shows "\<exists>m1 m2. add m e h = Some m1 \<and> rep m1 h (e # xs) \<and> del m1 e = Some m2 \<and> rep m2 h xs"
proof -
  obtain m1 where "add m e h = Some m1" "rep m1 h (e # xs)" using add_cons [OF assms] by blast
  then show ?thesis using del_node [of m1 h "[]" e xs] by auto
qed

lemma fill:
  assumes "rep m h xs" "\<forall>e \<in> set es. usable m h e" "distinct es" "set es \<inter> set xs = {}"
  shows "\<exists>m'. all_steps (\<lambda>m e. add m e h) es m = Some m' \<and> rep m' h (rev es @ xs) \<and> usable m' = usable m"
  using assms
proof (induction es arbitrary: m xs)
  case (Cons e es)
  then obtain m1 where m1: "add m e h = Some m1" "rep m1 h (e # xs)" "usable m1 = usable m"
    using add_cons [of m h xs e] by auto
  then show ?case using Cons.IH [of m1 "e # xs"] Cons.prems by auto
qed simp

lemma drain:
  assumes "rep m h xs" "mset ds = mset xs"
  shows "\<exists>m'. all_steps del ds m = Some m' \<and> rep m' h [] \<and> usable m' = usable m"
  using assms
proof (induction ds arbitrary: m xs)
  case (Cons e ds)
  then have "e \<in> set xs" by (metis list.set_intros(1) mset_eq_setD)
  then obtain ys zs where xs: "xs = ys @ e # zs" by (meson split_list)
  obtain m1 where m1: "del m e = Some m1" "rep m1 h (ys @ zs)" "usable m1 = usable m"
    using del_node [of m h ys e zs] Cons.prems(1) xs by blast
  moreover have "mset ds = mset (ys @ zs)" using Cons.prems(2) xs by simp
  ultimately show ?case using Cons.IH [of m1 "ys @ zs"] by auto
qed simp

lemma fill_drain:
  assumes "rep m h []" "\<forall>e \<in> set es. usable m h e" "distinct es" "mset ds = mset es"
  shows "\<exists>m1 m2. all_steps (\<lambda>m e. add m e h) es m = Some m1 \<and> rep m1 h (rev es)
    \<and> all_steps del ds m1 = Some m2 \<and> rep m2 h []"
proof -
  obtain m1 where m1: "all_steps (\<lambda>m e. add m e h) es m = Some m1" "rep m1 h (rev es)"
    using fill [OF assms(1-3)] by auto
  then show ?thesis using drain [OF m1(2), of ds] assms(4) by auto
qed

end

definition circ_usable :: "lmem \<Rightarrow> ptr \<Rightarrow> ptr \<Rightarrow> bool" where
  "circ_usable m h e \<longleftrightarrow> e \<in> dom m \<and> e \<noteq> h"

definition hash_usable :: "hmem \<Rightarrow> nat \<Rightarrow> ptr \<Rightarrow> bool" where
  "hash_usable m h e \<longleftrightarrow> e \<in> dom (nodes m) \<and> e \<noteq> 0"

lemma circ_usable_dom: "dom m' = dom m \<Longrightarrow> circ_usable m' = circ_usable m"
  by (simp add: circ_usable_def fun_eq_iff)

lemma hash_usable_keeps: "keeps m m' H A \<Longrightarrow> hash_usable m' = hash_usable m"
  by (simp add: hash_usable_def keeps_def fun_eq_iff)

interpretation circ: front_list ring circ_usable list_add list_del
proof
  fix m h xs e
  assume a: "ring m h xs" "circ_usable m h e" "e \<notin> set xs"
  then obtain m' where "list_add m e h = Some m'" "ring m' h (e # xs)" "dom m' = dom m"
    using list_add_ring [of m h xs e] by (auto simp: circ_usable_def)
  then show "\<exists>m'. list_add m e h = Some m' \<and> ring m' h (e # xs) \<and> circ_usable m' = circ_usable m"
    using circ_usable_dom by blast
qed (use list_del_ring circ_usable_dom in blast)

interpretation hash: front_list hlist hash_usable hlist_add_head hlist_del
proof
  fix m h xs e
  assume a: "hlist m h xs" "hash_usable m h e" "e \<notin> set xs"
  then obtain m' where "hlist_add_head m e h = Some m'" "hlist m' h (e # xs)" "keeps m m' {h} (insert e (set xs))"
    using hlist_add_head_list [of m h xs e] by (auto simp: hash_usable_def)
  then show "\<exists>m'. hlist_add_head m e h = Some m' \<and> hlist m' h (e # xs) \<and> hash_usable m' = hash_usable m"
    using hash_usable_keeps by blast
qed (use hlist_del_list hash_usable_keeps in blast)

text \<open>Both kinds of list can be filled and then emptied in any order.\<close>

lemma lists_fill_drain:
  "ring m h [] \<Longrightarrow> \<forall>e \<in> set es. circ_usable m h e \<Longrightarrow> distinct es \<Longrightarrow> mset ds = mset es \<Longrightarrow>
    \<exists>m1 m2. all_steps (\<lambda>m e. list_add m e h) es m = Some m1 \<and> ring m1 h (rev es)
      \<and> all_steps list_del ds m1 = Some m2 \<and> ring m2 h []"
  "hlist n i [] \<Longrightarrow> \<forall>e \<in> set es. hash_usable n i e \<Longrightarrow> distinct es \<Longrightarrow> mset ds = mset es \<Longrightarrow>
    \<exists>m1 m2. all_steps (\<lambda>m e. hlist_add_head m e i) es n = Some m1 \<and> hlist m1 i (rev es)
      \<and> all_steps hlist_del ds m1 = Some m2 \<and> hlist m2 i []"
  by (fact circ.fill_drain, fact hash.fill_drain)

text \<open>C32: On a well-formed circular list, adding at the head is Cons, adding at the tail appends,
  deleting takes out exactly the node given and the emptiness tests agree with the list; no node
  is allocated or freed, and every result is well-formed again.\<close>

theorem circular_list_operations:
  assumes "ring m h xs" "e \<notin> set (h # xs)" "e \<in> dom m"
  shows "(\<exists>m1 m2. list_add m e h = Some m1 \<and> ring m1 h (e # xs) \<and> list_del m1 e = Some m2 \<and> ring m2 h xs)
    \<and> (\<exists>m1 m2. list_add_tail m e h = Some m1 \<and> ring m1 h (xs @ [e]) \<and> list_del m1 e = Some m2 \<and> ring m2 h xs)
    \<and> list_empty m h = Some (xs = []) \<and> list_empty_careful m h = Some (xs = [])"
proof -
  obtain m2 where m2: "list_add_tail m e h = Some m2" "ring m2 h (xs @ [e])"
    using list_add_tail_ring [OF assms] by blast
  have "circ_usable m h e" "e \<notin> set xs" using assms by (auto simp: circ_usable_def)
  then show ?thesis
    using circ.add_del [OF assms(1)] m2 list_del_ring [of m2 h xs e "[]"] list_empty_ring [OF assms(1)]
    by auto
qed

theorem circular_list_operations_witness:
  "\<exists>m. ring m 1 [] \<and>
    (\<exists>m1 m2. list_add m 2 1 = Some m1 \<and> ring m1 1 (2 # []) \<and> list_del m1 2 = Some m2 \<and> ring m2 1 [])
    \<and> (\<exists>m1 m2. list_add_tail m 2 1 = Some m1 \<and> ring m1 1 ([] @ [2]) \<and> list_del m1 2 = Some m2 \<and> ring m2 1 [])
    \<and> list_empty m 1 = Some (([] :: ptr list) = []) \<and> list_empty_careful m 1 = Some (([] :: ptr list) = [])"
proof -
  let ?m = "[1 \<mapsto> \<lparr>lprev = 1, lnext = 1\<rparr>, 2 \<mapsto> \<lparr>lprev = 0, lnext = 0\<rparr>] :: lmem"
  have r: "ring ?m 1 []" by (simp add: ring_def nx_def pv_def)
  show ?thesis using circular_list_operations [OF r, of 2] r by auto
qed

end
