(* ===== verification/ListWalk.thy ===== *)
theory ListWalk
  imports CircList
begin

text \<open>
  The iteration macros of \<^verbatim>\<open>transfer_export/include/list.h\<close>. A body gets the address that the macro
  computes and changes the memory and a result of its own; a walk that does not end, or that
  reads a node that is not allocated, is \<open>None\<close>. The walks visit the nodes in their order; the safe
  ones also when the body unlinks and frees the node it is at, the others do not.
\<close>

section \<open>The macros\<close>

type_synonym 'a body = "ptr \<Rightarrow> lmem \<times> 'a \<Rightarrow> (lmem \<times> 'a) option"

type_synonym 'a hbody = "ptr \<Rightarrow> hmem \<times> 'a \<Rightarrow> (hmem \<times> 'a) option"

text \<open>The object that has its list node \<open>off\<close> bytes after its start.\<close>

definition list_entry :: "ptr \<Rightarrow> nat \<Rightarrow> ptr" where
  "list_entry p off = p - off"

definition hlist_entry :: "ptr \<Rightarrow> nat \<Rightarrow> ptr" where
  "hlist_entry p off = p - off"

partial_function (option) each_loop :: "'a body \<Rightarrow> ptr \<Rightarrow> ptr \<Rightarrow> lmem \<times> 'a \<Rightarrow> (lmem \<times> 'a) option" where
  "each_loop body head pos s =
     (if pos = head then Some s
      else do { s1 \<leftarrow> body pos s; d \<leftarrow> fst s1 pos; each_loop body head (lnext d) s1 })"

definition list_for_each :: "'a body \<Rightarrow> ptr \<Rightarrow> lmem \<times> 'a \<Rightarrow> (lmem \<times> 'a) option" where
  "list_for_each body head s = do { d \<leftarrow> fst s head; each_loop body head (lnext d) s }"

partial_function (option) safe_loop :: "'a body \<Rightarrow> ptr \<Rightarrow> ptr \<Rightarrow> ptr \<Rightarrow> lmem \<times> 'a \<Rightarrow> (lmem \<times> 'a) option" where
  "safe_loop body head pos pnext s =
     (if pos = head then Some s
      else do { s1 \<leftarrow> body pos s; d \<leftarrow> fst s1 pnext; safe_loop body head pnext (lnext d) s1 })"

definition list_for_each_safe :: "'a body \<Rightarrow> ptr \<Rightarrow> lmem \<times> 'a \<Rightarrow> (lmem \<times> 'a) option" where
  "list_for_each_safe body head s =
     do { d \<leftarrow> fst s head; e \<leftarrow> fst s (lnext d); safe_loop body head (lnext d) (lnext e) s }"

partial_function (option) entry_loop :: "'a body \<Rightarrow> ptr \<Rightarrow> nat \<Rightarrow> ptr \<Rightarrow> lmem \<times> 'a \<Rightarrow> (lmem \<times> 'a) option" where
  "entry_loop body head off pos s =
     (if pos + off = head then Some s
      else do { s1 \<leftarrow> body pos s; d \<leftarrow> fst s1 (pos + off); entry_loop body head off (list_entry (lnext d) off) s1 })"

definition list_for_each_entry :: "'a body \<Rightarrow> ptr \<Rightarrow> nat \<Rightarrow> lmem \<times> 'a \<Rightarrow> (lmem \<times> 'a) option" where
  "list_for_each_entry body head off s =
     do { d \<leftarrow> fst s head; entry_loop body head off (list_entry (lnext d) off) s }"

partial_function (option) entry_safe_loop :: "'a body \<Rightarrow> ptr \<Rightarrow> nat \<Rightarrow> ptr \<Rightarrow> ptr \<Rightarrow> lmem \<times> 'a \<Rightarrow> (lmem \<times> 'a) option" where
  "entry_safe_loop body head off pos n s =
     (if pos + off = head then Some s
      else do {
        s1 \<leftarrow> body pos s;
        d \<leftarrow> fst s1 (n + off);
        entry_safe_loop body head off n (list_entry (lnext d) off) s1
      })"

definition list_for_each_entry_safe :: "'a body \<Rightarrow> ptr \<Rightarrow> nat \<Rightarrow> lmem \<times> 'a \<Rightarrow> (lmem \<times> 'a) option" where
  "list_for_each_entry_safe body head off s =
     do {
       d \<leftarrow> fst s head;
       e \<leftarrow> fst s (list_entry (lnext d) off + off);
       entry_safe_loop body head off (list_entry (lnext d) off) (list_entry (lnext e) off) s
     }"

partial_function (option) hash_loop :: "'a hbody \<Rightarrow> ptr \<Rightarrow> hmem \<times> 'a \<Rightarrow> (hmem \<times> 'a) option" where
  "hash_loop body pos s =
     (if pos = 0 then Some s
      else do { s1 \<leftarrow> body pos s; d \<leftarrow> nodes (fst s1) pos; hash_loop body (hnext d) s1 })"

definition hlist_for_each :: "'a hbody \<Rightarrow> nat \<Rightarrow> hmem \<times> 'a \<Rightarrow> (hmem \<times> 'a) option" where
  "hlist_for_each body h s = hash_loop body (heads (fst s) h) s"

partial_function (option) hash_safe_loop :: "'a hbody \<Rightarrow> ptr \<Rightarrow> hmem \<times> 'a \<Rightarrow> (hmem \<times> 'a) option" where
  "hash_safe_loop body pos s =
     (if pos = 0 then Some s
      else do { d \<leftarrow> nodes (fst s) pos; s1 \<leftarrow> body pos s; hash_safe_loop body (hnext d) s1 })"

definition hlist_for_each_safe :: "'a hbody \<Rightarrow> nat \<Rightarrow> hmem \<times> 'a \<Rightarrow> (hmem \<times> 'a) option" where
  "hlist_for_each_safe body h s = hash_safe_loop body (heads (fst s) h) s"

text \<open>The variants that give the body the object; \<open>from\<close> and \<open>continue\<close> start at a node and after it.\<close>

definition hlist_for_each_entry_from :: "'a hbody \<Rightarrow> nat \<Rightarrow> ptr \<Rightarrow> hmem \<times> 'a \<Rightarrow> (hmem \<times> 'a) option" where
  "hlist_for_each_entry_from body off pos s = hash_loop (\<lambda>p. body (hlist_entry p off)) pos s"

definition hlist_for_each_continue :: "'a hbody \<Rightarrow> nat \<Rightarrow> ptr \<Rightarrow> hmem \<times> 'a \<Rightarrow> (hmem \<times> 'a) option" where
  "hlist_for_each_continue body off pos s =
     do { d \<leftarrow> nodes (fst s) pos; hash_loop (\<lambda>p. body (hlist_entry p off)) (hnext d) s }"

definition hlist_for_each_entry :: "'a hbody \<Rightarrow> nat \<Rightarrow> nat \<Rightarrow> hmem \<times> 'a \<Rightarrow> (hmem \<times> 'a) option" where
  "hlist_for_each_entry body h off s = hash_loop (\<lambda>p. body (hlist_entry p off)) (heads (fst s) h) s"

definition hlist_for_each_entry_safe :: "'a hbody \<Rightarrow> nat \<Rightarrow> nat \<Rightarrow> hmem \<times> 'a \<Rightarrow> (hmem \<times> 'a) option" where
  "hlist_for_each_entry_safe body h off s = hash_safe_loop (\<lambda>p. body (hlist_entry p off)) (heads (fst s) h) s"

section \<open>Visiting\<close>

text \<open>A body that notes where it is.\<close>

definition note_it :: "ptr \<Rightarrow> 'm \<times> ptr list \<Rightarrow> ('m \<times> ptr list) option" where
  "note_it p s = Some (fst s, snd s @ [p])"

lemma note_it_app [simp]: "note_it p (m, a) = Some (m, a @ [p])"
  by (simp add: note_it_def)

lemma nx_Some: "nx m p = Some q \<Longrightarrow> \<exists>d. m p = Some d \<and> lnext d = q"
  by (auto simp: nx_def)

lemma each_visits:
  "links m (xs @ [h]) \<Longrightarrow> h \<notin> set xs \<Longrightarrow> each_loop note_it h (hd (xs @ [h])) (m, a) = Some (m, a @ xs)"
proof (induction xs arbitrary: a)
  case Nil
  then show ?case by (simp add: each_loop.simps [of _ h h])
next
  case (Cons x xs)
  then have "nx m x = Some (hd (xs @ [h]))" "links m (xs @ [h])" by (cases xs; simp)+
  then show ?case using Cons nx_Some [of m x]
    by (subst each_loop.simps) auto
qed

lemma entry_visits:
  "links m (xs @ [h]) \<Longrightarrow> h \<notin> set xs \<Longrightarrow> \<forall>x \<in> set (h # xs). off \<le> x \<Longrightarrow>
    entry_loop note_it h off (list_entry (hd (xs @ [h])) off) (m, a) = Some (m, a @ map (\<lambda>x. list_entry x off) xs)"
proof (induction xs arbitrary: a)
  case Nil
  then show ?case by (simp add: entry_loop.simps [of _ h off] list_entry_def)
next
  case (Cons x xs)
  then have "nx m x = Some (hd (xs @ [h]))" "links m (xs @ [h])" by (cases xs; simp)+
  then show ?case using Cons nx_Some [of m x]
    by (subst entry_loop.simps) (auto simp: list_entry_def)
qed

lemma ring_next:
  assumes "ring m h (x # xs)" shows "\<exists>d. m x = Some d \<and> lnext d = hd (xs @ [h])"
proof -
  have "nx m x = Some (hd (xs @ [h]))" using assms by (cases xs) (simp_all add: ring_def)
  then show ?thesis by (rule nx_Some)
qed

lemma ring_first: "ring m h xs \<Longrightarrow> \<exists>d. m h = Some d \<and> lnext d = hd (xs @ [h])"
  using ring_ends [of m h xs] by blast

lemma ring_dom: "ring m h xs \<Longrightarrow> set (h # xs) \<subseteq> dom m"
  using links_dom [of m "h # xs @ [h]"] by (auto simp: ring_def)

lemma ring_tail: "ring m h xs \<Longrightarrow> links m (xs @ [h]) \<and> h \<notin> set xs"
  using links_append [of m "[h]"] by (cases xs) (auto simp: ring_def)

section \<open>Deleting on the way\<close>

text \<open>Bodies that unlink the node they are at; the first one also frees it.\<close>

definition unlink_free :: "ptr list body" where
  "unlink_free p s = map_option (\<lambda>m'. (m'(p := None), snd s @ [p])) (list_del (fst s) p)"

definition unlink :: "ptr list body" where
  "unlink p s = map_option (\<lambda>m'. (m', snd s @ [p])) (list_del (fst s) p)"

definition hash_unlink :: "ptr list hbody" where
  "hash_unlink p s = map_option (\<lambda>m'. (m', snd s @ [p])) (hlist_del (fst s) p)"

lemma ring_free: "ring m h xs \<Longrightarrow> x \<notin> set (h # xs) \<Longrightarrow> ring (m(x := None)) h xs"
  unfolding ring_def
  by (auto intro!: links_cong [of m "h # xs @ [h]"] simp: nx_def pv_def butlast_append dest: in_set_butlastD)

lemma unlink_free_step:
  assumes "ring m h (x # xs)"
  shows "\<exists>m'. unlink_free x (m, a) = Some (m', a @ [x]) \<and> ring m' h xs \<and> dom m' = dom m - {x}"
proof -
  obtain m1 where m1: "list_del m x = Some m1" "ring m1 h xs" "dom m1 = dom m"
    using list_del_ring [of m h "[]" x xs] assms by auto
  moreover have "x \<notin> set (h # xs)" using assms by (auto simp: ring_def)
  ultimately show ?thesis using ring_free [of m1 h xs x] by (auto simp: unlink_free_def)
qed

text \<open>The node after the first one, when there is a first one.\<close>

definition second_node :: "ptr list \<Rightarrow> ptr \<Rightarrow> ptr \<Rightarrow> bool" where
  "second_node xs h q \<longleftrightarrow> xs \<noteq> [] \<longrightarrow> q = hd (tl xs @ [h])"

lemma second_node_start: "ring m h xs \<Longrightarrow> \<exists>e. m (hd (xs @ [h])) = Some e \<and> second_node xs h (lnext e)"
  using ring_next [of m h "hd xs" "tl xs"] ring_first [of m h xs] by (cases xs) (auto simp: second_node_def)

lemma safe_drains:
  "ring m h xs \<Longrightarrow> second_node xs h q \<Longrightarrow>
    \<exists>m'. safe_loop unlink_free h (hd (xs @ [h])) q (m, a) = Some (m', a @ xs) \<and> ring m' h [] \<and> dom m' = dom m - set xs"
proof (induction xs arbitrary: m q a)
  case Nil
  then show ?case by (simp add: safe_loop.simps [of _ h h])
next
  case (Cons x xs)
  obtain m1 where m1: "unlink_free x (m, a) = Some (m1, a @ [x])" "ring m1 h xs" "dom m1 = dom m - {x}"
    using unlink_free_step [OF Cons.prems(1)] by blast
  have q: "q = hd (xs @ [h])" using Cons.prems(2) by (simp add: second_node_def)
  obtain e where e: "m1 q = Some e" "second_node xs h (lnext e)" using second_node_start [OF m1(2)] q by blast
  have "x \<noteq> h" using Cons.prems(1) by (auto simp: ring_def)
  then have "safe_loop unlink_free h x q (m, a) = safe_loop unlink_free h q (lnext e) (m1, a @ [x])"
    using m1(1) e(1) by (subst safe_loop.simps) simp
  then show ?case using Cons.IH [OF m1(2) e(2), of "a @ [x]"] m1(3) q by auto
qed

text \<open>Unlinking alone leaves the links of the node: the plain walk goes on from there.\<close>

lemma list_del_keeps_next:
  assumes "ring m h (x # xs)"
  shows "\<exists>m' d. list_del m x = Some m' \<and> ring m' h xs \<and> m' x = Some d \<and> lnext d = hd (xs @ [h])"
proof -
  obtain m' where m': "list_del m x = Some m'" "ring m' h xs" using list_del_ring [of m h "[]" x xs] assms by auto
  obtain d where d: "m x = Some d" "lnext d = hd (xs @ [h])" using ring_next [OF assms] by blast
  have h: "lprev d = h" "x \<noteq> h" using assms d(1) by (auto simp: ring_def pv_def)
  have "h \<in> dom m" "lnext d \<in> dom m" using ring_first [OF assms] second_node_start [OF assms] ring_first [OF m'(2)]
      ring_dom [OF assms] d(2) by (cases xs; auto)+
  then obtain m2 where "list_unlink m h (lnext d) = Some m2" "nx m2 = (nx m)(h \<mapsto> lnext d)"
    using list_unlink_effect by blast
  then have "nx m' x = Some (lnext d)" using m'(1) d h by (auto simp: list_del_def nx_def fun_upd_def)
  then show ?thesis using m' nx_Some [of m' x] d(2) by auto
qed

lemma each_unlinks:
  "ring m h xs \<Longrightarrow> \<exists>m'. each_loop unlink h (hd (xs @ [h])) (m, a) = Some (m', a @ xs) \<and> ring m' h []"
proof (induction xs arbitrary: m a)
  case Nil
  then show ?case by (simp add: each_loop.simps [of _ h h])
next
  case (Cons x xs)
  obtain m1 d where m1: "list_del m x = Some m1" "ring m1 h xs" "m1 x = Some d" "lnext d = hd (xs @ [h])"
    using list_del_keeps_next [OF Cons.prems] by blast
  have "x \<noteq> h" using Cons.prems by (auto simp: ring_def)
  then have "each_loop unlink h x (m, a) = each_loop unlink h (hd (xs @ [h])) (m1, a @ [x])"
    using m1 by (subst each_loop.simps) (simp add: unlink_def)
  then show ?case using Cons.IH [OF m1(2), of "a @ [x]"] by auto
qed

lemma each_free_faults:
  assumes "ring m h (x # xs)" shows "each_loop unlink_free h x (m, a) = None"
proof -
  have "x \<noteq> h" using assms by (auto simp: ring_def)
  moreover have "unlink_free x (m, a) = Some (m', b) \<Longrightarrow> m' x = None" for m' b by (auto simp: unlink_free_def)
  ultimately show ?thesis by (subst each_loop.simps) (auto split: Option.bind_split)
qed

section \<open>Hash lists\<close>

lemma hash_visits:
  "chain (nodes m) s p xs \<Longrightarrow>
    hash_loop (\<lambda>q. note_it (hlist_entry q off)) p (m, a) = Some (m, a @ map (\<lambda>q. hlist_entry q off) xs)"
proof (induction xs arbitrary: s p a)
  case Nil
  then show ?case by (simp add: hash_loop.simps [of _ 0])
next
  case (Cons x xs)
  then show ?case by (subst hash_loop.simps) auto
qed

lemma hash_first: "hlist m h (x # xs) \<Longrightarrow> heads m h = x \<and> x \<noteq> 0 \<and> (\<exists>d. nodes m x = Some d)"
  by (auto simp: hlist_def)

lemma hash_safe_drains:
  "hlist m h xs \<Longrightarrow> \<exists>m'. hash_safe_loop hash_unlink (heads m h) (m, a) = Some (m', a @ xs) \<and> hlist m' h []"
proof (induction xs arbitrary: m a)
  case Nil
  then have "heads m h = 0" by (simp add: hlist_def)
  then show ?case using Nil by (simp add: hash_safe_loop.simps [of _ 0])
next
  case (Cons x xs)
  obtain d where d: "heads m h = x" "x \<noteq> 0" "nodes m x = Some d" using hash_first [OF Cons.prems] by blast
  obtain m1 where m1: "hlist_del m x = Some m1" "hlist m1 h xs"
    using hlist_del_list [of m h "[]" x xs] Cons.prems by auto
  have "hnext d = heads m1 h" using Cons.prems d(3) m1(2) by (cases xs) (auto simp: hlist_def)
  then have "hash_safe_loop hash_unlink x (m, a) = hash_safe_loop hash_unlink (heads m1 h) (m1, a @ [x])"
    using d m1(1) by (subst hash_safe_loop.simps) (simp add: hash_unlink_def)
  then show ?case using Cons.IH [OF m1(2), of "a @ [x]"] d(1) by auto
qed

lemma hlist_del_poisons: "hlist_del m x = Some m' \<Longrightarrow> \<exists>d. nodes m' x = Some d \<and> hnext d = LIST_POISON1"
  by (auto simp: hlist_del_def set_next_def set_pprev_def bind_eq_Some_conv)

lemma hash_unlink_faults:
  assumes "hlist m h (x # xs)" "nodes m LIST_POISON1 = None"
  shows "hash_loop hash_unlink x (m, a) = None"
proof -
  obtain m1 where m1: "hlist_del m x = Some m1" "hlist m1 h xs" "keeps m m1 {h} (set (x # xs))"
    using hlist_del_list [of m h "[]" x xs] assms(1) by auto
  obtain d where d: "nodes m1 x = Some d" "hnext d = LIST_POISON1" using hlist_del_poisons [OF m1(1)] by blast
  have "nodes m1 LIST_POISON1 = None" using m1(3) assms(2) by (auto simp: keeps_def)
  then have f: "hash_unlink LIST_POISON1 (m1, b) = None" for b
    by (simp add: hash_unlink_def hlist_del_def hlist_unlink_def)
  have "x \<noteq> 0" using hash_first [OF assms(1)] by blast
  then have "hash_loop hash_unlink x (m, a) = hash_loop hash_unlink LIST_POISON1 (m1, a @ [x])"
    using m1(1) d by (subst hash_loop.simps) (simp add: hash_unlink_def)
  moreover have "LIST_POISON1 \<noteq> 0" by (simp add: LIST_POISON1_def)
  then have "hash_loop hash_unlink LIST_POISON1 (m1, a @ [x]) = None" using f by (subst hash_loop.simps) simp
  ultimately show ?thesis by simp
qed

section \<open>What the walks do\<close>

text \<open>C33: The iteration macros end on every well-formed list. A body that only looks sees each node once, in
  order, also as an object around its node. A body that unlinks and frees the node it is at empties
  the list under the safe walk, while the plain one reads the freed node. On a circular list, plain
  walking with unlinking alone still works, because unlinking leaves the pointers of the node; on a
  hash list it fails at the poisoned pointer, and the safe walk empties it.\<close>

theorem iteration_macros:
  assumes "ring m h xs" "\<forall>x \<in> set (h # xs). off \<le> x" "hlist n k ys" "nodes n LIST_POISON1 = None"
  shows "list_for_each note_it h (m, []) = Some (m, xs)
    \<and> list_for_each_entry note_it h off (m, []) = Some (m, map (\<lambda>x. list_entry x off) xs)
    \<and> hlist_for_each_entry note_it k off (n, []) = Some (n, map (\<lambda>y. hlist_entry y off) ys)
    \<and> (\<exists>m'. list_for_each_safe unlink_free h (m, []) = Some (m', xs) \<and> ring m' h [] \<and> dom m' = dom m - set xs)
    \<and> (xs \<noteq> [] \<longrightarrow> list_for_each unlink_free h (m, []) = None)
    \<and> (\<exists>m'. list_for_each unlink h (m, []) = Some (m', xs) \<and> ring m' h [])
    \<and> (\<exists>n'. hlist_for_each_safe hash_unlink k (n, []) = Some (n', ys) \<and> hlist n' k [])
    \<and> (ys \<noteq> [] \<longrightarrow> hlist_for_each hash_unlink k (n, []) = None)"
proof -
  obtain d where d: "m h = Some d" "lnext d = hd (xs @ [h])" using ring_first [OF assms(1)] by blast
  obtain e where e: "m (hd (xs @ [h])) = Some e" "second_node xs h (lnext e)" using second_node_start [OF assms(1)] by blast
  note t = ring_tail [OF assms(1)]
  have "list_for_each note_it h (m, []) = Some (m, xs)"
    using each_visits [of m xs h "[]"] t d by (simp add: list_for_each_def)
  moreover have "list_for_each_entry note_it h off (m, []) = Some (m, map (\<lambda>x. list_entry x off) xs)"
    using entry_visits [of m xs h off "[]"] t d assms(2) by (simp add: list_for_each_entry_def)
  moreover have "hlist_for_each_entry note_it k off (n, []) = Some (n, map (\<lambda>y. hlist_entry y off) ys)"
    using hash_visits [of n "First k" "heads n k" ys off "[]"] assms(3) by (simp add: hlist_for_each_entry_def hlist_def)
  moreover have "\<exists>m'. list_for_each_safe unlink_free h (m, []) = Some (m', xs) \<and> ring m' h [] \<and> dom m' = dom m - set xs"
    using safe_drains [OF assms(1) e(2), of "[]"] d e(1) by (simp add: list_for_each_safe_def)
  moreover have "list_for_each unlink_free h (m, []) = None" if "xs \<noteq> []"
    using that each_free_faults [of m h "hd xs" "tl xs" "[]"] assms(1) d by (cases xs) (auto simp: list_for_each_def)
  moreover have "\<exists>m'. list_for_each unlink h (m, []) = Some (m', xs) \<and> ring m' h []"
    using each_unlinks [OF assms(1), of "[]"] d by (simp add: list_for_each_def)
  moreover have "\<exists>n'. hlist_for_each_safe hash_unlink k (n, []) = Some (n', ys) \<and> hlist n' k []"
    using hash_safe_drains [OF assms(3), of "[]"] by (simp add: hlist_for_each_safe_def)
  moreover have "hlist_for_each hash_unlink k (n, []) = None" if "ys \<noteq> []"
    using that hash_unlink_faults [of n k "hd ys" "tl ys" "[]"] hash_first [of n k "hd ys" "tl ys"] assms(3,4)
    by (cases ys) (auto simp: hlist_for_each_def)
  ultimately show ?thesis by blast
qed

theorem iteration_macros_witness:
  "let m = [8 \<mapsto> \<lparr>lprev = 24, lnext = 16\<rparr>, 16 \<mapsto> \<lparr>lprev = 8, lnext = 24\<rparr>, 24 \<mapsto> \<lparr>lprev = 16, lnext = 8\<rparr>] :: lmem;
       n = \<lparr>heads = (\<lambda>_. 0)(2 := 16), nodes = [16 \<mapsto> \<lparr>hnext = 0, pprev = First 2\<rparr>]\<rparr>
   in list_for_each note_it 8 (m, []) = Some (m, [16, 24])
    \<and> list_for_each_entry note_it 8 4 (m, []) = Some (m, map (\<lambda>x. list_entry x 4) [16, 24])
    \<and> hlist_for_each_entry note_it 2 4 (n, []) = Some (n, map (\<lambda>y. hlist_entry y 4) [16])
    \<and> (\<exists>m'. list_for_each_safe unlink_free 8 (m, []) = Some (m', [16, 24]) \<and> ring m' 8 [] \<and> dom m' = dom m - set [16, 24])
    \<and> ([16, 24 :: ptr] \<noteq> [] \<longrightarrow> list_for_each unlink_free 8 (m, []) = None)
    \<and> (\<exists>m'. list_for_each unlink 8 (m, []) = Some (m', [16, 24]) \<and> ring m' 8 [])
    \<and> (\<exists>n'. hlist_for_each_safe hash_unlink 2 (n, []) = Some (n', [16]) \<and> hlist n' 2 [])
    \<and> ([16 :: ptr] \<noteq> [] \<longrightarrow> hlist_for_each hash_unlink 2 (n, []) = None)"
  unfolding Let_def
  by (rule iteration_macros) (simp_all add: ring_def nx_def pv_def hlist_def LIST_POISON1_def)

end
