(* ===== verification/FileWriter.thy ===== *)
theory FileWriter
  imports ShmProps
begin

text \<open>
  The test programs of the shared blocks (\<^verbatim>\<open>w_datarecv.cpp\<close>, \<^verbatim>\<open>share_mem/tmp\<close>): \<open>WriteFileTest\<close> sends
  a file line by line, \<open>WriteTest\<close> and \<open>ReadTest\<close> use one block without its lock. \<open>None\<close> is
  undefined behaviour.
\<close>

section \<open>Lines of a file\<close>

text \<open>
  \<^verbatim>\<open>fin.getline(buf, size)\<close>: the line and a zero byte go into the buffer, what is behind them stays,
  and the newline is dropped. It fails at the end of the file and on a line that does not fit.
\<close>

definition cgetline :: "byte list \<Rightarrow> cbuf \<Rightarrow> (cbuf \<times> byte list) option" where
  "cgetline s buf =
     (let line = takeWhile (\<lambda>b. b \<noteq> newline) s in
      if s = [] \<or> length buf \<le> length line then None
      else Some (line @ 0 # drop (length line + 1) buf, drop (length line + 1) s))"

lemma cgetline_smaller: "cgetline s buf = Some (b, r) \<Longrightarrow> length r < length s"
  by (auto simp: cgetline_def Let_def split: if_splits)

lemma cgetline_size: "cgetline s buf = Some (b, r) \<Longrightarrow> length b = length buf"
  by (auto simp: cgetline_def Let_def split: if_splits)

lemma cgetline_line:
  assumes "newline \<notin> set line"
  shows "cgetline (line @ newline # r) buf =
    (if length line < length buf then Some (line @ 0 # drop (length line + 1) buf, r) else None)"
proof -
  have "takeWhile (\<lambda>b. b \<noteq> newline) (line @ newline # r) = line"
    using assms by (subst takeWhile_append2) auto
  then show ?thesis by (simp add: cgetline_def)
qed

section \<open>The test writer\<close>

type_synonym notices = "(byte list \<times> byte list) list"

text \<open>The loop; \<open>env n\<close> is what the pipe does at the \<open>n\<close>-th message.\<close>

function write_lines :: "(nat \<Rightarrow> fifo_env) \<Rightarrow> nat \<Rightarrow> byte list \<Rightarrow> cbuf \<Rightarrow> kernel \<Rightarrow> data_recv \<Rightarrow>
    (bool \<times> kernel \<times> data_recv \<times> notices) waits option" where
  "write_lines env n s buf k d =
     (case cgetline s buf of
        None \<Rightarrow> Some (Goes (True, k, d, []))
      | Some (buf', r) \<Rightarrow>
          (case WriteData (env n) k d buf' of
             None \<Rightarrow> None
           | Some Sleeps \<Rightarrow> Some Sleeps
           | Some (Goes (ok, k', d', out)) \<Rightarrow>
               if \<not> ok then Some (Goes (False, k', d', []))
               else
                 (case write_lines env (n + 1) r buf' k' d' of
                    None \<Rightarrow> None
                  | Some Sleeps \<Rightarrow> Some Sleeps
                  | Some (Goes (ok', k'', d'', outs)) \<Rightarrow>
                      Some (Goes (ok', k'', d'', (case out of None \<Rightarrow> outs | Some x \<Rightarrow> x # outs))))))"
  by pat_completeness auto
termination
  by (relation "measure (\<lambda>(env, n, s, buf, k, d). length s)") (auto dest: cgetline_smaller)

declare write_lines.simps [simp del]

text \<open>\<open>raw\<close> is the buffer on the stack, of one block's size.\<close>

definition WriteFileTest :: "(nat \<Rightarrow> fifo_env) \<Rightarrow> byte list option \<Rightarrow> cbuf \<Rightarrow> kernel \<Rightarrow> data_recv \<Rightarrow>
    (bool \<times> kernel \<times> data_recv \<times> notices) waits option" where
  "WriteFileTest env datafile raw k d =
     (case datafile of
        None \<Rightarrow> Some (Goes (False, k, d, []))
      | Some s \<Rightarrow> write_lines env 0 s raw k d)"

text \<open>\<^verbatim>\<open>main\<close> of \<^verbatim>\<open>w_create_write_process.cpp\<close>\<close>

definition create_write_main :: "(nat \<Rightarrow> fifo_env) \<Rightarrow> byte list option \<Rightarrow> cbuf \<Rightarrow> kernel \<Rightarrow>
    (int \<times> kernel \<times> data_recv \<times> notices) waits option" where
  "create_write_main env datafile raw k =
     (case WriteFileTest env datafile raw k W_DataRecv of
        None \<Rightarrow> None
      | Some Sleeps \<Rightarrow> Some Sleeps
      | Some (Goes (_, r)) \<Rightarrow> Some (Goes (0, r)))"

section \<open>One block without its lock\<close>

definition WriteTest :: "kernel \<Rightarrow> data_recv \<Rightarrow> (bool \<times> kernel \<times> data_recv) option" where
  "WriteTest k d =
     (let (ok, k1, d1) = ensure_init k d in
      if \<not> ok then Some (False, k1, d1)
      else
        (case Write k1 (w_shmctl d1) (ascii ''Helloworld'' @ zeros 10) 2 of
           None \<Rightarrow> None
         | Some (_, k2) \<Rightarrow> Some (True, k2, d1)))"

text \<open>The third component is the text printed.\<close>

definition ReadTest :: "kernel \<Rightarrow> data_recv \<Rightarrow> (bool \<times> (kernel \<times> data_recv) \<times> byte list) option" where
  "ReadTest k d =
     (let (ok, k1, d1) = ensure_init k d in
      if \<not> ok then Some (False, (k1, d1), [])
      else
        (case Read k1 (w_shmctl d1) GetPerBlockSize 2 of
           None \<Rightarrow> None
         | Some None \<Rightarrow> Some (True, (k1, d1), [])
         | Some (Some buf) \<Rightarrow> map_option (\<lambda>s. (True, (k1, d1), ascii ''ReadData:'' @ s)) (c_str buf 0)))"

section \<open>What the test writer sends\<close>

definition lines_text :: "byte list list \<Rightarrow> byte list" where
  "lines_text ls = concat (map (\<lambda>l. l @ [newline]) ls)"

definition short_lines :: "byte list list \<Rightarrow> byte list list" where
  "short_lines ls = takeWhile (\<lambda>l. length l < 8192) ls"

text \<open>The message of a line starts with the line and a zero byte.\<close>

definition line_message :: "byte list \<Rightarrow> byte list \<Rightarrow> bool" where
  "line_message l m \<longleftrightarrow> length m = 8192 \<and> take (length l + 1) m = l @ [0]"

lemma line_message_buffer:
  "length buf = 8192 \<Longrightarrow> length l < 8192 \<Longrightarrow> line_message l (l @ 0 # drop (length l + 1) buf)"
  by (simp add: line_message_def)

lemma write_lines_ready:
  assumes "\<forall>l \<in> set ls. newline \<notin> set l" "length buf = 8192" "ready k d"
  shows "\<exists>k' d' ms outs. write_lines (\<lambda>_. FifoOk) n (lines_text ls) buf k d = Some (Goes (True, k', d', outs))
    \<and> write_msgs k d ms = Some (k', d', outs) \<and> list_all2 line_message (short_lines ls) ms"
  using assms
proof (induction ls arbitrary: n buf k d)
  case Nil
  then show ?case
    by (subst write_lines.simps) (simp add: lines_text_def short_lines_def cgetline_def exI [of _ "[]"])
next
  case (Cons l ls)
  have nl: "newline \<notin> set l" and ls: "\<forall>l \<in> set ls. newline \<notin> set l" using Cons.prems(1) by simp_all
  have t: "lines_text (l # ls) = l @ newline # lines_text ls" by (simp add: lines_text_def)
  note g = cgetline_line [OF nl, of "lines_text ls" buf]
  show ?case
  proof (cases "length l < 8192")
    case True
    let ?b = "l @ 0 # drop (length l + 1) buf"
    let ?i = "nat ((dr_index d + 1) mod 10)"
    let ?d1 = "d\<lparr>dr_index := int ?i, dr_id := (dr_id d + 1) mod 2\<rparr>"
    have b: "length ?b = 8192" using True Cons.prems(2) by simp
    then have le: "length ?b \<le> 8192" by linarith
    obtain k1 out where w: "WriteData FifoOk k d ?b = Some (Goes (True, k1, ?d1, Some out))" "ready k1 d"
      using WriteData_ready [OF Cons.prems(3) le refl] by blast
    have r1: "ready k1 ?d1" using w(2) by (simp add: ready_def)
    obtain k' d' ms outs where i: "write_lines (\<lambda>_. FifoOk) (n + 1) (lines_text ls) ?b k1 ?d1 = Some (Goes (True, k', d', outs))"
      "write_msgs k1 ?d1 ms = Some (k', d', outs)" "list_all2 line_message (short_lines ls) ms"
      using Cons.IH [OF ls b r1] by blast
    have "write_lines (\<lambda>_. FifoOk) n (lines_text (l # ls)) buf k d = Some (Goes (True, k', d', out # outs))"
      unfolding t using True Cons.prems(2) w(1) i(1) by (subst write_lines.simps) (simp add: g del: drop_append)
    moreover have "write_msgs k d (?b # ms) = Some (k', d', out # outs)" using w(1) i(2) by simp
    moreover have "list_all2 line_message (short_lines (l # ls)) (?b # ms)"
      using True i(3) line_message_buffer [OF Cons.prems(2) True] by (simp add: short_lines_def)
    ultimately show ?thesis by blast
  next
    case False
    then have "cgetline (lines_text (l # ls)) buf = None" unfolding t using g Cons.prems(2) by simp
    then show ?thesis using False
      by (subst write_lines.simps) (simp add: short_lines_def exI [of _ "[]"])
  qed
qed

text \<open>C17: The test writer sends a file of lines one message per line, in the order of the lines,
  around the ring of blocks and to the two pipes in turn; when it is done each of the last ten
  lines is in its block, ended by a zero byte. It stops at the first line of 8192 bytes or more,
  without an error: the rest of the file is not sent and it still returns true.\<close>

theorem file_writer_sends_lines:
  assumes "\<forall>l \<in> set ls. newline \<notin> set l" "length raw = 8192" "ready k d"
  shows "\<exists>k' d'. WriteFileTest (\<lambda>_. FifoOk) (Some (lines_text ls)) raw k d
      = Some (Goes (True, k', d', map (ring_notice d) [0..<length (short_lines ls)]))
    \<and> (\<forall>n < length (short_lines ls). length (short_lines ls) \<le> n + 10 \<longrightarrow>
        take (length (short_lines ls ! n) + 1) (block k' (w_shmctl d) (ring_index d n)) = short_lines ls ! n @ [0])"
proof -
  obtain k' d' ms outs where w: "write_lines (\<lambda>_. FifoOk) 0 (lines_text ls) raw k d = Some (Goes (True, k', d', outs))"
    "write_msgs k d ms = Some (k', d', outs)" "list_all2 line_message (short_lines ls) ms"
    using write_lines_ready [OF assms] by blast
  have len: "length ms = length (short_lines ls)" using w(3) by (simp add: list_all2_lengthD)
  have m: "line_message (short_lines ls ! n) (ms ! n)" if "n < length ms" for n
    using list_all2_nthD2 [OF w(3) that] .
  have "\<forall>m \<in> set ms. length m \<le> 8192" using m by (auto simp: in_set_conv_nth line_message_def)
  from write_msgs_ring [OF assms(3) this] w(2)
  have outs: "outs = map (ring_notice d) [0..<length ms]"
    and got: "\<forall>n < length ms. length ms \<le> n + 10 \<longrightarrow>
      take (length (ms ! n)) (block k' (w_shmctl d) (ring_index d n)) = ms ! n"
    by auto
  have "take (length (short_lines ls ! n) + 1) (block k' (w_shmctl d) (ring_index d n)) = short_lines ls ! n @ [0]"
    if n: "n < length ms" "length ms \<le> n + 10" for n
  proof -
    have t: "take 8192 (block k' (w_shmctl d) (ring_index d n)) = ms ! n"
      and l: "length (ms ! n) = 8192" "take (length (short_lines ls ! n) + 1) (ms ! n) = short_lines ls ! n @ [0]"
      using got n m [OF n(1)] by (auto simp: line_message_def)
    have "length (take (length (short_lines ls ! n) + 1) (ms ! n)) = length (short_lines ls ! n) + 1"
      unfolding l(2) by simp
    then have "min 8192 (length (short_lines ls ! n) + 1) = length (short_lines ls ! n) + 1"
      using l(1) by simp
    then show ?thesis using l(2) unfolding t [symmetric] by (simp only: take_take min.commute)
  qed
  then show ?thesis using w(1) outs len by (simp add: WriteFileTest_def)
qed

theorem file_writer_sends_lines_witness:
  "\<exists>k' d'. WriteFileTest (\<lambda>_. FifoOk) (Some (lines_text [[0x61], [0x62, 0x63]])) (zeros 8192) sample_kernel sample_recv
      = Some (Goes (True, k', d', map (ring_notice sample_recv) [0..<length (short_lines [[0x61], [0x62, 0x63]])]))
    \<and> (\<forall>n < length (short_lines [[0x61], [0x62, 0x63]]). length (short_lines [[0x61], [0x62, 0x63]]) \<le> n + 10 \<longrightarrow>
        take (length (short_lines [[0x61], [0x62, 0x63]] ! n) + 1)
          (block k' (w_shmctl sample_recv) (ring_index sample_recv n)) = short_lines [[0x61], [0x62, 0x63]] ! n @ [0])"
  by (rule file_writer_sends_lines [OF _ _ sample_ready]) (simp_all add: newline_def)

text \<open>\<open>ReadTest\<close> prints what \<open>WriteTest\<close> has put into the block.\<close>

lemma test_block:
  assumes "ready k w" "w_shmctl d = w_shmctl w" "w_semtable d = w_semtable w"
  shows "\<exists>k'. WriteTest k w = Some (True, k', w)
    \<and> ReadTest k' d = Some (True, (k', d), ascii ''ReadData:Helloworld'')"
proof -
  let ?c = "w_shmctl w" and ?m = "ascii ''Helloworld'' @ zeros 10"
  have a: "attached k ?c" "HasShm ?c" using assms(1) by (simp_all add: ready_def)
  have "length ?m \<le> 8192" "(2 :: nat) < 10" by simp_all
  from Write_block [OF a(1) this(2,1)] obtain k' where
    w: "Write k ?c ?m 2 = Some (True, k')" "attached k' ?c" "block k' ?c 2 = ?m @ drop 20 (block k ?c 2)"
    by auto
  have r: "Read k' ?c 8192 2 = Some (Some (block k' ?c 2))"
    using Read_block [OF w(2), of 2] by simp
  have "zeros 10 = 0 # zeros 9" using zeros_Suc [of 9] by simp
  then have "c_str (block k' ?c 2) 0 = Some (ascii ''Helloworld'')"
    unfolding w(3) using c_str_app0 [of "ascii ''Helloworld''"] by (simp add: ascii_def)
  then show ?thesis
    using w(1) r a(2) assms(2)
    by (simp add: WriteTest_def ReadTest_def ensure_init_def GetPerBlockSize_def mem_size_def shm_block_size_def ascii_def)
qed

end
