(* ===== verification/RouteTests.thy ===== *)
theory RouteTests
  imports RouteProps NewShm
begin

text \<open>
  What prints and tries out the shared tables: \<open>Print\<close> of the routing tables
  (\<^verbatim>\<open>w_route_ctl.cpp\<close>), the tests of a table of items (\<^verbatim>\<open>w_shm_table.h\<close>) and of the semaphores
  (\<^verbatim>\<open>w_sem_table.cpp\<close>). \<open>None\<close> is undefined behaviour.
\<close>

section \<open>Printing the processes\<close>

definition tab :: byte where
  "tab = 0x09"

definition bool_text :: "bool \<Rightarrow> byte list" where
  "bool_text b = (if b then ascii ''1'' else ascii ''0'')"

fun print_slots :: "route_ctl \<Rightarrow> nat list \<Rightarrow> kernel \<Rightarrow> (pid_item list option \<times> kernel) waits option" where
  "print_slots r [] k = Some (Goes (Some [], k))"
| "print_slots r (i # is) k =
     (case read_slot sizeof_pid_item (pidShmTable r) (pidSemTable r) (int i) k of
        None \<Rightarrow> None
      | Some Sleeps \<Rightarrow> Some Sleeps
      | Some (Goes (None, k')) \<Rightarrow> Some (Goes (None, k'))
      | Some (Goes (Some b, k')) \<Rightarrow>
          (case print_slots r is k' of
             Some (Goes (Some xs, k'')) \<Rightarrow> Some (Goes (Some (dec_pid_item b # xs), k''))
           | y \<Rightarrow> y))"

definition pid_line :: "pid_item \<Rightarrow> byte list option" where
  "pid_line x =
     map_option (\<lambda>path. dec_int (sint (pid x)) @ tab # bool_text (isPidFree x) @ tab # path @ [newline])
       (c_str (fifoPath x) 0)"

fun pid_lines :: "pid_item list \<Rightarrow> byte list option" where
  "pid_lines [] = Some []"
| "pid_lines (x # xs) = do { l \<leftarrow> pid_line x; ls \<leftarrow> pid_lines xs; Some (l @ ls) }"

text \<open>The result and the text.\<close>

definition Print :: "route_ctl \<Rightarrow> kernel \<Rightarrow> ((bool \<times> byte list) \<times> kernel) waits option" where
  "Print r k =
     (case print_slots r [0..<nat process_size] k of
        None \<Rightarrow> None
      | Some Sleeps \<Rightarrow> Some Sleeps
      | Some (Goes (None, k')) \<Rightarrow> Some (Goes ((False, []), k'))
      | Some (Goes (Some itemlist, k')) \<Rightarrow>
          map_option (\<lambda>ls. Goes ((True, ascii ''Pid'' @ tab # ascii ''Free'' @ tab # ascii ''fifo'' @ newline # ls), k'))
            (pid_lines itemlist))"

lemma print_slots_list:
  assumes "routed r k" "\<forall>i \<in> set is. i < 2"
  shows "print_slots r is k = Some (Goes (Some (map (\<lambda>i. pids r k ! i) is), k))"
  using assms(2)
proof (induction "is")
  case (Cons i ns)
  have i: "i < nat (tbl_blockSize (pidShmTable r))" "i < 2" using Cons.prems assms(1) by (simp_all add: routed_def)
  have f: "free_locks k (pidSemTable r) 2" using assms(1) by (simp add: routed_def)
  obtain b where b: "tbl_Read sizeof_pid_item k (pidShmTable r) (int i) = Some (Some b)"
    "read_slot sizeof_pid_item (pidShmTable r) (pidSemTable r) (int i) k = Some (Goes (Some b, k))"
    using read_slot_free [OF routed_pid [OF assms(1)] i(1) f i(2)] by auto
  have "pids r k ! i = dec_pid_item b"
    using i(2) b(1) by (simp add: pids_map [OF assms(1)] tbl_get_def)
  then show ?case using Cons b(2) by simp
qed simp

lemma Print_list:
  assumes "routed r k"
  shows "Print r k = map_option (\<lambda>ls. Goes ((True, ascii ''Pid'' @ tab # ascii ''Free'' @ tab # ascii ''fifo'' @ newline # ls), k))
    (pid_lines (pids r k))"
proof -
  have "map (\<lambda>i. pids r k ! i) [0..<2] = pids r k"
    using map_nth [of "pids r k"] route_lengths(1) [OF assms] by simp
  then show ?thesis using print_slots_list [OF assms, of "[0..<2]"] by (simp add: Print_def process_size_def)
qed

lemma sint_of_int: "int_range p \<Longrightarrow> sint (of_int p :: u32) = p"
  unfolding int_range_def int_word_sint by simp

definition registered_text :: "int \<Rightarrow> byte list" where
  "registered_text p = dec_int p @ tab # ascii ''1'' @ tab # ascii ''conf/fifo_'' @ dec_int p @ [newline]"

lemma pid_line_registered:
  assumes "int_range p"
  shows "pid_line (registered p) = Some (registered_text p)"
proof -
  have "\<bar>p\<bar> < 10 ^ 10" using assms by (simp add: int_range_def) linarith
  then have "length (dec_int p) \<le> 11" by (rule dec_int_length)
  then have "246 - length (dec_int p) = Suc (245 - length (dec_int p))" by linarith
  then have z: "zeros (246 - length (dec_int p)) = 0 # zeros (245 - length (dec_int p))" by (simp only: zeros_Suc)
  have "0 \<notin> set (ascii ''conf/fifo_'' @ dec_int p)" using dec_int_no_nul by (simp add: ascii_def)
  then have "c_str (fifoPath (registered p)) 0 = Some (ascii ''conf/fifo_'' @ dec_int p)"
    unfolding registered_def using c_str_app0 [of "ascii ''conf/fifo_'' @ dec_int p"] z by simp
  then show ?thesis
    using sint_of_int [OF assms] by (simp add: pid_line_def registered_text_def registered_def bool_text_def)
qed

lemma of_int_minus_1: "int_range p \<Longrightarrow> p \<noteq> -1 \<Longrightarrow> (of_int p :: u32) \<noteq> -1"
  using sint_of_int [of p] by (metis sint_n1)

text \<open>From an empty table two processes can register, and \<open>Print\<close> then shows them in this order, each
  with its pid, as free, and with the path of its pipe; a third one is refused and changes
  nothing.\<close>

theorem processes_listed:
  assumes "routed r k" "int_range p" "int_range q" "int_range x" "p \<noteq> -1" "q \<noteq> -1"
  shows "\<exists>k0 k1 k2. InitPidTable r k = Some (Goes (True, k0)) \<and> AddPidItem r p k0 = Some (Goes (True, k1))
    \<and> AddPidItem r q k1 = Some (Goes (True, k2)) \<and> AddPidItem r x k2 = Some (Goes (False, k2))
    \<and> Print r k2 = Some (Goes ((True, ascii ''Pid'' @ tab # ascii ''Free'' @ tab # ascii ''fifo'' @ newline #
        registered_text p @ registered_text q), k2))"
proof -
  have u: "[0..<2] = [0, Suc 0]" by (simp add: upt_rec)
  have n: "pid (registered p) \<noteq> -1" "pid (registered q) \<noteq> -1"
    using of_int_minus_1 assms by (simp_all add: registered_def)
  obtain k0 where k0: "InitPidTable r k = Some (Goes (True, k0))" "routed r k0"
    "pids r k0 = [fresh_pid_item, fresh_pid_item]"
    using InitPidTable_list [OF assms(1)] by blast
  have "List.find (\<lambda>i. pid (pids r k0 ! i) = -1) [0..<2] = Some 0"
    unfolding k0(3) u by (simp add: fresh_pid_item_def)
  with AddPidItem_list [OF k0(2) assms(2)] obtain k1 where k1: "AddPidItem r p k0 = Some (Goes (True, k1))"
    "routed r k1" "pids r k1 = [registered p, fresh_pid_item]"
    unfolding k0(3) by auto
  have "List.find (\<lambda>i. pid (pids r k1 ! i) = -1) [0..<2] = Some 1"
    unfolding k1(3) u using n by (simp add: fresh_pid_item_def)
  with AddPidItem_list [OF k1(2) assms(3)] obtain k2 where k2: "AddPidItem r q k1 = Some (Goes (True, k2))"
    "routed r k2" "pids r k2 = [registered p, registered q]"
    unfolding k1(3) by auto
  have "List.find (\<lambda>i. pid (pids r k2 ! i) = -1) [0..<2] = None"
    unfolding k2(3) u using n by simp
  with AddPidItem_list [OF k2(2) assms(4)] have "AddPidItem r x k2 = Some (Goes (False, k2))" by simp
  then show ?thesis
    using k0(1) k1(1) k2(1) Print_list [OF k2(2)] pid_line_registered assms(2,3) by (simp add: k2(3))
qed

theorem processes_listed_witness:
  "\<exists>k0 k1 k2. InitPidTable sample_route route_kernel = Some (Goes (True, k0))
    \<and> AddPidItem sample_route 41 k0 = Some (Goes (True, k1)) \<and> AddPidItem sample_route 42 k1 = Some (Goes (True, k2))
    \<and> AddPidItem sample_route 43 k2 = Some (Goes (False, k2))
    \<and> Print sample_route k2 = Some (Goes ((True, ascii ''Pid'' @ tab # ascii ''Free'' @ tab # ascii ''fifo'' @ newline #
        registered_text 41 @ registered_text 42), k2))"
  by (rule processes_listed [OF sample_routed]) (simp_all add: int_range_def)

section \<open>Tests of a table of items\<close>

text \<open>The failed set-up is not looked at, and every field of the caller's item is set.\<close>

definition tbl_WriteTest :: "kernel \<Rightarrow> shm_table \<Rightarrow> (bool \<times> kernel \<times> shm_table) option" where
  "tbl_WriteTest k t =
     (let (_, k1, t1) = ShmWriteInit sizeof_mem_item k t;
          item = \<lparr>shmIndex = 10, isMemFree = True, isDataReady = False\<rparr> in
      map_option (\<lambda>(_, k2). (True, k2, t1)) (tbl_Write sizeof_mem_item k1 t1 (enc_mem_item item) 0))"

definition mem_item_text :: "mem_item \<Rightarrow> byte list" where
  "mem_item_text x = ascii ''item.shmIndex='' @ dec_int (sint (shmIndex x)) @ ascii '' item.isMemFree='' @
     bool_text (isMemFree x) @ ascii '' item.isDataReady='' @ bool_text (isDataReady x) @ [newline]"

definition tbl_ReadTest :: "kernel \<Rightarrow> shm_table \<Rightarrow> mem_item \<Rightarrow> (bool \<times> shm_table \<times> byte list) option" where
  "tbl_ReadTest k t item =
     (let (_, t1) = tbl_ShmReadInit k t in
      map_option (\<lambda>b. (True, t1, mem_item_text (case b of None \<Rightarrow> item | Some bs \<Rightarrow> dec_mem_item bs)))
        (tbl_Read sizeof_mem_item k t1 0))"

text \<open>A process that reads after the test writer finds its item.\<close>

lemma tbl_tests:
  assumes "conf_writable k" "nat (tbl_blockSize t) * 8 \<le> shm_max k" "0 < next_shm k" "int_range (next_shm k)"
    and "0 < tbl_blockSize t" "shm_table_conf u = shm_table_conf t" "tbl_blockSize u = tbl_blockSize t"
  shows "\<exists>k' t'. tbl_WriteTest k t = Some (True, k', t')
    \<and> map_option (\<lambda>(ok, _, text). (ok, text)) (tbl_ReadTest k' u item) =
        Some (True, ascii ''item.shmIndex=10 item.isMemFree=1 item.isDataReady=0'' @ [newline])"
proof -
  let ?x = "\<lparr>shmIndex = 10, isMemFree = True, isDataReady = False\<rparr>" and ?i = "next_shm k"
  let ?t1 = "t\<lparr>tbl_shmid := ?i, tbl_shmaddr := Some ?i\<rparr>"
  let ?k1 = "k\<lparr>segs := (segs k)(?i \<mapsto> zeros (nat (tbl_blockSize t) * 8)), next_shm := ?i + 1,
      conf_files := (conf_files k)(shm_table_conf t \<mapsto> conf_line (ascii ''shmid'') ?i)\<rparr>"
  have 1: "ShmWriteInit sizeof_mem_item k t = (True, ?k1, ?t1)"
    using assms by (simp add: ShmWriteInit_def tbl_CreateShm_def shmget_def new_segment_def Let_def tbl_WriteShmid_def
        write_conf_def tbl_AttachMem_def sizeof_mem_item_def)
  have r: "table_ready 8 ?t1 ?k1" using assms(3) by (simp add: table_ready_def)
  have z: "0 < nat (tbl_blockSize ?t1)" using assms(5) by simp
  obtain k2 where w: "tbl_Write 8 ?k1 ?t1 (enc_mem_item ?x) 0 = Some (True, k2)" "table_ready 8 ?t1 k2"
    "\<forall>j < nat (tbl_blockSize ?t1). tbl_Read 8 k2 ?t1 (int j) =
        (if j = 0 then Some (Some (enc_mem_item ?x)) else tbl_Read 8 ?k1 ?t1 (int j))"
    using tbl_Write_item [OF r z dec_enc_mem_item(2) [of ?x]] by auto
  have w3: "tbl_Read 8 k2 ?t1 0 = Some (Some (enc_mem_item ?x))" using w(3) z by fastforce
  have c: "conf_files k2 = conf_files ?k1" using w(1)
    by (auto simp: tbl_Write_def mem_write_def split: if_splits Option.bind_splits)
  have "tbl_ShmReadInit k2 u = (True, u\<lparr>tbl_shmid := ?i, tbl_shmaddr := Some ?i\<rparr>)"
    using assms(3,4,6) w(2) c by (intro tbl_ShmReadInit_line) (auto simp: table_ready_def)
  moreover have "tbl_Read 8 k2 (u\<lparr>tbl_shmid := ?i, tbl_shmaddr := Some ?i\<rparr>) 0 = tbl_Read 8 k2 ?t1 0"
    using assms(7) by (simp add: tbl_Read_def)
  moreover have "dec_int 10 = ascii ''10''" by code_simp
  then have "mem_item_text ?x = ascii ''item.shmIndex=10 item.isMemFree=1 item.isDataReady=0'' @ [newline]"
    by (simp add: mem_item_text_def bool_text_def ascii_def)
  ultimately show ?thesis
    using 1 w(1) w3 dec_enc_mem_item(1) [of ?x]
    by (intro exI [of _ k2] exI [of _ ?t1]) (simp add: tbl_WriteTest_def tbl_ReadTest_def sizeof_mem_item_def)
qed

section \<open>The test of the semaphores\<close>

text \<open>\<^verbatim>\<open>RunTest\<close> is a function with a result and without a \<^verbatim>\<open>return\<close>: it may sleep, but it never comes
  back.\<close>

definition RunTest :: "kernel \<Rightarrow> int \<Rightarrow> sem_table \<Rightarrow> (bool \<times> kernel) waits option" where
  "RunTest k now t =
     (let (_, t1) = CreateSemkey k now t;
          (_, k1) = WriteSemid k t1;
          (_, k2, t2) = CreateSem k1 t1 in
      case P k2 t2 1 of
        Sleeps \<Rightarrow> Some Sleeps
      | Goes (_, k3) \<Rightarrow> (let (_, k4) = V k3 t2 1 in None))"

end
