(* ===== verification/Schedule.thy ===== *)
theory Schedule
  imports CText SemTable
begin

text \<open>
  The schedule manager (\<^verbatim>\<open>share_mem/schedule_mng.cpp\<close>): a table of reading processes and a
  table of memory chunks, each in a segment with a named lock. \<open>sched_sys\<close> is what the
  processes share: the segments, the files with their ids and the locks. \<open>None\<close> is an access
  outside of a table or buffer; a call that waits for a lock is \<open>Sleeps\<close>.
\<close>

section \<open>Shared state\<close>

datatype run_state = FREE | BUSY

datatype data_state = DATA_READY | DATA_WAITING

record proc_item =
  pseq :: u32
  ppid :: int
  pstate :: run_state
  ppipe :: cbuf

record chunk_item =
  shm_seq :: nat
  cstate :: run_state
  cdata :: data_state
  csize :: u32

record sched_sys =
  proc_segs :: "int \<rightharpoonup> proc_item list"
  chunk_segs :: "int \<rightharpoonup> chunk_item list"
  next_seg :: int
  mem_file :: "byte list option"
  proc_file :: "byte list option"
  files_writable :: bool
  proc_lock :: nat
  mem_lock :: nat

text \<open>The object of one process; a table is the segment it points to, \<open>None\<close> for a bad pointer.\<close>

record sched_mng =
  proc_num :: u32
  real_proc_num :: u32
  chunk_num :: u32
  chunk_size :: u32
  proc_shmid :: int
  mem_shmid :: int
  proc_table :: "int option"
  chunk_table :: "int option"

definition CScheduleManager :: "u32 \<Rightarrow> u32 \<Rightarrow> u32 \<Rightarrow> sched_mng" where
  "CScheduleManager procs chunks chsize =
     \<lparr>proc_num = procs, real_proc_num = 0, chunk_num = chunks, chunk_size = chsize,
      proc_shmid = 0, mem_shmid = 0, proc_table = None, chunk_table = None\<rparr>"

section \<open>Setting up\<close>

text \<open>\<^verbatim>\<open>fin >> id\<close>; a text that is no number gives 0.\<close>

definition read_id :: "byte list \<Rightarrow> int" where
  "read_id txt = (case get_int txt of Some (i, _) \<Rightarrow> i | None \<Rightarrow> 0)"

definition writeMemShmid :: "sched_mng \<Rightarrow> sched_sys \<Rightarrow> bool \<times> sched_sys" where
  "writeMemShmid m s =
     (if files_writable s then (True, s\<lparr>mem_file := Some (dec_int (mem_shmid m))\<rparr>) else (False, s))"

definition writeProShmid :: "sched_mng \<Rightarrow> sched_sys \<Rightarrow> bool \<times> sched_sys" where
  "writeProShmid m s =
     (if files_writable s then (True, s\<lparr>proc_file := Some (dec_int (proc_shmid m))\<rparr>) else (False, s))"

text \<open>A failed \<^verbatim>\<open>shmat\<close> returns -1, which is not the \<^verbatim>\<open>NULL\<close> the code compares with.\<close>

definition isMemExist :: "sched_mng \<Rightarrow> sched_sys \<Rightarrow> bool \<times> sched_mng" where
  "isMemExist m s =
     (case mem_file s of
        None \<Rightarrow> (False, m)
      | Some txt \<Rightarrow>
          (let i = read_id txt in
           (True, m\<lparr>mem_shmid := i, chunk_table := (if chunk_segs s i = None then None else Some i)\<rparr>)))"

definition isProExist :: "sched_mng \<Rightarrow> sched_sys \<Rightarrow> bool \<times> sched_mng" where
  "isProExist m s =
     (case proc_file s of
        None \<Rightarrow> (False, m)
      | Some txt \<Rightarrow>
          (let i = read_id txt in
           (True, m\<lparr>proc_shmid := i, proc_table := (if proc_segs s i = None then None else Some i)\<rparr>)))"

text \<open>A new segment is zero: \<open>FREE\<close> is 0.\<close>

definition zero_proc :: proc_item where
  "zero_proc = \<lparr>pseq = 0, ppid = 0, pstate = FREE, ppipe = zeros 1024\<rparr>"

definition fresh_chunk :: "sched_mng \<Rightarrow> nat \<Rightarrow> chunk_item" where
  "fresh_chunk m i = \<lparr>shm_seq = i, cstate = FREE, cdata = DATA_WAITING, csize = chunk_size m\<rparr>"

definition make_procs :: "sched_mng \<Rightarrow> sched_sys \<Rightarrow> sched_mng \<times> sched_sys" where
  "make_procs m s =
     (let i = next_seg s;
          s1 = s\<lparr>proc_segs := (proc_segs s)(i \<mapsto> replicate (unat (proc_num m)) zero_proc), next_seg := i + 1\<rparr>;
          m1 = m\<lparr>proc_shmid := i, proc_table := Some i\<rparr> in
      (m1, snd (writeProShmid m1 s1)))"

definition make_chunks :: "sched_mng \<Rightarrow> sched_sys \<Rightarrow> sched_mng \<times> sched_sys" where
  "make_chunks m s =
     (let i = next_seg s;
          s1 = s\<lparr>chunk_segs := (chunk_segs s)(i \<mapsto> map (fresh_chunk m) [0..<unat (chunk_num m)]), next_seg := i + 1\<rparr>;
          m1 = m\<lparr>mem_shmid := i, chunk_table := Some i\<rparr> in
      (m1, snd (writeMemShmid m1 s1)))"

text \<open>\<open>keys\<close> says whether \<^verbatim>\<open>ftok\<close> finds the two files, \<open>sems\<close> whether \<^verbatim>\<open>sem_open\<close> succeeds.\<close>

definition sched_init :: "bool \<times> bool \<Rightarrow> bool \<Rightarrow> sched_mng \<Rightarrow> sched_sys \<Rightarrow> int \<times> sched_mng \<times> sched_sys" where
  "sched_init keys sems m s =
     (if \<not> fst keys then (-1, m, s)
      else
        (let (there, m1) = isProExist m s;
             (m2, s2) = (if there then (m1, s) else make_procs m1 s) in
         if \<not> snd keys then (-1, m2, s2)
         else
           (let (there2, m3) = isMemExist m2 s2;
                (m4, s4) = (if there2 then (m3, s2) else make_chunks m3 s2) in
            (if sems then 0 else -1, m4, s4))))"

section \<open>Operations\<close>

definition procs_of :: "sched_mng \<Rightarrow> sched_sys \<Rightarrow> proc_item list option" where
  "procs_of m s = Option.bind (proc_table m) (proc_segs s)"

definition chunks_of :: "sched_mng \<Rightarrow> sched_sys \<Rightarrow> chunk_item list option" where
  "chunks_of m s = Option.bind (chunk_table m) (chunk_segs s)"

text \<open>\<^verbatim>\<open>sem_wait\<close>, the body, \<^verbatim>\<open>sem_post\<close>.\<close>

definition with_lock :: "nat \<Rightarrow> 'a option \<Rightarrow> 'a waits option" where
  "with_lock v body = (if v = 0 then Some Sleeps else map_option Goes body)"

text \<open>\<open>nattch\<close> is what \<^verbatim>\<open>shmctl\<close> reports; the result is the return value and \<^verbatim>\<open>seq\<close>.\<close>

definition register_proc :: "u32 \<Rightarrow> int \<Rightarrow> byte list \<Rightarrow> sched_mng \<Rightarrow> sched_sys \<Rightarrow>
    (int \<times> u32 option \<times> sched_mng \<times> sched_sys) waits option" where
  "register_proc nattch pid pipe m s =
     (let real = nattch - 1; m1 = m\<lparr>real_proc_num := real\<rparr> in
      if proc_num m < real then Some (Goes (-1, None, m1, s))
      else
        with_lock (proc_lock s)
          (do {
            i \<leftarrow> proc_table m;
            ps \<leftarrow> proc_segs s i;
            if length ps \<le> unat real then None
            else do {
              b \<leftarrow> wr_bytes (ppipe (ps ! unat real)) 0 (pipe @ [0]);
              Some (0, Some real, m1\<lparr>real_proc_num := real + 1\<rparr>,
                s\<lparr>proc_segs := (proc_segs s)(i \<mapsto> ps[unat real :=
                  \<lparr>pseq = real, ppid = pid, pstate = FREE, ppipe = b\<rparr>])\<rparr>)
            }
          }))"

text \<open>The first index below \<open>n\<close> whose entry fits; \<open>None\<close> inside: there is none.\<close>

fun scan :: "('a \<Rightarrow> bool) \<Rightarrow> 'a list \<Rightarrow> nat list \<Rightarrow> nat option option" where
  "scan fits tb [] = Some None"
| "scan fits tb (i # is) =
     (if length tb \<le> i then None else if fits (tb ! i) then Some (Some i) else scan fits tb is)"

definition get_free_proc :: "sched_mng \<Rightarrow> sched_sys \<Rightarrow> (int \<times> (nat \<times> int \<times> byte list) option) waits option" where
  "get_free_proc m s =
     with_lock (proc_lock s)
       (do {
         ps \<leftarrow> procs_of m s;
         r \<leftarrow> scan (\<lambda>p. pstate p = FREE) ps [0..<unat (proc_num m)];
         case r of
           None \<Rightarrow> Some (-1, None)
         | Some i \<Rightarrow> do { pipe \<leftarrow> c_str (ppipe (ps ! i)) 0; Some (0, Some (i, ppid (ps ! i), pipe)) }
       })"

definition free_chunk :: "chunk_item \<Rightarrow> bool" where
  "free_chunk c \<longleftrightarrow> cstate c = FREE \<and> cdata c = DATA_WAITING"

definition ready_chunk :: "chunk_item \<Rightarrow> bool" where
  "ready_chunk c \<longleftrightarrow> cstate c = FREE \<and> cdata c = DATA_READY"

definition find_chunk :: "(chunk_item \<Rightarrow> bool) \<Rightarrow> sched_mng \<Rightarrow> sched_sys \<Rightarrow> (int \<times> nat option) waits option" where
  "find_chunk fits m s =
     with_lock (mem_lock s)
       (do {
         cs \<leftarrow> chunks_of m s;
         r \<leftarrow> scan fits cs [0..<unat (chunk_num m)];
         Some (if r = None then -1 else 0, r)
       })"

definition get_free_mem :: "sched_mng \<Rightarrow> sched_sys \<Rightarrow> (int \<times> nat option) waits option" where
  "get_free_mem = find_chunk free_chunk"

definition get_data_ready_mem :: "sched_mng \<Rightarrow> sched_sys \<Rightarrow> (int \<times> nat option) waits option" where
  "get_data_ready_mem = find_chunk ready_chunk"

text \<open>Collecting all that fit.\<close>

fun collect :: "('a \<Rightarrow> bool) \<Rightarrow> ('a \<Rightarrow> nat \<Rightarrow> 'b) \<Rightarrow> 'a list \<Rightarrow> nat list \<Rightarrow> 'b list option" where
  "collect fits f tb [] = Some []"
| "collect fits f tb (i # is) =
     (if length tb \<le> i then None
      else map_option (\<lambda>xs. if fits (tb ! i) then f (tb ! i) i # xs else xs) (collect fits f tb is))"

definition get_free_proc_all :: "sched_mng \<Rightarrow> sched_sys \<Rightarrow> (int \<times> proc_item list) waits option" where
  "get_free_proc_all m s =
     with_lock (proc_lock s)
       (do {
         ps \<leftarrow> procs_of m s;
         xs \<leftarrow> collect (\<lambda>p. pstate p = FREE) (\<lambda>p i. p) ps [0..<unat (proc_num m)];
         Some (0, xs)
       })"

definition get_free_mem_all :: "sched_mng \<Rightarrow> sched_sys \<Rightarrow> (int \<times> nat list) waits option" where
  "get_free_mem_all m s =
     with_lock (mem_lock s)
       (do {
         cs \<leftarrow> chunks_of m s;
         xs \<leftarrow> collect free_chunk (\<lambda>c i. i) cs [0..<unat (chunk_num m)];
         Some (0, xs)
       })"

definition set_proc :: "u32 \<Rightarrow> run_state \<Rightarrow> sched_mng \<Rightarrow> sched_sys \<Rightarrow> (int \<times> sched_sys) waits option" where
  "set_proc sq st m s =
     (if proc_num m \<le> sq then Some (Goes (-1, s))
      else
        with_lock (proc_lock s)
          (do {
            i \<leftarrow> proc_table m;
            ps \<leftarrow> proc_segs s i;
            if length ps \<le> unat sq then None
            else Some (0, s\<lparr>proc_segs := (proc_segs s)(i \<mapsto> ps[unat sq := (ps ! unat sq)\<lparr>pstate := st\<rparr>])\<rparr>)
          }))"

definition set_chunk :: "u32 \<Rightarrow> (chunk_item \<Rightarrow> chunk_item) \<Rightarrow> sched_mng \<Rightarrow> sched_sys \<Rightarrow>
    (int \<times> sched_sys) waits option" where
  "set_chunk sq f m s =
     (if chunk_num m \<le> sq then Some (Goes (-1, s))
      else
        with_lock (mem_lock s)
          (do {
            i \<leftarrow> chunk_table m;
            cs \<leftarrow> chunk_segs s i;
            if length cs \<le> unat sq then None
            else Some (0, s\<lparr>chunk_segs := (chunk_segs s)(i \<mapsto> cs[unat sq := f (cs ! unat sq)])\<rparr>)
          }))"

definition set_mem_run_state :: "u32 \<Rightarrow> run_state \<Rightarrow> sched_mng \<Rightarrow> sched_sys \<Rightarrow> (int \<times> sched_sys) waits option" where
  "set_mem_run_state sq st = set_chunk sq (\<lambda>c. c\<lparr>cstate := st\<rparr>)"

definition set_mem_data_state :: "u32 \<Rightarrow> data_state \<Rightarrow> sched_mng \<Rightarrow> sched_sys \<Rightarrow> (int \<times> sched_sys) waits option" where
  "set_mem_data_state sq st = set_chunk sq (\<lambda>c. c\<lparr>cdata := st\<rparr>)"

text \<open>The dumps copy the registered processes and all chunks.\<close>

definition dump_proc_table :: "sched_mng \<Rightarrow> sched_sys \<Rightarrow> (int \<times> proc_item list) waits option" where
  "dump_proc_table m s =
     with_lock (proc_lock s)
       (do {
         ps \<leftarrow> procs_of m s;
         xs \<leftarrow> collect (\<lambda>p. True) (\<lambda>p i. p) ps [0..<unat (real_proc_num m)];
         Some (0, xs)
       })"

definition dump_mem_table :: "sched_mng \<Rightarrow> sched_sys \<Rightarrow> (int \<times> chunk_item list) waits option" where
  "dump_mem_table m s =
     with_lock (mem_lock s)
       (do {
         cs \<leftarrow> chunks_of m s;
         xs \<leftarrow> collect (\<lambda>c. True) (\<lambda>c i. c) cs [0..<unat (chunk_num m)];
         Some (0, xs)
       })"

text \<open>The destructor detaches and removes a segment nobody is attached to any more.\<close>

definition sched_close :: "nat \<Rightarrow> nat \<Rightarrow> sched_mng \<Rightarrow> sched_sys \<Rightarrow> sched_sys" where
  "sched_close proc_nattch mem_nattch m s =
     (let s1 = (if proc_nattch = 0 then s\<lparr>proc_segs := (proc_segs s)(proc_shmid m := None)\<rparr> else s) in
      if mem_nattch = 0 then s1\<lparr>chunk_segs := (chunk_segs s1)(mem_shmid m := None)\<rparr> else s1)"

section \<open>Managers that are set up\<close>

definition managed :: "sched_mng \<Rightarrow> sched_sys \<Rightarrow> bool" where
  "managed m s \<longleftrightarrow> 0 < proc_lock s \<and> 0 < mem_lock s
     \<and> (\<exists>ps. procs_of m s = Some ps \<and> length ps = unat (proc_num m) \<and> (\<forall>p \<in> set ps. length (ppipe p) = 1024))
     \<and> (\<exists>cs. chunks_of m s = Some cs \<and> length cs = unat (chunk_num m))"

lemma scan_find:
  assumes "\<forall>i \<in> set is. i < length tb"
  shows "scan fits tb is = Some (List.find (\<lambda>i. fits (tb ! i)) is)"
  using assms by (induction "is") auto

lemma collect_filter:
  assumes "\<forall>i \<in> set is. i < length tb"
  shows "collect fits f tb is = Some (map (\<lambda>i. f (tb ! i) i) (filter (\<lambda>i. fits (tb ! i)) is))"
  using assms by (induction "is") auto

lemma find_chunk_managed:
  assumes "managed m s" "chunks_of m s = Some cs"
  shows "find_chunk fits m s = Some (Goes (case List.find (\<lambda>i. fits (cs ! i)) [0..<unat (chunk_num m)] of
    None \<Rightarrow> (-1, None) | Some i \<Rightarrow> (0, Some i)))"
  using assms scan_find [of "[0..<unat (chunk_num m)]" cs fits]
  by (auto simp: find_chunk_def with_lock_def managed_def split: option.split)

lemma set_chunk_managed:
  assumes m: "managed m s" "chunks_of m s = Some cs" and sq: "sq < chunk_num m"
  shows "\<exists>s'. set_chunk sq f m s = Some (Goes (0, s')) \<and> managed m s'
    \<and> chunks_of m s' = Some (cs[unat sq := f (cs ! unat sq)]) \<and> procs_of m s' = procs_of m s"
proof -
  obtain i where i: "chunk_table m = Some i" "chunk_segs s i = Some cs"
    using m(2) by (auto simp: chunks_of_def split: Option.bind_splits)
  have len: "length cs = unat (chunk_num m)" using m by (auto simp: managed_def)
  have lt: "unat sq < unat (chunk_num m)" using sq by (simp add: word_less_nat_alt)
  let ?s = "s\<lparr>chunk_segs := (chunk_segs s)(i \<mapsto> cs[unat sq := f (cs ! unat sq)])\<rparr>"
  have "set_chunk sq f m s = Some (Goes (0, ?s))"
    using m(1) sq i len lt by (simp add: set_chunk_def with_lock_def managed_def)
  moreover have "chunks_of m ?s = Some (cs[unat sq := f (cs ! unat sq)])" "procs_of m ?s = procs_of m s"
    using i by (simp_all add: chunks_of_def procs_of_def)
  moreover have "managed m ?s"
    using m(1) calculation(2,3) len by (auto simp: managed_def)
  ultimately show ?thesis by blast
qed

end
