(* ===== verification/ScheduleProps.thy ===== *)
theory ScheduleProps
  imports Schedule
begin

text \<open>
  Properties of the schedule manager: a fresh table, the life of a chunk, registering, and
  what happens when the id file outlives its segment.
\<close>

definition sample_mng :: sched_mng where
  "sample_mng = CScheduleManager 2 3 4096"

definition empty_sys :: sched_sys where
  "empty_sys = \<lparr>proc_segs = Map.empty, chunk_segs = Map.empty, next_seg = 1, mem_file = None, proc_file = None,
     files_writable = True, proc_lock = 1, mem_lock = 1\<rparr>"

section \<open>A fresh system\<close>

lemma find_upt_0: "0 < n \<Longrightarrow> f 0 \<Longrightarrow> List.find f [0..<n] = Some 0"
  by (simp add: upt_conv_Cons)

lemma make_procs_segs:
  "\<exists>s'. make_procs m s = (m\<lparr>proc_shmid := next_seg s, proc_table := Some (next_seg s)\<rparr>, s')
    \<and> proc_segs s' = (proc_segs s)(next_seg s \<mapsto> replicate (unat (proc_num m)) zero_proc)
    \<and> chunk_segs s' = chunk_segs s \<and> mem_file s' = mem_file s
    \<and> proc_lock s' = proc_lock s \<and> mem_lock s' = mem_lock s"
  by (simp add: make_procs_def Let_def writeProShmid_def)

lemma make_chunks_segs:
  "\<exists>s'. make_chunks m s = (m\<lparr>mem_shmid := next_seg s, chunk_table := Some (next_seg s)\<rparr>, s')
    \<and> chunk_segs s' = (chunk_segs s)(next_seg s \<mapsto> map (fresh_chunk m) [0..<unat (chunk_num m)])
    \<and> proc_segs s' = proc_segs s \<and> proc_lock s' = proc_lock s \<and> mem_lock s' = mem_lock s"
  by (simp add: make_chunks_def Let_def writeMemShmid_def)

lemma sched_init_fresh:
  assumes "mem_file s = None" "proc_file s = None" "0 < proc_lock s" "0 < mem_lock s"
  shows "\<exists>m' s'. sched_init (True, True) True m s = (0, m', s') \<and> managed m' s'
    \<and> procs_of m' s' = Some (replicate (unat (proc_num m)) zero_proc)
    \<and> chunks_of m' s' = Some (map (fresh_chunk m) [0..<unat (chunk_num m)])
    \<and> proc_num m' = proc_num m \<and> chunk_num m' = chunk_num m"
proof -
  let ?m1 = "m\<lparr>proc_shmid := next_seg s, proc_table := Some (next_seg s)\<rparr>"
  obtain s1 where 1: "make_procs m s = (?m1, s1)"
    "proc_segs s1 = (proc_segs s)(next_seg s \<mapsto> replicate (unat (proc_num m)) zero_proc)"
    "mem_file s1 = None" "proc_lock s1 = proc_lock s" "mem_lock s1 = mem_lock s"
    using make_procs_segs [of m s] assms(1) by auto
  let ?m2 = "?m1\<lparr>mem_shmid := next_seg s1, chunk_table := Some (next_seg s1)\<rparr>"
  have "fresh_chunk ?m1 = fresh_chunk m" by (rule ext) (simp add: fresh_chunk_def)
  then obtain s2 where 2: "make_chunks ?m1 s1 = (?m2, s2)"
    "chunk_segs s2 = (chunk_segs s1)(next_seg s1 \<mapsto> map (fresh_chunk m) [0..<unat (chunk_num m)])"
    "proc_segs s2 = proc_segs s1" "proc_lock s2 = proc_lock s" "mem_lock s2 = mem_lock s"
    using make_chunks_segs [of ?m1 s1] 1(4,5) by auto
  have i: "sched_init (True, True) True m s = (0, ?m2, s2)"
    using assms(2) 1(1,3) 2(1) by (simp add: sched_init_def isProExist_def isMemExist_def)
  have t: "procs_of ?m2 s2 = Some (replicate (unat (proc_num m)) zero_proc)"
    "chunks_of ?m2 s2 = Some (map (fresh_chunk m) [0..<unat (chunk_num m)])"
    using 1 2 by (simp_all add: procs_of_def chunks_of_def)
  then have "managed ?m2 s2"
    using assms(3,4) 2(4,5) by (simp add: managed_def zero_proc_def)
  then show ?thesis using i t by (intro exI [of _ ?m2] exI [of _ s2]) simp
qed

text \<open>A new table of processes is all zeros, and \<open>FREE\<close> is 0: with no process registered,
  \<open>get_free_proc\<close> succeeds and hands out slot 0 with pid 0 and an empty pipe name.\<close>

theorem unregistered_slot_is_free:
  assumes "mem_file s = None" "proc_file s = None" "0 < proc_lock s" "0 < mem_lock s" "0 < proc_num m"
  shows "\<exists>m' s'. sched_init (True, True) True m s = (0, m', s')
    \<and> get_free_proc m' s' = Some (Goes (0, Some (0, 0, [])))"
proof -
  obtain m' s' where i: "sched_init (True, True) True m s = (0, m', s')" "managed m' s'"
    "procs_of m' s' = Some (replicate (unat (proc_num m)) zero_proc)" "proc_num m' = proc_num m"
    using sched_init_fresh [OF assms(1-4), of m] by blast
  let ?ps = "replicate (unat (proc_num m)) zero_proc"
  have n: "0 < unat (proc_num m)" using assms(5) by (simp add: unat_gt_0 word_gt_0)
  have "scan (\<lambda>p. pstate p = FREE) ?ps [0..<unat (proc_num m)]
      = Some (List.find (\<lambda>i. pstate (?ps ! i) = FREE) [0..<unat (proc_num m)])"
    by (rule scan_find) simp
  moreover have "List.find (\<lambda>i. pstate (?ps ! i) = FREE) [0..<unat (proc_num m)] = Some 0"
    using n by (intro find_upt_0) (simp_all add: zero_proc_def)
  moreover have "zeros 1024 = 0 # zeros 1023" using zeros_Suc [of 1023] by simp
  then have "c_str (ppipe (?ps ! 0)) 0 = Some []"
    using n by (simp add: zero_proc_def c_str_def)
  moreover have "0 < proc_lock s'" using i(2) by (simp add: managed_def)
  ultimately have "get_free_proc m' s' = Some (Goes (0, Some (0, 0, [])))"
    using i(3,4) n by (simp add: get_free_proc_def with_lock_def zero_proc_def)
  then show ?thesis using i(1) by blast
qed

theorem unregistered_slot_is_free_witness:
  "\<exists>m' s'. sched_init (True, True) True sample_mng empty_sys = (0, m', s')
    \<and> get_free_proc m' s' = Some (Goes (0, Some (0, 0, [])))"
  by (rule unregistered_slot_is_free) (simp_all add: empty_sys_def sample_mng_def CScheduleManager_def)

section \<open>Chunks\<close>

text \<open>C25: On a fresh system the first chunk is handed out as free and none has data; asking does not
  reserve it, but once its data is marked ready it is the one \<open>get_data_ready_mem\<close> finds and the
  next free chunk is the second.\<close>

theorem chunk_lifecycle:
  assumes "mem_file s = None" "proc_file s = None" "0 < proc_lock s" "0 < mem_lock s" "2 \<le> unat (chunk_num m)"
  shows "\<exists>m' s1 s2. sched_init (True, True) True m s = (0, m', s1)
    \<and> get_free_mem m' s1 = Some (Goes (0, Some 0)) \<and> get_data_ready_mem m' s1 = Some (Goes (-1, None))
    \<and> set_mem_data_state 0 DATA_READY m' s1 = Some (Goes (0, s2))
    \<and> get_data_ready_mem m' s2 = Some (Goes (0, Some 0)) \<and> get_free_mem m' s2 = Some (Goes (0, Some 1))"
proof -
  obtain m' s1 where i: "sched_init (True, True) True m s = (0, m', s1)" "managed m' s1"
    "chunks_of m' s1 = Some (map (fresh_chunk m) [0..<unat (chunk_num m)])" "chunk_num m' = chunk_num m"
    using sched_init_fresh [OF assms(1-4), of m] by blast
  let ?cs = "map (fresh_chunk m) [0..<unat (chunk_num m)]"
  let ?ds = "?cs[0 := (?cs ! 0)\<lparr>cdata := DATA_READY\<rparr>]"
  have n: "0 < unat (chunk_num m)" using assms(5) by simp
  then have "0 < chunk_num m'" using i(4) by (simp add: unat_gt_0 word_gt_0)
  from set_chunk_managed [OF i(2,3) this, of "\<lambda>c. c\<lparr>cdata := DATA_READY\<rparr>"] obtain s2 where
    s2: "set_mem_data_state 0 DATA_READY m' s1 = Some (Goes (0, s2))" "managed m' s2" "chunks_of m' s2 = Some ?ds"
    by (auto simp: set_mem_data_state_def)
  have up: "[0..<unat (chunk_num m)] = 0 # 1 # [2..<unat (chunk_num m)]"
    using assms(5) by (simp add: upt_conv_Cons Suc_le_eq numeral_2_eq_2)
  have "List.find (\<lambda>i. free_chunk (?cs ! i)) [0..<unat (chunk_num m)] = Some 0"
    using n by (intro find_upt_0) (simp_all add: free_chunk_def fresh_chunk_def)
  moreover have "List.find (\<lambda>i. ready_chunk (?cs ! i)) [0..<unat (chunk_num m)] = None"
    by (auto simp: find_None_iff ready_chunk_def fresh_chunk_def)
  moreover have "List.find (\<lambda>i. ready_chunk (?ds ! i)) [0..<unat (chunk_num m)] = Some 0"
    using n by (intro find_upt_0) (simp_all add: ready_chunk_def fresh_chunk_def)
  moreover have "List.find (\<lambda>i. free_chunk (?ds ! i)) [0..<unat (chunk_num m)] = Some 1"
    unfolding up using assms(5) by (simp add: free_chunk_def fresh_chunk_def nth_list_update)
  ultimately have "get_free_mem m' s1 = Some (Goes (0, Some 0))" "get_data_ready_mem m' s1 = Some (Goes (-1, None))"
    "get_data_ready_mem m' s2 = Some (Goes (0, Some 0))" "get_free_mem m' s2 = Some (Goes (0, Some 1))"
    using find_chunk_managed [OF i(2,3)] find_chunk_managed [OF s2(2,3)] i(4)
    by (simp_all add: get_free_mem_def get_data_ready_mem_def)
  then show ?thesis using i(1) s2(1) by blast
qed

theorem chunk_lifecycle_witness:
  "\<exists>m' s1 s2. sched_init (True, True) True sample_mng empty_sys = (0, m', s1)
    \<and> get_free_mem m' s1 = Some (Goes (0, Some 0)) \<and> get_data_ready_mem m' s1 = Some (Goes (-1, None))
    \<and> set_mem_data_state 0 DATA_READY m' s1 = Some (Goes (0, s2))
    \<and> get_data_ready_mem m' s2 = Some (Goes (0, Some 0)) \<and> get_free_mem m' s2 = Some (Goes (0, Some 1))"
  by (rule chunk_lifecycle) (simp_all add: empty_sys_def sample_mng_def CScheduleManager_def)

section \<open>Registering\<close>

text \<open>With a pipe name that fits, \<open>register_proc\<close> writes outside of its table exactly when the
  number of attached processes is one more than it has slots: the check compares with \<^verbatim>\<open>>\<close>.
  (A segment nobody is attached to counts as too many.)\<close>

theorem register_overflow_iff:
  assumes "managed m s" "length pipe < 1024"
  shows "register_proc nattch p pipe m s = None \<longleftrightarrow> nattch - 1 = proc_num m"
proof -
  obtain i ps where i: "proc_table m = Some i" "proc_segs s i = Some ps" "length ps = unat (proc_num m)"
    "\<forall>p \<in> set ps. length (ppipe p) = 1024"
    using assms(1) by (auto simp: managed_def procs_of_def split: Option.bind_splits)
  have l: "0 < proc_lock s" using assms(1) by (simp add: managed_def)
  consider "proc_num m < nattch - 1" | "nattch - 1 = proc_num m" | "nattch - 1 < proc_num m"
    by (meson linorder_less_linear)
  then show ?thesis
  proof cases
    case 1
    then show ?thesis by (auto simp: register_proc_def)
  next
    case 2
    then show ?thesis using i l by (simp add: register_proc_def with_lock_def)
  next
    case 3
    then have lt: "unat (nattch - 1) < length ps" using i(3) by (simp add: word_less_nat_alt)
    then have "length (ppipe (ps ! unat (nattch - 1))) = 1024" using i(4) by simp
    then have "wr_bytes (ppipe (ps ! unat (nattch - 1))) 0 (pipe @ [0]) \<noteq> None"
      using assms(2) by (simp add: wr_bytes_def)
    then obtain b where "wr_bytes (ppipe (ps ! unat (nattch - 1))) 0 (pipe @ [0]) = Some b" by blast
    then have "register_proc nattch p pipe m s \<noteq> None"
      using 3 i l lt by (simp add: register_proc_def with_lock_def Let_def)
    then show ?thesis using 3 by auto
  qed
qed

theorem register_overflow_iff_witness:
  "\<exists>m s. sched_init (True, True) True sample_mng empty_sys = (0, m, s)
    \<and> (register_proc 3 77 [0x70] m s = None \<longleftrightarrow> (3 :: u32) - 1 = proc_num m)"
proof -
  obtain m s where "sched_init (True, True) True sample_mng empty_sys = (0, m, s)" "managed m s"
    using sched_init_fresh [of empty_sys sample_mng] by (auto simp: empty_sys_def)
  then show ?thesis using register_overflow_iff [of m s "[0x70]" 3 77] by auto
qed

section \<open>Stale files\<close>

text \<open>When the id file names a segment that is gone, initialisation succeeds: the failed
  attachment is compared with \<^verbatim>\<open>NULL\<close> instead of -1. The first search for a free chunk then
  reads from an invalid address.\<close>

theorem stale_file_unnoticed:
  assumes "mem_file s = Some conf" "chunk_segs s (read_id conf) = None" "0 < mem_lock s"
  shows "\<exists>m' s'. sched_init (True, True) True m s = (0, m', s') \<and> get_free_mem m' s' = None"
proof -
  obtain there m0 where p: "isProExist m s = (there, m0)" by (cases "isProExist m s")
  obtain m1 s1 where 1: "(if there then (m0, s) else make_procs m0 s) = (m1, s1)"
    and s1: "mem_file s1 = Some conf" "chunk_segs s1 = chunk_segs s" "mem_lock s1 = mem_lock s"
    using make_procs_segs [of m0 s] assms(1) by (cases there) auto
  let ?m = "m1\<lparr>mem_shmid := read_id conf, chunk_table := None\<rparr>"
  have "isMemExist m1 s1 = (True, ?m)"
    using s1(1,2) assms(2) by (simp add: isMemExist_def Let_def)
  then have "sched_init (True, True) True m s = (0, ?m, s1)"
    using p 1 by (simp add: sched_init_def)
  moreover have "get_free_mem ?m s1 = None"
    using assms(3) s1(3) by (simp add: get_free_mem_def find_chunk_def with_lock_def chunks_of_def)
  ultimately show ?thesis by blast
qed

theorem stale_file_unnoticed_witness:
  "\<exists>m' s'. sched_init (True, True) True sample_mng (empty_sys\<lparr>mem_file := Some (ascii ''77'')\<rparr>) = (0, m', s')
    \<and> get_free_mem m' s' = None"
  by (rule stale_file_unnoticed [where conf = "ascii ''77''"])
    (simp_all add: empty_sys_def sample_mng_def CScheduleManager_def)

end
