(* ===== verification/Tools.thy ===== *)
theory Tools
  imports CText
begin

text \<open>
  The generator of test files (\<^verbatim>\<open>http_server/src/tools/make_file.c\<close>) and the log lines of both
  halves of the repository (\<^verbatim>\<open>w_msg.cpp\<close>). \<open>None\<close> is undefined behaviour.
\<close>

section \<open>The file generator\<close>

text \<open>
  What the library calls do: the \<open>n\<close>-th \<^verbatim>\<open>rand()\<close>, whether a path can be opened for writing, and
  the memory \<^verbatim>\<open>malloc\<close> gives, which is not initialised.
\<close>

record tool_env =
  rnd :: "nat \<Rightarrow> int"
  can_open :: "byte list \<Rightarrow> bool"
  malloc :: "nat \<Rightarrow> byte list option"

type_synonym files = "byte list \<rightharpoonup> byte list"

definition path_text :: "byte list \<Rightarrow> nat \<Rightarrow> byte list" where
  "path_text dir i = dir @ 0x2f # dec_int (int i)"

text \<open>\<^verbatim>\<open>rand() % max_file_size + min_file_size\<close>; \<^verbatim>\<open>rand()\<close> is not negative.\<close>

definition file_size :: "int \<Rightarrow> int \<Rightarrow> int \<Rightarrow> int option" where
  "file_size r min_file_size max_file_size =
     (let cnt = r mod \<bar>max_file_size\<bar> + min_file_size in
      if max_file_size = 0 \<or> \<not> int_range cnt then None else Some cnt)"

text \<open>One file; \<^verbatim>\<open>sprintf\<close> writes into 256 bytes. A negative count is a huge \<^verbatim>\<open>size_t\<close>.\<close>

definition write_one :: "tool_env \<Rightarrow> int \<Rightarrow> int \<Rightarrow> byte list \<Rightarrow> nat \<Rightarrow> files \<Rightarrow> (unit outcome \<times> files) option" where
  "write_one env min_file_size max_file_size dir i fs =
     do {
       b \<leftarrow> wr_bytes (zeros 256) 0 (path_text dir i @ [0]);
       filename \<leftarrow> c_str b 0;
       if \<not> can_open env filename then Some (Exits 1, fs)
       else do {
         cnt \<leftarrow> file_size (rnd env i) min_file_size max_file_size;
         Some (case malloc env (nat (cnt mod 2 ^ 64)) of
             None \<Rightarrow> (Exits 1, fs(filename \<mapsto> []))
           | Some p \<Rightarrow> (Returns (), fs(filename \<mapsto> p)))
       }
     }"

fun write_each :: "tool_env \<Rightarrow> int \<Rightarrow> int \<Rightarrow> byte list \<Rightarrow> nat list \<Rightarrow> files \<Rightarrow> (unit outcome \<times> files) option" where
  "write_each env mn mx dir [] fs = Some (Returns (), fs)"
| "write_each env mn mx dir (i # is) fs =
     (case write_one env mn mx dir i fs of
        Some (Returns _, fs') \<Rightarrow> write_each env mn mx dir is fs'
      | r \<Rightarrow> r)"

definition write_random :: "tool_env \<Rightarrow> int \<Rightarrow> int \<Rightarrow> int \<Rightarrow> byte list \<Rightarrow> files \<Rightarrow> (unit outcome \<times> files) option" where
  "write_random env file_cnt min_file_size max_file_size dir fs =
     write_each env min_file_size max_file_size dir [0..<nat file_cnt] fs"

text \<open>The lines printed.\<close>

definition print_filepath :: "int \<Rightarrow> byte list \<Rightarrow> byte list list" where
  "print_filepath file_cnt dir = map (\<lambda>i. path_text dir i @ [newline]) [0..<nat file_cnt]"

definition atoi_arg :: "byte list \<Rightarrow> int option" where
  "atoi_arg s = (if int_range (atoi s) then Some (atoi s) else None)"

definition make_file_main :: "tool_env \<Rightarrow> byte list list \<Rightarrow> files \<Rightarrow> ((byte list list) outcome \<times> files) option" where
  "make_file_main env argv fs =
     (if length argv \<noteq> 5 then Some (Exits 1, fs)
      else do {
        file_cnt \<leftarrow> atoi_arg (argv ! 1);
        min_file_size \<leftarrow> atoi_arg (argv ! 2);
        max_file_size \<leftarrow> atoi_arg (argv ! 3);
        (r, fs') \<leftarrow> write_random env file_cnt min_file_size max_file_size (argv ! 4) fs;
        Some (case r of
            Exits x \<Rightarrow> (Exits x, fs')
          | Returns _ \<Rightarrow> (Returns (print_filepath file_cnt (argv ! 4)), fs'))
      })"

section \<open>Log lines\<close>

text \<open>\<^verbatim>\<open>W_Msg::CurDate\<close>: the newline at the end of \<^verbatim>\<open>ctime\<close> becomes a tab.\<close>

definition CurDate :: "byte list \<Rightarrow> byte list" where
  "CurDate ctime = butlast ctime @ [0x09]"

text \<open>\<^verbatim>\<open>W_Msg::CurLine\<close>: \<^verbatim>\<open>sprintf\<close> into a buffer of 1024 bytes.\<close>

definition CurLine :: "byte list \<Rightarrow> byte list \<Rightarrow> int \<Rightarrow> byte list option" where
  "CurLine funcName file line =
     (let t = 0x09 # ascii ''FUN:'' @ funcName @ ascii '' FILE:'' @ file @ ascii '' LINE:'' @ dec_int line @ [0x0a] in
      do { b \<leftarrow> wr_bytes (zeros 1024) 0 (t @ [0]); c_str b 0 })"

text \<open>The class of the transfer programs writes whole lines to one of two streams.\<close>

datatype stream = Cout | Cerr

definition msg_CurDate :: "byte list \<Rightarrow> byte list" where
  "msg_CurDate ctime = butlast ctime @ [0x09]"

definition msg_Error :: "byte list \<Rightarrow> byte list \<Rightarrow> stream \<times> byte list" where
  "msg_Error ctime msg = (Cerr, msg_CurDate ctime @ msg @ [newline])"

definition msg_Debug :: "byte list \<Rightarrow> byte list \<Rightarrow> stream \<times> byte list" where
  "msg_Debug ctime msg = (Cout, msg_CurDate ctime @ msg @ [newline])"

definition msg_Fatal :: "byte list \<Rightarrow> byte list \<Rightarrow> stream \<times> byte list" where
  "msg_Fatal ctime msg = (Cerr, msg_CurDate ctime @ msg @ [newline])"

section \<open>Names and sizes\<close>

lemma length_path_text:
  assumes "i < 2 ^ 31"
  shows "length (path_text dir i) \<le> length dir + 11"
proof -
  have "length (dec_nat i) \<le> 10" using dec_nat_length [of i 10] assms by simp
  then show ?thesis by (simp add: path_text_def dec_int_def)
qed

lemma path_text_inj: "path_text dir i = path_text dir j \<Longrightarrow> i = j"
proof -
  assume "path_text dir i = path_text dir j"
  then have "atoi (dec_int (int i)) = atoi (dec_int (int j))" by (simp add: path_text_def)
  then show ?thesis using atoi_dec_int [of "[]"] by simp
qed

text \<open>A library that works: every file can be opened, and memory is there for every size of an int.\<close>

definition tools_work :: "tool_env \<Rightarrow> bool" where
  "tools_work env \<longleftrightarrow> (\<forall>n. 0 \<le> rnd env n) \<and> (\<forall>p. can_open env p)
     \<and> (\<forall>n < 2 ^ 31. \<exists>p. malloc env n = Some p \<and> length p = n)"

lemma write_one_works:
  assumes "tools_work env" "0 \<notin> set dir" "length dir \<le> 244" "i < 2 ^ 31" "0 \<le> mn" "0 < mx" "mn + mx \<le> 2 ^ 31"
  shows "\<exists>p. write_one env mn mx dir i fs = Some (Returns (), fs(path_text dir i \<mapsto> p))
    \<and> int (length p) = rnd env i mod mx + mn"
proof -
  let ?c = "rnd env i mod mx + mn"
  have r: "0 \<le> rnd env i mod mx" "rnd env i mod mx < mx" using assms(6) by simp_all
  then have c: "0 \<le> ?c" "?c < 2 ^ 31" using assms(5,7) by linarith+
  then have "?c mod 2 ^ 64 = ?c" by (intro mod_pos_pos_trivial) simp_all
  moreover have "nat ?c < 2 ^ 31" using c by (simp add: nat_less_iff)
  ultimately obtain p where p: "malloc env (nat (?c mod 2 ^ 64)) = Some p" "length p = nat ?c"
    using assms(1) unfolding tools_work_def by metis
  have s: "file_size (rnd env i) mn mx = Some ?c"
    using c assms(6) by (simp add: file_size_def int_range_def)
  have len: "length (path_text dir i) + 1 \<le> 256" using length_path_text [OF assms(4), of dir] assms(3) by linarith
  have n: "0 \<notin> set (path_text dir i)" using assms(2) dec_int_no_nul by (simp add: path_text_def)
  have "wr_bytes (zeros 256) 0 (path_text dir i @ [0]) = Some (path_text dir i @ 0 # zeros (256 - length (path_text dir i) - 1))"
    using len by (simp add: wr_bytes_def)
  then have "write_one env mn mx dir i fs = Some (Returns (), fs(path_text dir i \<mapsto> p))"
    using assms(1) c_str_app0 [OF n] s p(1) by (simp add: write_one_def tools_work_def)
  then show ?thesis using p(2) c(1) by auto
qed

lemma write_each_works:
  assumes "tools_work env" "0 \<notin> set dir" "length dir \<le> 244" "0 \<le> mn" "0 < mx" "mn + mx \<le> 2 ^ 31"
    and "\<forall>i \<in> set is. i < 2 ^ 31" "distinct is"
  shows "\<exists>fs'. write_each env mn mx dir is fs = Some (Returns (), fs')
    \<and> (\<forall>i \<in> set is. \<exists>p. fs' (path_text dir i) = Some p \<and> int (length p) = rnd env i mod mx + mn)
    \<and> (\<forall>q. q \<notin> path_text dir ` set is \<longrightarrow> fs' q = fs q)"
  using assms(7,8)
proof (induction "is" arbitrary: fs)
  case (Cons i "is")
  obtain p where p: "write_one env mn mx dir i fs = Some (Returns (), fs(path_text dir i \<mapsto> p))"
    "int (length p) = rnd env i mod mx + mn"
    using write_one_works [OF assms(1-3) _ assms(4-6), of i] Cons.prems(1) by auto
  obtain fs' where f: "write_each env mn mx dir is (fs(path_text dir i \<mapsto> p)) = Some (Returns (), fs')"
    "\<forall>j \<in> set is. \<exists>p. fs' (path_text dir j) = Some p \<and> int (length p) = rnd env j mod mx + mn"
    "\<forall>q. q \<notin> path_text dir ` set is \<longrightarrow> fs' q = (fs(path_text dir i \<mapsto> p)) q"
    using Cons.IH Cons.prems by fastforce
  have "path_text dir i \<notin> path_text dir ` set is" using Cons.prems(2) path_text_inj by fastforce
  then have "fs' (path_text dir i) = Some p" using f(3) by simp
  then show ?case using p f by (intro exI [of _ fs']) auto
qed simp

text \<open>C35: Called with a count, a least and a largest size, and a directory, the file generator makes every file,
  prints their paths and leaves all other files alone; a file's size is at least the least size,
  but it is only bounded by the sum of the two sizes: the least size is added to a random number
  below the largest.\<close>

theorem generated_files:
  assumes "tools_work env" "0 \<notin> set dir" "length dir \<le> 244"
    and "int_range cnt" "0 \<le> mn" "0 < mx" "mn + mx < 2 ^ 31"
  shows "\<exists>fs'. make_file_main env [prog, dec_int cnt, dec_int mn, dec_int mx, dir] fs
      = Some (Returns (map (\<lambda>i. path_text dir i @ [newline]) [0..<nat cnt]), fs')
    \<and> (\<forall>i < nat cnt. \<exists>p. fs' (path_text dir i) = Some p \<and> int (length p) = rnd env i mod mx + mn
        \<and> mn \<le> int (length p) \<and> int (length p) < mn + mx)
    \<and> (\<forall>q. q \<notin> path_text dir ` {0..<nat cnt} \<longrightarrow> fs' q = fs q)"
proof -
  have a: "atoi_arg (dec_int v) = Some v" if "int_range v" for v
    using that atoi_dec_int [of "[]" v] by (simp add: atoi_arg_def)
  have r: "int_range mn" "int_range mx" using assms(5-7) by (auto simp: int_range_def)
  have "\<forall>i \<in> set [0..<nat cnt]. i < 2 ^ 31" using assms(4) by (auto simp: int_range_def)
  moreover have "mn + mx \<le> 2 ^ 31" using assms(7) by simp
  ultimately obtain fs' where f: "write_each env mn mx dir [0..<nat cnt] fs = Some (Returns (), fs')"
    "\<forall>i \<in> set [0..<nat cnt]. \<exists>p. fs' (path_text dir i) = Some p \<and> int (length p) = rnd env i mod mx + mn"
    "\<forall>q. q \<notin> path_text dir ` set [0..<nat cnt] \<longrightarrow> fs' q = fs q"
    using write_each_works [OF assms(1-3,5,6), of "[0..<nat cnt]" fs] by auto
  have m: "0 \<le> rnd env i mod mx" "rnd env i mod mx < mx" for i using assms(6) by simp_all
  have "make_file_main env [prog, dec_int cnt, dec_int mn, dec_int mx, dir] fs
      = Some (Returns (map (\<lambda>i. path_text dir i @ [newline]) [0..<nat cnt]), fs')"
    using a [OF assms(4)] a [OF r(1)] a [OF r(2)] f(1)
    by (simp add: make_file_main_def write_random_def print_filepath_def)
  moreover have "\<exists>p. fs' (path_text dir i) = Some p \<and> int (length p) = rnd env i mod mx + mn
        \<and> mn \<le> int (length p) \<and> int (length p) < mn + mx" if i: "i < nat cnt" for i
  proof -
    obtain p where "fs' (path_text dir i) = Some p" "int (length p) = rnd env i mod mx + mn"
      using bspec [OF f(2), of i] i by auto
    then show ?thesis using m [of i] by auto
  qed
  ultimately show ?thesis using f(3) by auto
qed

definition all_nines :: tool_env where
  "all_nines = \<lparr>rnd = \<lambda>_. 9, can_open = \<lambda>_. True, malloc = \<lambda>n. Some (zeros n)\<rparr>"

theorem generated_files_witness:
  "\<exists>fs'. make_file_main all_nines [[], dec_int 2, dec_int 5, dec_int 10, [0x64]] Map.empty
      = Some (Returns (map (\<lambda>i. path_text [0x64] i @ [newline]) [0..<nat 2]), fs')
    \<and> (\<forall>i < nat 2. \<exists>p. fs' (path_text [0x64] i) = Some p \<and> int (length p) = rnd all_nines i mod 10 + 5
        \<and> 5 \<le> int (length p) \<and> int (length p) < 5 + 10)
    \<and> (\<forall>q. q \<notin> path_text [0x64] ` {0..<nat 2} \<longrightarrow> fs' q = Map.empty q)"
  by (rule generated_files) (simp_all add: tools_work_def all_nines_def int_range_def)

end
