(* ===== verification/Spec2Isabelle.thy ===== *)
theory Spec2Isabelle
  imports DnsService UdpRun HttpProps HttpClients BakServer BakEpoll TableEnd ReadErrors ListWalk
    FileWriter RouteTests ScheduleProps CircList Tools
begin

text \<open>
  A verification library for the C and C++ programs of this repository.

  \<^bold>\<open>The programs.\<close> Three services that do not share code. \<^verbatim>\<open>dns_server\<close> answers A and PTR
  queries from two configuration files over one non-blocking UDP socket, with a client that
  looks a name up; the same directory has a UDP echo pair. \<^verbatim>\<open>http_server\<close> serves files with
  an epoll loop; a small client asks it for a page. \<^verbatim>\<open>transfer_export\<close> moves a file in blocks
  of 8192 bytes: the client cuts it into messages, the transfer server copies each message into
  one of ten blocks of shared memory and announces the block on a named pipe, a reading process
  takes it from there to the storage server, and that puts the pieces together on disk, in a
  table of pending files kept in hash lists. The shared memory is set up by a separate program;
  two more modules (a router and a schedule manager) keep tables of blocks and processes.

  \<^bold>\<open>The model.\<close> A \<^verbatim>\<open>char\<close> buffer is a list of bytes and an access outside of it is \<open>None\<close>, so a
  conclusion \<open>Some\<close> is also memory safety; integers are words where their width matters. What the
  kernel keeps (files, descriptors, ports, segments, semaphores) is part of the state; what it
  decides (received bytes, the clock, whether a call fails, the number of attached processes) is an
  argument, of \<^verbatim>\<open>main\<close> as of every operation below it. A call that waits returns \<open>Sleeps\<close>, a \<^verbatim>\<open>pthread_cond_wait\<close> returns \<open>Waiting\<close>, and an
  \<^verbatim>\<open>exit\<close> is a value. Text on standard output is left out unless it is a result.

  \<^bold>\<open>Prelude.\<close> \<open>CMem\<close> has the buffers and the collection \<open>buf_simps\<close>; \<open>Endian\<close> the byte orders and the
  contract \<open>byte_codec\<close> of an encoding; \<open>CText\<close> strings, decimal numbers and configuration lines;
  \<open>Sockets\<close> the set-up of TCP servers and clients that the programs share, with the ports of the
  machine. \<open>Tools\<close> has what stands beside the services: the generator \<^verbatim>\<open>make_file.c\<close> and the log lines
  of \<^verbatim>\<open>w_msg.cpp\<close>.

  \<^bold>\<open>DNS.\<close> \<open>DnsName\<close> has the two label loops of \<^verbatim>\<open>w_dnsserver.cpp\<close> (\<open>label_loop\<close> of \<^verbatim>\<open>MakeDomain\<close>,
  \<open>dom_loop\<close> of \<^verbatim>\<open>GetRes\<close>) and relates them to splitting at dots; \<open>DnsServer\<close> the state of
  \<^verbatim>\<open>W_DnsServer\<close> and its operations; \<open>DnsServerFacts\<close> and \<open>DnsResponse\<close> the bytes they produce;
  \<open>DnsRun\<close> the loop \<^verbatim>\<open>Run\<close> as a step relation \<open>dns_step\<close> with its runs \<open>dns_run\<close>; \<open>DnsClient\<close> the
  client's \<^verbatim>\<open>Lookup\<close> and \<^verbatim>\<open>W_DnsConf\<close>. \<open>DnsProps\<close> states what is answered to which query, which
  addresses arrive unchanged, that replies alternate with requests along every run and that
  serving never changes later answers, and that \<^verbatim>\<open>GetA\<close> is \<^verbatim>\<open>GetRes\<close> up to a field. \<open>DnsService\<close> has the
  two \<^verbatim>\<open>main\<close> functions and the start of \<^verbatim>\<open>Run\<close>, and follows a session from the configuration file to
  what the client prints. \<open>UdpEcho\<close> has the loops of \<^verbatim>\<open>w_udpserver.cpp\<close> and \<^verbatim>\<open>w_udpclient.cpp\<close> and what
  a session of several clients gets, \<open>UdpRun\<close> how the two start.

  \<^bold>\<open>HTTP.\<close> \<open>HttpServer\<close> has \<^verbatim>\<open>w_httpserver.cpp\<close> and the loop of \<^verbatim>\<open>w_epoll.cpp\<close>, \<open>HttpProps\<close> when
  a request gets its own page, and \<open>HttpClient\<close> \<^verbatim>\<open>w_client.c\<close> and its exchange with the server.
  \<open>HttpListen\<close> has the start of \<^verbatim>\<open>run\<close> and its edge-triggered listening socket, with which clients
  are accepted. \<open>HttpClients\<close> runs the client and its older copy to their exit and shows that
  they agree. The superseded programs of \<^verbatim>\<open>http_server/bak\<close> are in \<open>BakServer\<close> (\<^verbatim>\<open>w_server.c\<close>, which
  cannot answer a request), \<open>BakEpoll\<close> (\<^verbatim>\<open>epoll.c\<close>, \<^verbatim>\<open>epoll-example.c\<close>: what they answer, and when the
  second one aborts) and \<open>HttpClients\<close> (\<^verbatim>\<open>w_client.c\<close>).

  \<^bold>\<open>File transfer.\<close> \<open>FileID\<close> has the identities of \<^verbatim>\<open>FileID.cpp\<close>. \<open>HList\<close> and \<open>CircList\<close> have the
  two kinds of list of \<^verbatim>\<open>list.h\<close> at pointer level; both are shown to be lists and meet the
  contract \<open>front_list\<close>. \<open>ListWalk\<close> has its iteration macros, and which of them let the body unlink nodes. \<open>PendingFile\<close> has \<^verbatim>\<open>PendingFile.cpp\<close>, \<open>PendingTable\<close> shows that the table is
  a map from identities to objects (contract \<open>id_table\<close>) and \<open>PendingSpec\<close> what the three operations
  of the storage server do to that map and the disk; \<open>TableEnd\<close> has its shutdown; \<open>StorageServer\<close> has the message loop of
  \<^verbatim>\<open>storage_server.cpp\<close> and \<open>StorageFacts\<close>, \<open>Upload\<close> its run over the blocks of an upload.
  \<open>TransferClient\<close> has \<^verbatim>\<open>SendFile\<close> of \<^verbatim>\<open>client.cpp\<close>. \<open>TransferProps\<close> joins both ends: what is sent is
  stored, in whatever order the pieces come. \<open>TwoReaders\<close> has the two connections over which the
  reading processes send an upload on, and shows that every interleaving of the operations of
  the two threads stores the file; its operations do not overlap, since overlapping writes
  are shown to interfere. \<open>Pool\<close> has the storage server as a process: \<^verbatim>\<open>main\<close>, the queue of
  connections, five threads that accept and take turns (\<open>serve_turn\<close> of \<open>StorageServer\<close>), the
  signal handler; a schedule is a list of events. \<open>PoolProps\<close> shows what no schedule can break, that
  a thread alone is \<open>serve\<close>, and how five bytes stop the server; \<open>PoolUpload\<close> that two of the
  threads refine the operations of \<open>TwoReaders\<close>. \<open>Programs\<close> has the \<^verbatim>\<open>main\<close> functions of the client
  and of the transfer server with their exit codes. \<open>SystemProps\<close> joins set-up, ring of blocks and
  connections, and \<open>Pipeline\<close> everything: all programs from their start, the bytes on every
  connection, the pool under any schedule of the two connections, and the disk. \<open>RelayClients\<close> follows
  the transfer server over any number of clients, up to a failed \<^verbatim>\<open>accept\<close>, and \<open>PoolLife\<close> the storage
  server over uploads one after another, each of which costs it a thread. \<open>SystemLife\<close> puts the two
  together: visits of clients a minute apart, each of them the client, the transfer server, the
  reading processes with their alarm and a round of the pool. \<open>SecondClient\<close> has a client that comes
  within the minute, and \<open>FifthClient\<close> one that comes after four: both lose their files under every
  schedule, which is shown with lanes, sets of states that a thread does not leave.
  \<open>ReadErrors\<close> has the turns of both servers after a \<^verbatim>\<open>read\<close> that fails, which they take for a message.

  \<^bold>\<open>Shared memory.\<close> \<open>ShmCtl\<close> has the kernel's state and \<^verbatim>\<open>W_ShmCtl\<close>, \<open>SemTable\<close> \<^verbatim>\<open>W_SemTable\<close> with the
  contract \<open>counting_locks\<close>, \<open>DataRecv\<close> \<^verbatim>\<open>W_DataRecv\<close> and \<^verbatim>\<open>W_FifoCtl\<close>, \<open>TransferServer\<close> the receive
  loop of \<^verbatim>\<open>transfer_server.cpp\<close> and the reading processes with \<^verbatim>\<open>transfer_client.cpp\<close>. \<open>ShmProps\<close> shows the
  round trip of a block, the ring of ten messages and the exclusion by the semaphores (invariant
  of a step relation), \<open>RelayProps\<close> that the stream is cut into the messages that were sent and that
  an upload through the router is stored. \<open>ShmTable\<close> has the template \<^verbatim>\<open>W_ShmTable<T>\<close> over the
  bytes of its items (contract \<open>item_array\<close>), \<open>RouteCtl\<close> \<^verbatim>\<open>W_RouteCtl\<close> and \<open>RouteProps\<close> its searches
  and registrations as list operations, \<open>NewShm\<close> the set-up program \<^verbatim>\<open>w_new_shm.cpp\<close> and that
  what it leaves serves readers and routers. \<open>FileWriter\<close> and \<open>RouteTests\<close> have the functions that
  test and print all this (\<^verbatim>\<open>WriteFileTest\<close>, \<^verbatim>\<open>WriteTest\<close>, \<^verbatim>\<open>ReadTest\<close>, \<^verbatim>\<open>Print\<close>, \<^verbatim>\<open>RunTest\<close>). \<open>Schedule\<close> and \<open>ScheduleProps\<close> have
  \<^verbatim>\<open>schedule_mng.cpp\<close>.

  \<^bold>\<open>Flaws.\<close> Where the code does not do what it means to, the model follows the code and a theorem
  states exactly when it goes wrong (overflows, races, lost requests, wrong addresses). Several
  are characterised by an equivalence.

  \<^bold>\<open>Termination.\<close> The loops of the model are structural recursions or have a measure, except
  the walks along lists (the macros of \<open>ListWalk\<close>, and \<open>find_loop\<close> and \<open>deinit_bucket\<close> for the pending
  files), which are partial functions with \<open>None\<close> for a list that does not end; they are shown to return
  on well-formed lists (\<open>TableEnd\<close> has the last one, with what it releases). Event loops that run for ever are relations or functions over the finite sequences of their events.
  One loop of the code never ends, the resynchronisation of the storage server: \<open>resync\<close> runs a
  given number of its turns, it is shown to end after none, and \<open>serve\<close> returns \<open>Spins\<close> there.
  Nothing else has a bound or fuel.

  \<^bold>\<open>Not modelled.\<close> Options of sockets and the flags of descriptors after they are set; overlapping turns of
  the storage server's threads beyond the locked steps of \<open>PendingFile\<close>; short writes of the
  clients; a \<^verbatim>\<open>read\<close> that fails inside of a message after its first byte has arrived (it
  leaves the same bytes as one that finds nothing); errors of \<^verbatim>\<open>shmget\<close> in the schedule manager; what the
  services log; the second copy
  of \<^verbatim>\<open>transfer_client.cpp\<close>; and the shell, CGI and JavaScript front ends \<^verbatim>\<open>url_manager\<close> and
  \<^verbatim>\<open>spider_lite\<close>.
\<close>

end
